(* ===== verification/Prelude.thy ===== *)
theory Prelude
  imports Main "HOL-Library.Word" "HOL-Library.Multiset"
begin

text \<open>
  Shared vocabulary of the development: identities, the bounded integers of the source, and the
  slice and vector operations its code uses, with the lemmas the component theories share.

  A Rust result \<open>Result<T, E>\<close> is a value of the sum type \<open>'e + 'a\<close>, with \<open>Inl\<close> the error.
  A method that takes \<open>&mut self\<close> takes the state and returns it, also on its error paths, because
  a Rust method keeps the writes it made before it returned an error.
\<close>

named_theorems size_simps \<open>lengths and counts of the sequence operations\<close>
named_theorems keep_simps \<open>what an operation leaves unchanged\<close>
named_theorems run_simps "the equations by which concrete inputs are evaluated"

section \<open>Identities and machine integers\<close>

text \<open>\<open>hierarchy::Id\<close> is \<open>[u8; 32]\<close>: as many values as a 256-bit word, with \<open>[0; 32]\<close> its zero.\<close>

type_synonym Id = "256 word"

text \<open>
  A \<open>u64\<close>, \<open>u32\<close> or \<open>usize\<close> is a natural number; each operation that can leave its range is
  written out: \<open>checked_add\<close> returns \<open>None\<close>, \<open>saturating_add\<close> stays at the maximum, and \<open>+\<close> wraps,
  as it does in a release build.
\<close>

type_synonym u64 = nat

definition u64_max :: u64 where
  "u64_max = 18446744073709551615"

definition checked_add :: "u64 \<Rightarrow> u64 \<Rightarrow> u64 option" where
  "checked_add a b = (if a + b \<le> u64_max then Some (a + b) else None)"

definition saturating_add :: "u64 \<Rightarrow> u64 \<Rightarrow> u64" where
  "saturating_add a b = min (a + b) u64_max"

definition wrapping_add :: "u64 \<Rightarrow> u64 \<Rightarrow> u64" where
  "wrapping_add a b = (a + b) mod (u64_max + 1)"

lemma u64_max_pos [simp]: "0 < u64_max" "u64_max \<noteq> 0" "Suc 0 \<le> u64_max"
  by (simp_all add: u64_max_def)

lemma checked_add_Some_iff [simp]:
  "checked_add a b = Some c \<longleftrightarrow> a + b \<le> u64_max \<and> c = a + b"
  by (auto simp: checked_add_def)

lemma checked_add_None_iff [simp]: "checked_add a b = None \<longleftrightarrow> u64_max < a + b"
  by (auto simp: checked_add_def)

lemma wrapping_add_small: "a + b \<le> u64_max \<Longrightarrow> wrapping_add a b = a + b"
  by (simp add: wrapping_add_def)

lemma wrapping_add_le [simp]: "wrapping_add a b \<le> u64_max"
proof -
  have "(a + b) mod (u64_max + 1) < u64_max + 1"
    by (rule mod_less_divisor) simp
  then show ?thesis by (simp add: wrapping_add_def)
qed

lemma saturating_add_le [simp]: "saturating_add a b \<le> u64_max"
  by (simp add: saturating_add_def)

section \<open>Vectors and slices\<close>

text \<open>\<open>iter().position(p)\<close>.\<close>

fun position :: "('a \<Rightarrow> bool) \<Rightarrow> 'a list \<Rightarrow> nat option" where
  "position p [] = None"
| "position p (x # xs) = (if p x then Some 0 else map_option Suc (position p xs))"

text \<open>\<open>iter().find_map(f)\<close>.\<close>

fun find_map :: "('a \<Rightarrow> 'b option) \<Rightarrow> 'a list \<Rightarrow> 'b option" where
  "find_map f [] = None"
| "find_map f (x # xs) = (case f x of Some y \<Rightarrow> Some y | None \<Rightarrow> find_map f xs)"

text \<open>\<open>Vec::remove(i)\<close> and \<open>Vec::insert(i, x)\<close> for an index in range.\<close>

definition remove_at :: "nat \<Rightarrow> 'a list \<Rightarrow> 'a list" where
  "remove_at i xs = take i xs @ drop (Suc i) xs"

definition insert_at :: "nat \<Rightarrow> 'a \<Rightarrow> 'a list \<Rightarrow> 'a list" where
  "insert_at i x xs = take i xs @ x # drop i xs"

text \<open>A write through \<open>iter_mut().find(p)\<close>: the first element that satisfies \<open>p\<close> changes.\<close>

fun update_first :: "('a \<Rightarrow> bool) \<Rightarrow> ('a \<Rightarrow> 'a) \<Rightarrow> 'a list \<Rightarrow> 'a list" where
  "update_first p f [] = []"
| "update_first p f (x # xs) = (if p x then f x # xs else x # update_first p f xs)"

text \<open>\<open>iter().map(f).collect::<Option<Vec<_>>>()\<close>.\<close>

fun collect_options :: "'a option list \<Rightarrow> 'a list option" where
  "collect_options [] = Some []"
| "collect_options (x # xs) =
     (case x of None \<Rightarrow> None | Some y \<Rightarrow> map_option ((#) y) (collect_options xs))"

subsection \<open>Searching\<close>

lemma position_Some_iff:
  "position p xs = Some i \<longleftrightarrow> i < length xs \<and> p (xs ! i) \<and> (\<forall>j<i. \<not> p (xs ! j))"
proof (induction xs arbitrary: i)
  case Nil
  then show ?case by simp
next
  case (Cons x xs)
  then show ?case by (cases i) (auto simp: less_Suc_eq_0_disj)
qed

lemma position_None_iff [simp]: "position p xs = None \<longleftrightarrow> (\<forall>x\<in>set xs. \<not> p x)"
  by (induction xs) auto

lemma position_SomeD:
  "position p xs = Some i \<Longrightarrow> i < length xs" "position p xs = Some i \<Longrightarrow> p (xs ! i)"
  by (simp_all add: position_Some_iff)

lemma find_position: "List.find p xs = map_option (nth xs) (position p xs)"
  by (induction xs) (auto simp: option.map_comp comp_def)

lemma find_SomeD: "List.find p xs = Some x \<Longrightarrow> x \<in> set xs \<and> p x"
  by (auto simp: find_Some_iff)

lemma find_None: "List.find p xs = None \<longleftrightarrow> (\<forall>x\<in>set xs. \<not> p x)"
  by (auto simp: find_None_iff)

lemma find_map_Some: "find_map f xs = Some y \<Longrightarrow> \<exists>x\<in>set xs. f x = Some y"
  by (induction xs) (auto split: option.splits)

lemma find_map_None: "find_map f xs = None \<longleftrightarrow> (\<forall>x\<in>set xs. f x = None)"
  by (induction xs) (auto split: option.splits)

text \<open>Where the lists of identities are all disjoint, an identity has one owner.\<close>

lemma distinct_concat_owner:
  "distinct (concat (map f xs)) \<Longrightarrow> x \<in> set xs \<Longrightarrow> y \<in> set xs \<Longrightarrow> i \<in> set (f x) \<Longrightarrow> i \<in> set (f y) \<Longrightarrow> x = y"
  by (induction xs) (auto dest: split_list)

lemma distinct_concat_each: "distinct (concat (map f xs)) \<Longrightarrow> x \<in> set xs \<Longrightarrow> distinct (f x)"
  by (induction xs) auto

text \<open>With distinct keys, a search by key finds the element the key names.\<close>

lemma find_key_unique:
  "distinct (map k xs) \<Longrightarrow> x \<in> set xs \<Longrightarrow> List.find (\<lambda>y. k y = k x) xs = Some x"
  by (induction xs) (auto simp: image_iff)

lemma distinct_key_eq:
  "distinct (map k xs) \<Longrightarrow> x \<in> set xs \<Longrightarrow> y \<in> set xs \<Longrightarrow> k x = k y \<Longrightarrow> x = y"
  by (simp add: distinct_map inj_on_def)

subsection \<open>Writing\<close>

lemma length_update_first [simp, size_simps]: "length (update_first p f xs) = length xs"
  by (induction xs) auto

lemma update_first_id: "\<forall>x\<in>set xs. \<not> p x \<Longrightarrow> update_first p f xs = xs"
  by (induction xs) auto

lemma set_update_first: "set (update_first p f xs) \<subseteq> set xs \<union> f ` {x \<in> set xs. p x}"
  by (induction xs) auto

lemma map_update_first: "(\<And>x. k (f x) = k x) \<Longrightarrow> map k (update_first p f xs) = map k xs"
  by (induction xs) auto

lemma map_update_first_on:
  "(\<And>x. x \<in> set xs \<Longrightarrow> p x \<Longrightarrow> k (f x) = k x) \<Longrightarrow> map k (update_first p f xs) = map k xs"
  by (induction xs) auto

lemma update_first_split:
  assumes "List.find p xs = Some x"
  obtains ys zs where "xs = ys @ x # zs" "\<forall>y\<in>set ys. \<not> p y" "p x"
    "\<And>f. update_first p f xs = ys @ f x # zs"
proof -
  have "\<exists>ys zs. xs = ys @ x # zs \<and> (\<forall>y\<in>set ys. \<not> p y) \<and> p x \<and>
      (\<forall>f. update_first p f xs = ys @ f x # zs)"
    using assms
  proof (induction xs)
    case Nil
    then show ?case by simp
  next
    case (Cons a xs)
    show ?case
    proof (cases "p a")
      case True
      with Cons.prems show ?thesis by (intro exI [of _ "[]"] exI [of _ xs]) auto
    next
      case False
      with Cons obtain ys zs where "xs = ys @ x # zs" "\<forall>y\<in>set ys. \<not> p y" "p x"
        "\<forall>f. update_first p f xs = ys @ f x # zs" by auto
      with False show ?thesis by (intro exI [of _ "a # ys"] exI [of _ zs]) auto
    qed
  qed
  with that show thesis by blast
qed

lemma mset_remove_at: "i < length xs \<Longrightarrow> add_mset (xs ! i) (mset (remove_at i xs)) = mset xs"
  by (metis Cons_nth_drop_Suc append_take_drop_id mset.simps(2) mset_append
      remove_at_def union_mset_add_mset_right)

lemma set_remove_at: "set (remove_at i xs) \<subseteq> set xs"
  by (auto simp: remove_at_def dest: in_set_takeD in_set_dropD)

lemma length_remove_at [size_simps]: "i < length xs \<Longrightarrow> length (remove_at i xs) = length xs - 1"
  by (simp add: remove_at_def)

lemma map_remove_at: "map f (remove_at i xs) = remove_at i (map f xs)"
  by (simp add: remove_at_def take_map drop_map)

lemma distinct_remove_at: "distinct xs \<Longrightarrow> distinct (remove_at i xs)"
  by (auto simp: remove_at_def dest: set_take_disj_set_drop_if_distinct [of xs i "Suc i"])

lemma remove_at_nth_notin:
  assumes "distinct xs" "i < length xs"
  shows "xs ! i \<notin> set (remove_at i xs)"
proof -
  have "count (mset (remove_at i xs)) (xs ! i) = 0"
    using mset_remove_at [OF assms(2)] assms(1)
    by (metis add_mset_remove_trivial assms(2) count_add_mset distinct_count_atmost_1
        nth_mem old.nat.inject One_nat_def)
  then show ?thesis by (metis count_mset_0_iff)
qed

lemma mset_insert_at [simp]: "mset (insert_at i x xs) = add_mset x (mset xs)"
  by (metis append_take_drop_id insert_at_def mset.simps(2) mset_append union_mset_add_mset_right)

lemma set_insert_at [simp]: "set (insert_at i x xs) = insert x (set xs)"
  by (metis mset_insert_at set_mset_add_mset_insert set_mset_mset)

lemma length_insert_at [simp, size_simps]: "length (insert_at i x xs) = Suc (length xs)"
  by (metis mset_insert_at size_add_mset size_mset)

lemma collect_options_Some_iff:
  "collect_options xs = Some ys \<longleftrightarrow> xs = map Some ys"
proof (induction xs arbitrary: ys)
  case Nil
  then show ?case by auto
next
  case (Cons x xs)
  then show ?case by (cases ys) (auto split: option.splits)
qed

subsection \<open>Sequences of sequences\<close>

lemma mset_concat_list_update:
  "i < length xs \<Longrightarrow> mset (concat (map f (xs[i := x]))) + mset (f (xs ! i)) =
     mset (concat (map f xs)) + mset (f x)"
proof -
  assume i: "i < length xs"
  have "map f xs = map f (take i xs) @ f (xs ! i) # map f (drop (Suc i) xs)"
    using i by (metis id_take_nth_drop list.simps(9) map_append)
  moreover have "map f (xs[i := x]) = map f (take i xs) @ f x # map f (drop (Suc i) xs)"
    using i by (simp add: upd_conv_take_nth_drop)
  ultimately show ?thesis by simp
qed

lemma mset_concat_remove_at:
  "i < length xs \<Longrightarrow> mset (concat (map f (remove_at i xs))) + mset (f (xs ! i)) = mset (concat (map f xs))"
proof -
  assume i: "i < length xs"
  have "map f xs = map f (take i xs) @ f (xs ! i) # map f (drop (Suc i) xs)"
    using i by (metis id_take_nth_drop list.simps(9) map_append)
  then show ?thesis by (simp add: remove_at_def)
qed

lemma distinct_submset: "mset xs \<subseteq># mset ys \<Longrightarrow> distinct ys \<Longrightarrow> distinct xs"
proof -
  assume sub: "mset xs \<subseteq># mset ys" and d: "distinct ys"
  have "count (mset xs) a = (if a \<in> set xs then 1 else 0)" for a
  proof -
    have "count (mset xs) a \<le> count (mset ys) a" using sub by (rule mset_subset_eq_count)
    also have "\<dots> \<le> 1" using d by (simp add: distinct_count_atmost_1)
    finally show ?thesis
      by (metis One_nat_def count_mset_0_iff le_0_eq le_Suc_eq)
  qed
  then show ?thesis by (simp add: distinct_count_atmost_1)
qed

lemma update_first_list_update:
  "position p xs = Some i \<Longrightarrow> update_first p f xs = xs[i := f (xs ! i)]"
proof (induction xs arbitrary: i)
  case (Cons x xs)
  then show ?case by (cases i) (auto split: if_splits)
qed simp

end
