(* ===== verification/Rust_Text.thy ===== *)
theory Rust_Text
  imports Prelude
begin

text \<open>
  The parts of Rust's \<open>char\<close>, \<open>str\<close>, \<open>Path\<close> and \<open>String::from_utf8_lossy\<close> the modelled code uses.

  A \<open>String\<close> is the list of its scalar values, so string equality is list equality and
  \<open>chars()\<close> is the list itself; \<open>len()\<close> counts the bytes of the UTF-8 encoding. A \<open>PathBuf\<close> on
  Unix is a list of bytes. Rust compares paths component by component, so \<open>path_eq\<close> is coarser than
  equality of the bytes.
\<close>

section \<open>Characters and strings\<close>

type_synonym rchar = nat
type_synonym rust_string = "rchar list"

text \<open>An ASCII literal of the source.\<close>

definition lit :: "string \<Rightarrow> rust_string" where
  "lit s = map of_char s"

text \<open>\<open>char::is_control\<close>: the general category Cc.\<close>

definition is_control :: "rchar \<Rightarrow> bool" where
  "is_control c \<longleftrightarrow> c \<le> 0x1F \<or> (0x7F \<le> c \<and> c \<le> 0x9F)"

text \<open>\<open>char::is_whitespace\<close>: the property \<open>White_Space\<close>.\<close>

definition is_whitespace :: "rchar \<Rightarrow> bool" where
  "is_whitespace c \<longleftrightarrow> c = 0x20 \<or> (0x09 \<le> c \<and> c \<le> 0x0D) \<or> c = 0x85 \<or> c = 0xA0 \<or> c = 0x1680 \<or>
     (0x2000 \<le> c \<and> c \<le> 0x200A) \<or> c = 0x2028 \<or> c = 0x2029 \<or> c = 0x202F \<or> c = 0x205F \<or> c = 0x3000"

definition trim_start :: "rust_string \<Rightarrow> rust_string" where
  "trim_start s = dropWhile is_whitespace s"

definition trim :: "rust_string \<Rightarrow> rust_string" where
  "trim s = rev (dropWhile is_whitespace (rev (trim_start s)))"

text \<open>\<open>char::len_utf8\<close> and \<open>str::len\<close>.\<close>

definition len_utf8 :: "rchar \<Rightarrow> nat" where
  "len_utf8 c = (if c < 0x80 then 1 else if c < 0x800 then 2 else if c < 0x10000 then 3 else 4)"

definition str_len :: "rust_string \<Rightarrow> nat" where
  "str_len s = sum_list (map len_utf8 s)"

text \<open>\<open>while base.len() > limit { base.pop(); }\<close>\<close>

function pop_to :: "nat \<Rightarrow> rust_string \<Rightarrow> rust_string" where
  "pop_to limit s = (if str_len s > limit then pop_to limit (butlast s) else s)"
  by pat_completeness auto
termination
proof (relation "measure (\<lambda>(limit, s). length s)")
  fix limit s
  assume "str_len s > limit"
  then have "s \<noteq> []" by (auto simp: str_len_def)
  then show "((limit, butlast s), (limit, s)) \<in> measure (\<lambda>(limit, s). length s)" by simp
qed simp

declare pop_to.simps [simp del]

text \<open>The decimal digits \<open>format!\<close> writes for a natural number.\<close>

fun decimal :: "nat \<Rightarrow> rust_string" where
  "decimal n = (if n < 10 then [48 + n] else decimal (n div 10) @ [48 + n mod 10])"

declare decimal.simps [simp del]

subsection \<open>Facts about strings\<close>

lemma len_utf8_bounds: "1 \<le> len_utf8 c" "len_utf8 c \<le> 4"
  by (simp_all add: len_utf8_def)

lemma str_len_simps [simp, size_simps]:
  "str_len [] = 0" "str_len (c # s) = len_utf8 c + str_len s"
  "str_len (s @ t) = str_len s + str_len t"
  by (simp_all add: str_len_def)

lemma str_len_zero [simp]: "str_len s = 0 \<longleftrightarrow> s = []"
  using len_utf8_bounds(1) by (cases s) (auto simp: Suc_le_eq)

lemma str_len_rev [simp]: "str_len (rev s) = str_len s"
  by (induction s) auto

lemma str_len_dropWhile: "str_len (dropWhile P s) \<le> str_len s"
  by (induction s) auto

lemma trim_subset: "set (trim s) \<subseteq> set s"
  unfolding trim_def trim_start_def by (metis set_dropWhileD set_rev subsetI)

lemma str_len_trim: "str_len (trim s) \<le> str_len s"
  unfolding trim_def trim_start_def
  by (metis le_trans str_len_dropWhile str_len_rev)

lemma trim_empty_iff: "trim s = [] \<longleftrightarrow> (\<forall>c\<in>set s. is_whitespace c)"
proof
  assume e: "trim s = []"
  then have "\<forall>c\<in>set (trim_start s). is_whitespace c"
    by (simp add: trim_def dropWhile_eq_Nil_conv)
  then have "trim_start s = []"
    unfolding trim_start_def by (metis hd_dropWhile hd_in_set)
  then show "\<forall>c\<in>set s. is_whitespace c"
    by (simp add: trim_start_def dropWhile_eq_Nil_conv)
next
  assume "\<forall>c\<in>set s. is_whitespace c"
  then have "trim_start s = []" by (simp add: trim_start_def dropWhile_eq_Nil_conv)
  then show "trim s = []" by (simp add: trim_def)
qed

lemma trim_nonempty_mono: "\<exists>c\<in>set s. \<not> is_whitespace c \<Longrightarrow> trim s \<noteq> []"
  by (auto simp: trim_empty_iff)

lemma trim_keeps_visible: "c \<in> set s \<Longrightarrow> \<not> is_whitespace c \<Longrightarrow> c \<in> set (trim s)"
proof -
  assume c: "c \<in> set s" and v: "\<not> is_whitespace c"
  have drop: "c \<in> set xs \<Longrightarrow> c \<in> set (dropWhile is_whitespace xs)" for xs
    using v by (induction xs) auto
  from c have "c \<in> set (trim_start s)" by (simp add: trim_start_def drop)
  then show ?thesis using drop [of "rev (trim_start s)"] by (simp add: trim_def)
qed

lemma trim_trim_nonempty: "trim s \<noteq> [] \<Longrightarrow> trim (trim s) \<noteq> []"
  using trim_keeps_visible by (auto simp: trim_empty_iff)

lemma pop_to_len: "str_len (pop_to limit s) \<le> limit"
  by (induction limit s rule: pop_to.induct) (subst pop_to.simps, auto)

lemma pop_to_prefix: "\<exists>t. s = pop_to limit s @ t"
proof (induction limit s rule: pop_to.induct)
  case (1 limit s)
  show ?case
  proof (cases "str_len s > limit")
    case True
    then obtain t where t: "butlast s = pop_to limit (butlast s) @ t" using 1 by blast
    have "s = butlast s @ [last s]" using True by (cases s) auto
    then have "s = pop_to limit (butlast s) @ (t @ [last s])" using t by (metis append_assoc)
    then show ?thesis using True by (subst pop_to.simps) auto
  next
    case False
    then show ?thesis by (subst pop_to.simps) auto
  qed
qed

lemma pop_to_subset: "set (pop_to limit s) \<subseteq> set s"
  by (metis Un_iff pop_to_prefix set_append subsetI)

lemma pop_to_id: "str_len s \<le> limit \<Longrightarrow> pop_to limit s = s"
  by (subst pop_to.simps) simp

lemma decimal_nonempty [simp]: "decimal n \<noteq> []"
  by (subst decimal.simps) simp

lemma decimal_digits: "c \<in> set (decimal n) \<Longrightarrow> 48 \<le> c \<and> c \<le> 57"
proof (induction n rule: decimal.induct)
  case (1 n)
  show ?case
  proof (cases "n < 10")
    case True
    with "1.prems" show ?thesis by (subst (asm) decimal.simps) auto
  next
    case False
    with "1.prems" have "c \<in> set (decimal (n div 10)) \<or> c = 48 + n mod 10"
      by (subst (asm) decimal.simps) auto
    moreover have "n mod 10 \<le> 9" by presburger
    ultimately show ?thesis using False "1.IH" by auto
  qed
qed

text \<open>The digits determine the number, so numbered names never collide by accident.\<close>

definition undecimal :: "rust_string \<Rightarrow> nat" where
  "undecimal s = foldl (\<lambda>a c. 10 * a + (c - 48)) 0 s"

lemma undecimal_decimal: "undecimal (decimal n) = n"
proof (induction n rule: decimal.induct)
  case (1 n)
  show ?case
  proof (cases "n < 10")
    case True
    then show ?thesis by (subst decimal.simps) (simp add: undecimal_def)
  next
    case False
    with 1 have "undecimal (decimal (n div 10)) = n div 10" by simp
    then show ?thesis using False
      by (subst decimal.simps) (simp add: undecimal_def)
  qed
qed

lemma decimal_inject [simp]: "decimal m = decimal n \<longleftrightarrow> m = n"
  by (metis undecimal_decimal)

lemma str_len_decimal_small: "n < 100 \<Longrightarrow> str_len (decimal n) \<le> 2"
proof -
  assume n: "n < 100"
  show ?thesis
  proof (cases "n < 10")
    case True
    then show ?thesis by (subst decimal.simps) (simp add: len_utf8_def)
  next
    case False
    moreover have "n div 10 < 10" using n by auto
    moreover have "n mod 10 < 10" by simp
    ultimately show ?thesis
      by (subst decimal.simps, subst decimal.simps) (simp add: len_utf8_def)
  qed
qed

section \<open>Paths\<close>

type_synonym byte = nat
type_synonym path = "byte list"

datatype component = RootDir | CurDir | ParentDir | Normal "byte list"

text \<open>The pieces between separators; \<open>[47]\<close> is the byte of a slash and \<open>[46]\<close> that of a dot.\<close>

fun split_slash :: "byte list \<Rightarrow> byte list \<Rightarrow> byte list list" where
  "split_slash piece [] = [rev piece]"
| "split_slash piece (b # bs) =
     (if b = 47 then rev piece # split_slash [] bs else split_slash (b # piece) bs)"

definition component_of :: "byte list \<Rightarrow> component" where
  "component_of piece = (if piece = [46, 46] then ParentDir else Normal piece)"

text \<open>\<open>Path::is_absolute\<close> on Unix, and \<open>Path::components\<close>: empty pieces and single dots vanish,
  except a leading dot of a relative path.\<close>

definition is_absolute :: "path \<Rightarrow> bool" where
  "is_absolute p \<longleftrightarrow> (case p of b # _ \<Rightarrow> b = 47 | [] \<Rightarrow> False)"

definition components :: "path \<Rightarrow> component list" where
  "components p =
     (let pieces = split_slash [] p;
          body = map component_of (filter (\<lambda>s. s \<noteq> [] \<and> s \<noteq> [46]) pieces)
      in if is_absolute p then RootDir # body
         else if hd pieces = [46] then CurDir # body else body)"

definition path_eq :: "path \<Rightarrow> path \<Rightarrow> bool" where
  "path_eq p q \<longleftrightarrow> components p = components q"

definition opt_path_eq :: "path option \<Rightarrow> path option \<Rightarrow> bool" where
  "opt_path_eq p q \<longleftrightarrow> map_option components p = map_option components q"

text \<open>\<open>Path::file_name\<close>: the last component, when it names an entry.\<close>

definition file_name :: "path \<Rightarrow> byte list option" where
  "file_name p = (if components p = [] then None
     else case last (components p) of Normal s \<Rightarrow> Some s | _ \<Rightarrow> None)"

lemma path_eq_refl [simp]: "path_eq p p"
  by (simp add: path_eq_def)

lemma opt_path_eq_refl [simp]: "opt_path_eq p p"
  by (simp add: opt_path_eq_def)

lemma path_eq_sym: "path_eq p q \<Longrightarrow> path_eq q p"
  by (simp add: path_eq_def)

lemma path_eq_trans: "path_eq p q \<Longrightarrow> path_eq q r \<Longrightarrow> path_eq p r"
  by (simp add: path_eq_def)

subsection \<open>Lossy decoding\<close>

definition cont :: "byte \<Rightarrow> bool" where
  "cont b \<longleftrightarrow> 0x80 \<le> b \<and> b \<le> 0xBF"

text \<open>The second bytes a three- or four-byte lead accepts: no overlong form, no surrogate, nothing
  beyond \<open>U+10FFFF\<close>.\<close>

definition second3 :: "byte \<Rightarrow> byte \<Rightarrow> bool" where
  "second3 lead b \<longleftrightarrow> (if lead = 0xE0 then 0xA0 \<le> b \<and> b \<le> 0xBF
     else if lead = 0xED then 0x80 \<le> b \<and> b \<le> 0x9F else cont b)"

definition second4 :: "byte \<Rightarrow> byte \<Rightarrow> bool" where
  "second4 lead b \<longleftrightarrow> (if lead = 0xF0 then 0x90 \<le> b \<and> b \<le> 0xBF
     else if lead = 0xF4 then 0x80 \<le> b \<and> b \<le> 0x8F else cont b)"

text \<open>The scalar value a string of bytes starts with, or \<open>U+FFFD\<close> for an ill-formed start, and how
  many bytes it takes: an ill-formed sequence is replaced up to the first byte that cannot continue
  it.\<close>

fun utf8_step :: "byte list \<Rightarrow> rchar \<times> nat" where
  "utf8_step [] = (0xFFFD, 1)"
| "utf8_step (a # bs) =
     (if a < 0x80 then (a, 1)
      else if 0xC2 \<le> a \<and> a \<le> 0xDF then
        (case bs of
           b # _ \<Rightarrow> if cont b then ((a - 0xC0) * 64 + (b - 0x80), 2) else (0xFFFD, 1)
         | [] \<Rightarrow> (0xFFFD, 1))
      else if 0xE0 \<le> a \<and> a \<le> 0xEF then
        (case bs of
           b # c # _ \<Rightarrow>
             if \<not> second3 a b then (0xFFFD, 1)
             else if \<not> cont c then (0xFFFD, 2)
             else ((a - 0xE0) * 4096 + (b - 0x80) * 64 + (c - 0x80), 3)
         | b # [] \<Rightarrow> if second3 a b then (0xFFFD, 2) else (0xFFFD, 1)
         | [] \<Rightarrow> (0xFFFD, 1))
      else if 0xF0 \<le> a \<and> a \<le> 0xF4 then
        (case bs of
           b # c # d # _ \<Rightarrow>
             if \<not> second4 a b then (0xFFFD, 1)
             else if \<not> cont c then (0xFFFD, 2)
             else if \<not> cont d then (0xFFFD, 3)
             else ((a - 0xF0) * 262144 + (b - 0x80) * 4096 + (c - 0x80) * 64 + (d - 0x80), 4)
         | b # c # [] \<Rightarrow>
             if \<not> second4 a b then (0xFFFD, 1) else if cont c then (0xFFFD, 3) else (0xFFFD, 2)
         | b # [] \<Rightarrow> if second4 a b then (0xFFFD, 2) else (0xFFFD, 1)
         | [] \<Rightarrow> (0xFFFD, 1))
      else (0xFFFD, 1))"

lemma utf8_step_pos: "0 < snd (utf8_step bs)"
  by (cases bs) (auto split: list.splits)

function utf8_lossy :: "byte list \<Rightarrow> rust_string" where
  "utf8_lossy bs = (if bs = [] then [] else fst (utf8_step bs) # utf8_lossy (drop (snd (utf8_step bs)) bs))"
  by pat_completeness auto
termination
proof (relation "measure length")
  fix bs :: "byte list"
  assume "bs \<noteq> []"
  then show "(drop (snd (utf8_step bs)) bs, bs) \<in> measure length"
    using utf8_step_pos [of bs] by (cases bs) auto
qed simp

declare utf8_lossy.simps [simp del]

text \<open>ASCII text decodes to itself.\<close>

lemma utf8_lossy_ascii: "\<forall>b\<in>set bs. b < 0x80 \<Longrightarrow> utf8_lossy bs = bs"
proof (induction bs)
  case Nil
  then show ?case by (subst utf8_lossy.simps) simp
next
  case (Cons b bs)
  then have "utf8_step (b # bs) = (b, 1)" by simp
  with Cons show ?case by (subst utf8_lossy.simps) simp
qed

text \<open>\<open>valid_path\<close> of \<open>hierarchy.rs\<close>: absolute, bounded, free of NUL.\<close>

definition valid_path :: "path \<Rightarrow> bool" where
  "valid_path p \<longleftrightarrow> is_absolute p \<and> length p \<le> 4096 \<and> 0 \<notin> set p"

lemmas text_run [run_simps] = lit_def is_control_def is_whitespace_def trim_def trim_start_def
  len_utf8_def pop_to_id decimal.simps components_def component_of_def is_absolute_def path_eq_def
  opt_path_eq_def file_name_def utf8_lossy_ascii valid_path_def Let_def

end
