(* ===== verification/Pane_Metadata.thy ===== *)
theory Pane_Metadata
  imports Rust_Text
begin

text \<open>
  Presentation facts of a Pane (\<open>pane/metadata.rs\<close>) and the names of its clients
  (\<open>pane/control.rs\<close>): bounded, printable text that grants no authority. The theory models the
  validation a received snapshot passes, the normalisation of a Client Name, and the bounded table
  of the names a server remembers.
\<close>

section \<open>Pane metadata\<close>

definition MAX_TITLE_CHARS :: nat where "MAX_TITLE_CHARS = 256"
definition MAX_COMMAND_CHARS :: nat where "MAX_COMMAND_CHARS = 4096"
definition MAX_DIRECTORY_CHARS :: nat where "MAX_DIRECTORY_CHARS = 4096"
definition MAX_MACHINE_CHARS :: nat where "MAX_MACHINE_CHARS = 256"

datatype title_provenance = TitleFallback | WorkingDirectory | TerminalControl
datatype directory_provenance = DirectoryInitial | Osc7
datatype freshness = Live | Stale
datatype prompt_zone = ZoneUnknown | Prompt | CommandInput | CommandOutput
datatype command_state = Running | Finished "int option" u64

record command =
  cmd_line :: rust_string
  cmd_state :: command_state

datatype title_glyph = Reported | Retained "rust_string option"
datatype progress = NoProgress | NormalProgress nat | ErrorProgress nat | Indeterminate | Paused nat

record snapshot =
  sn_revision :: u64
  sn_shell_name :: rust_string
  sn_title :: rust_string
  sn_title_provenance :: title_provenance
  sn_directory :: rust_string
  sn_directory_provenance :: directory_provenance
  sn_user :: "rust_string option"
  sn_host :: "rust_string option"
  sn_home :: "rust_string option"
  sn_freshness :: freshness
  sn_finished_commands :: u64
  sn_prompt_zone :: prompt_zone
  sn_command :: "command option"
  sn_title_activity :: bool
  sn_title_glyph :: title_glyph
  sn_progress :: progress

text \<open>\<open>control::invisible\<close>: format characters that reorder or hide text.\<close>

definition invisible :: "rchar \<Rightarrow> bool" where
  "invisible c \<longleftrightarrow> c = 0x00AD \<or> c = 0x061C \<or> c = 0x180E \<or> c = 0x200B \<or>
     (0x200E \<le> c \<and> c \<le> 0x200F) \<or> (0x202A \<le> c \<and> c \<le> 0x202E) \<or>
     (0x2060 \<le> c \<and> c \<le> 0x206F) \<or> c = 0xFEFF \<or> (0xFFF9 \<le> c \<and> c \<le> 0xFFFB)"

definition presentable :: "rchar \<Rightarrow> bool" where
  "presentable c \<longleftrightarrow> \<not> is_control c \<and> \<not> invisible c"

definition sanitize :: "rust_string \<Rightarrow> nat \<Rightarrow> rust_string" where
  "sanitize s limit = take limit (filter presentable s)"

definition valid_text :: "rust_string \<Rightarrow> nat \<Rightarrow> bool" where
  "valid_text s limit \<longleftrightarrow> length s \<le> limit \<and> list_all presentable s"

definition optional_text :: "rust_string option \<Rightarrow> nat \<Rightarrow> bool" where
  "optional_text s limit \<longleftrightarrow> (case s of None \<Rightarrow> True | Some t \<Rightarrow> valid_text t limit)"

text \<open>\<open>Snapshot::validate\<close>; true where the source returns \<open>Ok\<close>.\<close>

definition snapshot_valid :: "snapshot \<Rightarrow> bool" where
  "snapshot_valid s \<longleftrightarrow> \<not> (
     \<not> valid_text (sn_title s) MAX_TITLE_CHARS
     \<or> \<not> valid_text (sn_shell_name s) MAX_TITLE_CHARS
     \<or> \<not> valid_text (sn_directory s) MAX_DIRECTORY_CHARS
     \<or> \<not> optional_text (sn_user s) MAX_MACHINE_CHARS
     \<or> \<not> optional_text (sn_host s) MAX_MACHINE_CHARS
     \<or> \<not> optional_text (sn_home s) MAX_DIRECTORY_CHARS
     \<or> (case sn_command s of Some c \<Rightarrow> \<not> valid_text (cmd_line c) MAX_COMMAND_CHARS | None \<Rightarrow> False)
     \<or> (case sn_title_glyph s of Retained (Some t) \<Rightarrow> \<not> valid_text t MAX_TITLE_CHARS | _ \<Rightarrow> False)
     \<or> (case sn_progress s of
          NormalProgress n \<Rightarrow> 100 < n | ErrorProgress n \<Rightarrow> 100 < n | Paused n \<Rightarrow> 100 < n | _ \<Rightarrow> False))"

text \<open>Sanitised text always passes the validation the other peer applies, and is left as it is.\<close>

lemma sanitize_valid: "valid_text (sanitize s limit) limit"
  by (auto simp: valid_text_def sanitize_def list_all_iff dest: in_set_takeD)

lemma sanitize_valid_id: "valid_text s limit \<Longrightarrow> sanitize s limit = s"
  by (simp add: valid_text_def sanitize_def list_all_iff)

section \<open>Client Names\<close>

definition MAX_CLIENT_NAME_CHARS :: nat where "MAX_CLIENT_NAME_CHARS = 48"
definition MAX_CLIENT_NAMES :: nat where "MAX_CLIENT_NAMES = 256"

definition FALLBACK :: rust_string where
  "FALLBACK = lit ''Another SpaceTerm''"

text \<open>The loop of \<open>ClientName::from\<close>: \<open>space\<close> is its local of that name, \<open>kept\<close> the characters so
  far.\<close>

fun keep_chars :: "rust_string \<Rightarrow> bool \<Rightarrow> rust_string \<Rightarrow> rust_string" where
  "keep_chars [] space kept = kept"
| "keep_chars (c # cs) space kept =
     (if length kept > MAX_CLIENT_NAME_CHARS then kept
      else if is_whitespace c then keep_chars cs (kept \<noteq> []) kept
      else if \<not> is_control c \<and> \<not> invisible c
        then keep_chars cs False (kept @ (if space then [32] else []) @ [c])
      else keep_chars cs space kept)"

definition pop_spaces :: "rust_string \<Rightarrow> rust_string" where
  "pop_spaces s = rev (dropWhile (\<lambda>c. c = 32) (rev s))"

definition client_name :: "rust_string \<Rightarrow> rust_string" where
  "client_name s =
     (let kept = keep_chars s False [];
          kept = (if length kept > MAX_CLIENT_NAME_CHARS
                  then pop_spaces (take (MAX_CLIENT_NAME_CHARS - 1) kept) @ [0x2026] else kept)
      in if kept = [] then FALLBACK else kept)"

datatype controller = Nobody | Client rust_string bool

type_synonym client_names = "(Id \<times> rust_string) list"

definition admit :: "client_names \<Rightarrow> Id \<Rightarrow> rust_string \<Rightarrow> client_names" where
  "admit names client name =
     (let kept = filter (\<lambda>(known, _). known \<noteq> client) names;
          kept = (if length kept = MAX_CLIENT_NAMES then remove_at 0 kept else kept)
      in kept @ [(client, name)])"

definition name_of :: "client_names \<Rightarrow> Id \<Rightarrow> rust_string" where
  "name_of names client =
     (case List.find (\<lambda>(known, _). known = client) names of
        None \<Rightarrow> client_name [] | Some (_, name) \<Rightarrow> name)"

definition controller_of :: "client_names \<Rightarrow> Id option \<Rightarrow> Id \<Rightarrow> controller" where
  "controller_of names controlling asking =
     (case controlling of
        None \<Rightarrow> Nobody
      | Some c \<Rightarrow> Client (name_of names c) (c = asking))"

subsection \<open>The shape of a Client Name\<close>

text \<open>Text the loop leaves as it is: printable characters, separated by single spaces.\<close>

fun spaced :: "bool \<Rightarrow> rust_string \<Rightarrow> bool" where
  "spaced gap [] \<longleftrightarrow> gap"
| "spaced gap (c # cs) \<longleftrightarrow>
     (if c = 32 then gap \<and> cs \<noteq> [] \<and> spaced False cs
      else \<not> is_whitespace c \<and> presentable c \<and> spaced True cs)"

abbreviation tidy :: "rust_string \<Rightarrow> bool" where
  "tidy s \<equiv> s = [] \<or> spaced False s"

lemma whitespace_space [simp]: "is_whitespace 32"
  by (simp add: is_whitespace_def)

lemma presentable_space [simp]: "presentable 32"
  by (simp add: presentable_def is_control_def invisible_def)

lemma spaced_single: "\<not> is_whitespace c \<Longrightarrow> presentable c \<Longrightarrow> spaced gap [c]"
  by auto

lemma spaced_weaken: "spaced False s \<Longrightarrow> spaced True s"
  by (cases s) auto

lemma spaced_snoc:
  "spaced gap s \<Longrightarrow> \<not> is_whitespace c \<Longrightarrow> presentable c \<Longrightarrow>
     spaced gap (s @ [c]) \<and> spaced gap (s @ [32, c])"
  by (induction gap s rule: spaced.induct) (auto split: if_splits)

lemma tidy_snoc:
  "tidy s \<Longrightarrow> \<not> is_whitespace c \<Longrightarrow> presentable c \<Longrightarrow> spaced False (s @ [c])"
  "tidy s \<Longrightarrow> s \<noteq> [] \<Longrightarrow> \<not> is_whitespace c \<Longrightarrow> presentable c \<Longrightarrow> spaced False (s @ [32, c])"
  using spaced_snoc [of False s c] spaced_single [of c False] by (auto simp del: spaced.simps)

lemma keep_chars_tidy:
  "tidy kept \<Longrightarrow> (space \<longrightarrow> kept \<noteq> []) \<Longrightarrow> tidy (keep_chars cs space kept)"
proof (induction cs space kept rule: keep_chars.induct)
  case (2 c cs space kept)
  then show ?case
    using tidy_snoc [of kept c] by (auto simp: presentable_def simp del: spaced.simps)
qed simp

lemma spaced_presentable: "spaced gap s \<Longrightarrow> c \<in> set s \<Longrightarrow> presentable c"
  by (induction gap s rule: spaced.induct)
    (auto split: if_splits)

text \<open>A run of a loop over tidy text appends that text.\<close>

lemma keep_chars_spaced:
  "spaced gap cs \<Longrightarrow> length kept + length cs \<le> MAX_CLIENT_NAME_CHARS \<Longrightarrow>
     (gap \<longrightarrow> kept \<noteq> []) \<Longrightarrow> keep_chars cs False kept = kept @ cs"
proof (induction gap cs arbitrary: kept rule: spaced.induct)
  case (1 gap)
  then show ?case by simp
next
  case (2 gap c cs)
  show ?case
  proof (cases "c = 32")
    case True
    with "2.prems" obtain d ds where cs: "cs = d # ds" and d: "d \<noteq> 32" "spaced False (d # ds)"
      by (cases cs) (auto split: if_splits)
    then have nd: "\<not> is_whitespace d" "\<not> is_control d" "\<not> invisible d" and tl: "spaced True ds"
      by (auto simp: presentable_def)
    have step: "keep_chars (c # cs) False kept = keep_chars ds False (kept @ [32, d])"
      using True cs nd "2.prems" by simp
    have "keep_chars cs False (kept @ [32]) = (kept @ [32]) @ cs"
      using True "2.prems" by (intro "2.IH"(1)) auto
    then have "keep_chars ds False (kept @ [32, d]) = kept @ 32 # cs"
      using cs nd "2.prems" by (simp split: if_splits)
    with step True show ?thesis by simp
  next
    case False
    with "2.prems" have nc: "\<not> is_whitespace c" "\<not> is_control c" "\<not> invisible c"
      and tl: "spaced True cs" by (auto simp: presentable_def)
    have "keep_chars cs False (kept @ [c]) = (kept @ [c]) @ cs"
      using False "2.prems" tl by (intro "2.IH"(2)) auto
    then show ?thesis using nc "2.prems" by simp
  qed
qed

text \<open>A prefix of tidy text is tidy up to spaces at its end.\<close>

fun opened :: "bool \<Rightarrow> rust_string \<Rightarrow> bool" where
  "opened gap [] \<longleftrightarrow> True"
| "opened gap (c # cs) \<longleftrightarrow>
     (if c = 32 then gap \<and> opened False cs
      else \<not> is_whitespace c \<and> presentable c \<and> opened True cs)"

lemma spaced_opened: "spaced gap s \<Longrightarrow> opened gap s"
  by (induction gap s rule: spaced.induct) (auto split: if_splits)

lemma opened_take: "opened gap s \<Longrightarrow> opened gap (take n s)"
  by (induction gap s arbitrary: n rule: opened.induct) (auto simp: take_Cons' split: if_splits)

lemma opened_spaced: "opened gap s \<Longrightarrow> s \<noteq> [] \<Longrightarrow> last s \<noteq> 32 \<Longrightarrow> spaced gap s"
  by (induction gap s rule: opened.induct) (auto split: if_splits)

lemma pop_spaces_take: "\<exists>n. pop_spaces s = take n s"
proof -
  have "dropWhile (\<lambda>c. c = 32) (rev s) = drop (length (takeWhile (\<lambda>c. c = 32) (rev s))) (rev s)"
    by (rule dropWhile_eq_drop)
  then show ?thesis by (auto simp: pop_spaces_def rev_drop)
qed

lemma last_pop_spaces: "pop_spaces s \<noteq> [] \<Longrightarrow> last (pop_spaces s) \<noteq> 32"
  using hd_dropWhile [of "\<lambda>c. c = 32" "rev s"] by (auto simp: pop_spaces_def last_rev)

lemma pop_spaces_tidy: "tidy s \<Longrightarrow> tidy (pop_spaces (take n s))"
proof -
  assume "tidy s"
  then have "opened False s" using spaced_opened by auto
  then have "opened False (pop_spaces (take n s))"
    using pop_spaces_take [of "take n s"] by (metis opened_take)
  then show ?thesis using opened_spaced last_pop_spaces by blast
qed

lemma client_name_tidy:
  "client_name s \<noteq> [] \<and> spaced False (client_name s) \<and> length (client_name s) \<le> MAX_CLIENT_NAME_CHARS"
proof -
  define kept where "kept = keep_chars s False []"
  have tidy: "tidy kept" unfolding kept_def by (rule keep_chars_tidy) auto
  have fallback: "spaced False FALLBACK" "length FALLBACK \<le> MAX_CLIENT_NAME_CHARS" "FALLBACK \<noteq> []"
    by (simp_all add: FALLBACK_def lit_def MAX_CLIENT_NAME_CHARS_def is_whitespace_def
        presentable_def is_control_def invisible_def)
  show ?thesis
  proof (cases "length kept > MAX_CLIENT_NAME_CHARS")
    case True
    define cut where "cut = pop_spaces (take (MAX_CLIENT_NAME_CHARS - 1) kept)"
    have "tidy cut" unfolding cut_def by (rule pop_spaces_tidy) (rule tidy)
    then have "spaced False (cut @ [0x2026])"
      by (rule tidy_snoc) (simp_all add: is_whitespace_def presentable_def is_control_def invisible_def)
    moreover have "length cut \<le> MAX_CLIENT_NAME_CHARS - 1"
      using pop_spaces_take [of "take (MAX_CLIENT_NAME_CHARS - 1) kept"] by (auto simp: cut_def)
    moreover have "client_name s = cut @ [0x2026]"
      using True by (simp add: client_name_def kept_def cut_def Let_def)
    ultimately show ?thesis by (simp add: MAX_CLIENT_NAME_CHARS_def)
  next
    case False
    then show ?thesis using tidy fallback
      by (auto simp: client_name_def kept_def Let_def simp del: spaced.simps)
  qed
qed

end
