(* ===== verification/Repository_Facts.thy ===== *)
theory Repository_Facts
  imports Rust_Text
begin

text \<open>
  Git facts of the owning server (\<open>repository.rs\<close>) and the Worktree operations and their bounds
  (\<open>worktree.rs\<close>). An operation is polymorphic in its path type: Rust compares two operations with
  paths compared component by component, which is equality after \<open>components\<close> replaces each path.
\<close>

section \<open>Repository facts\<close>

datatype repository_head = HeadBranch rust_string | HeadDetached rust_string | Unborn rust_string

record divergence =
  ahead :: nat
  behind :: nat

record upstream =
  up_name :: rust_string
  up_divergence :: "divergence option"

record operation_step =
  step_current :: nat
  step_total :: nat

datatype repository_operation =
  Rebasing "operation_step option"
| Applying "operation_step option"
| Merging | Reverting | CherryPicking | Bisecting

datatype change_kind = Staged | Modified | Deleted | Renamed | Conflicted | Untracked

record change_entry =
  ce_kind :: change_kind
  ce_path :: rust_string

datatype change_total = Exact nat | AtLeast nat

record change_summary =
  cs_total :: change_total
  cs_staged :: nat
  cs_modified :: nat
  cs_deleted :: nat
  cs_renamed :: nat
  cs_conflicted :: nat
  cs_untracked :: nat
  cs_entries :: "change_entry list"

datatype repository_read_error =
  ToolMissing | ReadUnavailable | TimedOut | Cancelled | OutputTooLarge | InvalidResponse

record github_repository =
  gh_host :: rust_string
  gh_owner :: rust_string
  gh_name :: rust_string

record tool_version =
  tv_major :: nat
  tv_minor :: nat
  tv_patch :: nat

datatype git_tool_status = GitUnknown | GitReady tool_version | GitTooOld tool_version | GitNotFound

datatype worktree_head = WtBranch rust_string | WtDetached rust_string | Bare

record worktree_record =
  wr_root :: path
  wr_head :: worktree_head
  wr_locked :: bool
  wr_missing :: bool

record pull_request_query =
  pr_repository :: github_repository
  pr_head_branch :: rust_string
  pr_head_owner :: "rust_string option"

datatype change_counting = CountPending | Counting

record repository =
  repo_root :: path
  repo_head :: repository_head
  repo_commit :: "rust_string option"
  repo_upstream :: "upstream option"
  repo_operation :: "repository_operation option"
  repo_changes :: "repository_read_error + change_summary"
  repo_counting :: "change_counting option"
  repo_pull_request :: "pull_request_query option"

record worktree_inventory =
  wi_main_root :: path
  wi_current :: "nat option"
  wi_worktrees :: "worktree_record list"

record directory_facts =
  df_directory :: path
  df_repository :: "repository option"
  df_worktrees :: "worktree_inventory option"
  df_failure :: "repository_read_error option"

datatype pin_check_state = PinReady | PinChecking | PinUnavailable

record repositories =
  rs_boot :: Id
  rs_revision :: u64
  rs_git :: git_tool_status
  rs_directories :: "directory_facts list"
  rs_pinned_worktrees :: "path list"
  rs_pin_check :: pin_check_state

section \<open>Worktree operations\<close>

datatype branch_name = LocalBranch rust_string | RemoteBranch rust_string

definition full_name :: "branch_name \<Rightarrow> rust_string" where
  "full_name b = (case b of
     LocalBranch n \<Rightarrow> lit ''refs/heads/'' @ n | RemoteBranch n \<Rightarrow> lit ''refs/remotes/'' @ n)"

datatype branch =
  NewBranch rust_string branch_name
| ExistingBranch rust_string
| RemoteCheckout rust_string rust_string \<comment> \<open>remote, name\<close>

definition branch_text_valid :: "rust_string \<Rightarrow> bool" where
  "branch_text_valid s \<longleftrightarrow> s \<noteq> [] \<and> str_len s \<le> 1024 \<and> \<not> list_ex is_control s"

definition branch_is_bounded :: "branch \<Rightarrow> bool" where
  "branch_is_bounded b = (case b of
     NewBranch name base \<Rightarrow> branch_text_valid name \<and>
       (case base of LocalBranch s \<Rightarrow> branch_text_valid s | RemoteBranch s \<Rightarrow> branch_text_valid s)
   | ExistingBranch name \<Rightarrow> branch_text_valid name
   | RemoteCheckout remote name \<Rightarrow> branch_text_valid name \<and> branch_text_valid remote)"

text \<open>Who controls work a mutation creates (\<open>hierarchy::CreateControl\<close>).\<close>

datatype create_control = Creator | Unclaimed | OriginController Id

datatype 'p operation =
  Create Id 'p 'p branch create_control  \<comment> \<open>workspace, root, path, branch, control\<close>
| Remove 'p 'p Id Id                     \<comment> \<open>root, path, boot, confirmation\<close>
| SetLocation u64 rust_string            \<comment> \<open>version, template\<close>
| OpenTab Id "Id option" 'p 'p create_control \<comment> \<open>workspace, source, root, path, control\<close>

fun operation_is_bounded :: "path operation \<Rightarrow> bool" where
  "operation_is_bounded (SetLocation _ template) \<longleftrightarrow> str_len template \<le> 1024"
| "operation_is_bounded (Create _ root p branch _) \<longleftrightarrow>
     valid_path root \<and> valid_path p \<and> branch_is_bounded branch"
| "operation_is_bounded (Remove root p _ _) \<longleftrightarrow> valid_path root \<and> valid_path p"
| "operation_is_bounded (OpenTab _ _ root p _) \<longleftrightarrow> valid_path root \<and> valid_path p"

datatype template_error =
  TemplateEmpty | TooLong | NotAbsolute | ParentSegment | UnclosedBrace | UnknownPlaceholder
| MissingBranch | InvalidCharacter | NotWritable

datatype worktree_error =
  WorktreeMissing | WorktreeMain | Locked | Pinned | Changed | Location | Branch | InvalidName
| BranchExists | BranchCheckedOut | BranchMissing | WorktreeUnavailable | Interrupted
| Template template_error

record worktree_settings =
  ws_template :: rust_string
  ws_version :: u64

definition default_settings :: worktree_settings where
  "default_settings = \<lparr>ws_template = lit ''~/.worktrees/{repository}/{branch}'', ws_version = 0\<rparr>"

end
