(* ===== verification/Hierarchy.thy ===== *)
theory Hierarchy
  imports Pane_Metadata Repository_Facts
begin

text \<open>
  The shared hierarchy of a server (\<open>hierarchy.rs\<close>): Workspaces own Tabs, Tabs own Panes. This
  theory holds the data, the queries over an inventory, the facts a close is confirmed against, and
  the mutations with their bounds. Each record's fields carry the source's names behind a prefix for
  the record.
\<close>

section \<open>Data\<close>

definition MAX_WORKSPACES :: nat where "MAX_WORKSPACES = 64"
definition MAX_TABS :: nat where "MAX_TABS = 128"
definition MAX_PANES :: nat where "MAX_PANES = 128"
definition MAX_OUTCOMES :: nat where "MAX_OUTCOMES = 32"
definition MAX_DEVICES :: nat where "MAX_DEVICES = 64"
definition MAX_OBSERVER_NAMES :: nat where "MAX_OBSERVER_NAMES = 3"

datatype close_target =
  ClosePane Id Id Id       \<comment> \<open>workspace, tab, pane\<close>
| CloseTab Id Id           \<comment> \<open>workspace, tab\<close>
| KillWorkspace Id
| CloseWorktree Id Id      \<comment> \<open>workspace, tab\<close>

record confirmed_pane =
  cp_id :: Id
  cp_session :: "Id option"

record confirmed_control =
  cc_pane :: Id
  cc_session :: "Id option"
  cc_owner :: Id
  cc_epoch :: u64

record close_inventory =
  ci_boot :: Id
  ci_sessions :: "confirmed_pane list"
  ci_controls :: "confirmed_control list"

record close_confirmation =
  cf_boot :: Id
  cf_panes :: "confirmed_pane list"
  cf_removes_tab :: bool
  cf_removes_workspace :: bool
  cf_own_controls :: "confirmed_control list option"

definition same_targets :: "close_confirmation \<Rightarrow> close_confirmation \<Rightarrow> bool" where
  "same_targets a b \<longleftrightarrow> cf_boot a = cf_boot b \<and> cf_panes a = cf_panes b \<and>
     cf_removes_tab a = cf_removes_tab b \<and> cf_removes_workspace a = cf_removes_workspace b"

datatype axis = AxisRight | AxisDown
datatype side = SideRight | SideDown | SideLeft | SideUp

definition side_axis :: "side \<Rightarrow> axis" where
  "side_axis s = (case s of SideRight \<Rightarrow> AxisRight | SideLeft \<Rightarrow> AxisRight | _ \<Rightarrow> AxisDown)"

definition side_leads :: "side \<Rightarrow> bool" where
  "side_leads s \<longleftrightarrow> s = SideLeft \<or> s = SideUp"

definition side_of_axis :: "axis \<Rightarrow> side" where
  "side_of_axis a = (case a of AxisRight \<Rightarrow> SideRight | AxisDown \<Rightarrow> SideDown)"

record pane_observers =
  po_names :: "rust_string list"
  po_others :: nat

definition no_observers :: pane_observers where
  "no_observers = \<lparr>po_names = [], po_others = 0\<rparr>"

record pane =
  p_id :: Id
  p_source :: "Id option"
  p_side :: side
  p_starting_directory :: path
  p_current_directory :: "path option"
  p_repository_directory :: "path option"
  p_presentation :: "snapshot option"
  p_observers :: pane_observers
  p_confirmed_directory :: "path option"
  p_creator :: "Id option"

text \<open>A \<open>Pane\<close> literal as every creation writes it: no live facts yet.\<close>

definition new_pane :: "Id \<Rightarrow> Id option \<Rightarrow> side \<Rightarrow> path \<Rightarrow> Id option \<Rightarrow> pane" where
  "new_pane pid source side start creator =
     \<lparr>p_id = pid, p_source = source, p_side = side, p_starting_directory = start,
      p_current_directory = None, p_repository_directory = None, p_presentation = None,
      p_observers = no_observers, p_confirmed_directory = None, p_creator = creator\<rparr>"

definition repository_directory :: "pane \<Rightarrow> path" where
  "repository_directory p = (case p_repository_directory p of Some d \<Rightarrow> d
     | None \<Rightarrow> (case p_confirmed_directory p of Some d \<Rightarrow> d | None \<Rightarrow> p_starting_directory p))"

definition presented_directory :: "pane \<Rightarrow> path" where
  "presented_directory p = (case p_current_directory p of Some d \<Rightarrow> d
     | None \<Rightarrow> (case p_confirmed_directory p of Some d \<Rightarrow> d | None \<Rightarrow> p_starting_directory p))"

text \<open>\<open>p.confirmed_directory.as_ref().unwrap_or(&p.starting_directory)\<close>\<close>

definition restored_directory :: "pane \<Rightarrow> path" where
  "restored_directory p =
     (case p_confirmed_directory p of Some d \<Rightarrow> d | None \<Rightarrow> p_starting_directory p)"

datatype worktree_membership = Following | Opened | Repaired

record tab =
  t_membership :: worktree_membership
  t_worktree :: "path option"
  t_worktree_repository :: "path option"
  t_id :: Id
  t_root_pane :: Id
  t_panes :: "pane list"

record workspace =
  w_id :: Id
  w_name :: rust_string
  w_name_version :: u64
  w_pin_version :: u64
  w_pinned_directory :: "path option"
  w_root_tab :: Id
  w_tabs :: "tab list"

record inventory =
  inv_repositories :: "repositories option"
  inv_revision :: u64
  inv_workspaces :: "workspace list"
  inv_close :: "close_inventory option"

record placement =
  pl_workspace :: Id
  pl_tab :: Id
  pl_pane :: Id

section \<open>Queries\<close>

definition holds_pane :: "tab \<Rightarrow> Id \<Rightarrow> bool" where
  "holds_pane t pid \<longleftrightarrow> list_ex (\<lambda>p. p_id p = pid) (t_panes t)"

definition find_workspace :: "inventory \<Rightarrow> Id \<Rightarrow> workspace option" where
  "find_workspace iv w = List.find (\<lambda>x. w_id x = w) (inv_workspaces iv)"

definition find_tab :: "workspace \<Rightarrow> Id \<Rightarrow> tab option" where
  "find_tab w t = List.find (\<lambda>x. t_id x = t) (w_tabs w)"

definition find_pane :: "tab \<Rightarrow> Id \<Rightarrow> pane option" where
  "find_pane t p = List.find (\<lambda>x. p_id x = p) (t_panes t)"

definition placement_in :: "workspace \<Rightarrow> Id \<Rightarrow> placement option" where
  "placement_in w pid =
     (let at = (\<lambda>t pane. \<lparr>pl_workspace = w_id w, pl_tab = t_id t, pl_pane = pane\<rparr>) in
      if w_id w = pid then map_option (\<lambda>t. at t (t_root_pane t)) (find_tab w (w_root_tab w))
      else find_map (\<lambda>t. if t_id t = pid then Some (at t (t_root_pane t))
                         else if holds_pane t pid then Some (at t pid) else None) (w_tabs w))"

definition placement_of :: "inventory \<Rightarrow> Id \<Rightarrow> placement option" where
  "placement_of iv pid = find_map (\<lambda>w. placement_in w pid) (inv_workspaces iv)"

definition target_workspace :: "close_target \<Rightarrow> Id" where
  "target_workspace target = (case target of
     ClosePane w _ _ \<Rightarrow> w | CloseTab w _ \<Rightarrow> w | KillWorkspace w \<Rightarrow> w | CloseWorktree w _ \<Rightarrow> w)"

text \<open>The Tabs of one Worktree membership.\<close>

definition same_worktree :: "tab \<Rightarrow> tab \<Rightarrow> bool" where
  "same_worktree anchor t \<longleftrightarrow> opt_path_eq (t_worktree t) (t_worktree anchor) \<and>
     opt_path_eq (t_worktree_repository t) (t_worktree_repository anchor)"

definition tab_pane_ids :: "tab \<Rightarrow> Id list" where
  "tab_pane_ids t = map p_id (t_panes t)"

definition close_panes :: "inventory \<Rightarrow> close_target \<Rightarrow> Id list option" where
  "close_panes iv target =
     (case find_workspace iv (target_workspace target) of
        None \<Rightarrow> None
      | Some w \<Rightarrow>
          (case target of
             CloseWorktree _ tab \<Rightarrow>
               (case find_tab w tab of
                  None \<Rightarrow> None
                | Some anchor \<Rightarrow>
                    (case t_worktree anchor of
                       None \<Rightarrow> None
                     | Some _ \<Rightarrow>
                         Some (concat (map tab_pane_ids (filter (same_worktree anchor) (w_tabs w))))))
           | KillWorkspace _ \<Rightarrow> Some (concat (map tab_pane_ids (w_tabs w)))
           | CloseTab _ tab \<Rightarrow> map_option tab_pane_ids (find_tab w tab)
           | ClosePane _ tab pane \<Rightarrow>
               (case find_tab w tab of
                  None \<Rightarrow> None
                | Some t \<Rightarrow> if holds_pane t pane then Some [pane] else None)))"

definition workspace_pane_count :: "workspace \<Rightarrow> nat" where
  "workspace_pane_count w = sum_list (map (\<lambda>t. length (t_panes t)) (w_tabs w))"

definition close_confirmation_of :: "inventory \<Rightarrow> close_target \<Rightarrow> close_confirmation option" where
  "close_confirmation_of iv target =
     (case inv_close iv of
        None \<Rightarrow> None
      | Some live \<Rightarrow>
     (case close_panes iv target of
        None \<Rightarrow> None
      | Some ids \<Rightarrow>
     (case find_workspace iv (target_workspace target) of
        None \<Rightarrow> None
      | Some w \<Rightarrow>
     (case (case target of
              ClosePane _ tab _ \<Rightarrow> map_option (\<lambda>t. length (t_panes t) = 1) (find_tab w tab)
            | _ \<Rightarrow> Some True) of
        None \<Rightarrow> None
      | Some removes_tab \<Rightarrow>
     (case collect_options
             (map (\<lambda>pid. List.find (\<lambda>p. cp_id p = pid) (ci_sessions live)) ids) of
        None \<Rightarrow> None
      | Some panes \<Rightarrow>
          Some \<lparr>cf_boot = ci_boot live, cf_panes = panes, cf_removes_tab = removes_tab,
                cf_removes_workspace = (length ids = workspace_pane_count w),
                cf_own_controls = None\<rparr>)))))"

section \<open>Mutations\<close>

datatype pane_destination = NewTab | Beside Id Id side \<comment> \<open>tab, pane, side\<close>

definition creator :: "create_control \<Rightarrow> Id \<Rightarrow> inventory \<Rightarrow> Id option" where
  "creator control device iv =
     (case control of
        Creator \<Rightarrow> Some device
      | Unclaimed \<Rightarrow> None
      | OriginController pane \<Rightarrow>
          (case inv_close iv of
             None \<Rightarrow> None
           | Some live \<Rightarrow>
               map_option cc_owner (List.find (\<lambda>c. cc_pane c = pane) (ci_controls live))))"

datatype 'p mutation =
  EndAllSessions close_inventory
| Worktree "'p operation"
| Close close_target close_confirmation
| CreateWorkspace rust_string "'p option" create_control  \<comment> \<open>name, directory, control\<close>
| CreateTab Id "Id option" create_control                 \<comment> \<open>workspace, source, control\<close>
| SplitPane Id Id Id axis create_control                  \<comment> \<open>workspace, tab, source, axis, control\<close>
| MovePane Id Id Id pane_destination                      \<comment> \<open>workspace, tab, pane, destination\<close>
| MergeTab Id Id Id Id side                               \<comment> \<open>workspace, tab, into, beside, side\<close>
| RenameWorkspace Id u64 rust_string                      \<comment> \<open>workspace, version, name\<close>
| PinWorkspace Id u64 "'p option"                         \<comment> \<open>workspace, version, directory\<close>

type_synonym path_mutation = "path mutation"

text \<open>The derived \<open>PartialEq\<close>: paths compare by their components.\<close>

definition mutation_eq :: "path_mutation \<Rightarrow> path_mutation \<Rightarrow> bool" where
  "mutation_eq a b \<longleftrightarrow> map_mutation components a = map_mutation components b"

lemma mutation_eq_refl [simp]: "mutation_eq m m"
  by (simp add: mutation_eq_def)

lemma mutation_eq_sym: "mutation_eq a b \<Longrightarrow> mutation_eq b a"
  by (simp add: mutation_eq_def)

fun create_control_of :: "'p mutation \<Rightarrow> create_control option" where
  "create_control_of (CreateWorkspace _ _ control) = Some control"
| "create_control_of (CreateTab _ _ control) = Some control"
| "create_control_of (SplitPane _ _ _ _ control) = Some control"
| "create_control_of (Worktree (OpenTab _ _ _ _ control)) = Some control"
| "create_control_of (Worktree (Create _ _ _ _ control)) = Some control"
| "create_control_of _ = None"

fun is_bounded :: "path_mutation \<Rightarrow> bool" where
  "is_bounded (EndAllSessions c) \<longleftrightarrow>
     length (ci_sessions c) \<le> MAX_PANES \<and> length (ci_controls c) \<le> MAX_PANES"
| "is_bounded (Worktree op) \<longleftrightarrow> operation_is_bounded op"
| "is_bounded (Close _ c) \<longleftrightarrow> cf_panes c \<noteq> [] \<and> length (cf_panes c) \<le> MAX_PANES \<and>
     (case cf_own_controls c of None \<Rightarrow> True | Some cs \<Rightarrow> length cs \<le> MAX_PANES)"
| "is_bounded (CreateWorkspace name directory _) \<longleftrightarrow> str_len name \<le> 256 \<and>
     (case directory of None \<Rightarrow> True | Some p \<Rightarrow> valid_path p)"
| "is_bounded (RenameWorkspace _ _ name) \<longleftrightarrow> str_len name \<le> 256"
| "is_bounded (PinWorkspace _ _ (Some p)) \<longleftrightarrow> valid_path p"
| "is_bounded _ \<longleftrightarrow> True"

datatype outcome =
  Pending | WorktreeFailed worktree_error | Accepted Id | Conflict | Missing | Invalid | Limit
| StaleConfirmation

definition needs_presentation :: "outcome \<Rightarrow> bool" where
  "needs_presentation out \<longleftrightarrow> (case out of Pending \<Rightarrow> False | Accepted _ \<Rightarrow> False | _ \<Rightarrow> True)"

record retained_outcome =
  ro_sequence :: u64
  ro_mutation :: path_mutation
  ro_outcome :: outcome

text \<open>\<open>pane::Refusal\<close>.\<close>

datatype refusal =
  Controlled | RefusedMissing | RefusedStale | Unsupported | Failed | CleanupUnresolved
| DirectoryUnavailable | StorageUnavailable | Capacity | ServiceBusy

record device_outcomes =
  d_device :: Id
  d_retired :: u64
  d_pending :: "retained_outcome list"

record workspace_name =
  n_workspace :: Id
  n_custom :: "rust_string option"
  n_automatic_base :: rust_string

record state =
  st_home_directory :: "path option"
  st_names :: "workspace_name list"
  st_worktree_settings :: worktree_settings
  st_inventory :: inventory
  st_devices :: "device_outcomes list"
  st_sequence_floor :: u64
  st_creator_boot :: "Id option"
  st_session_ends :: "close_inventory option"

abbreviation workspaces :: "state \<Rightarrow> workspace list" where
  "workspaces s \<equiv> inv_workspaces (st_inventory s)"

text \<open>The state with its Workspaces replaced, and with its revision replaced.\<close>

definition set_workspaces :: "workspace list \<Rightarrow> state \<Rightarrow> state" where
  "set_workspaces ws s = s\<lparr>st_inventory := (st_inventory s)\<lparr>inv_workspaces := ws\<rparr>\<rparr>"

definition set_revision :: "u64 \<Rightarrow> state \<Rightarrow> state" where
  "set_revision r s = s\<lparr>st_inventory := (st_inventory s)\<lparr>inv_revision := r\<rparr>\<rparr>"

lemma set_workspaces_simps [simp]:
  "workspaces (set_workspaces ws s) = ws"
  "inv_revision (st_inventory (set_workspaces ws s)) = inv_revision (st_inventory s)"
  "inv_close (st_inventory (set_workspaces ws s)) = inv_close (st_inventory s)"
  "inv_repositories (st_inventory (set_workspaces ws s)) = inv_repositories (st_inventory s)"
  "st_home_directory (set_workspaces ws s) = st_home_directory s"
  "st_names (set_workspaces ws s) = st_names s"
  "st_worktree_settings (set_workspaces ws s) = st_worktree_settings s"
  "st_devices (set_workspaces ws s) = st_devices s"
  "st_sequence_floor (set_workspaces ws s) = st_sequence_floor s"
  "st_creator_boot (set_workspaces ws s) = st_creator_boot s"
  "st_session_ends (set_workspaces ws s) = st_session_ends s"
  by (simp_all add: set_workspaces_def)

lemma set_revision_simps [simp]:
  "workspaces (set_revision r s) = workspaces s"
  "inv_revision (st_inventory (set_revision r s)) = r"
  "inv_close (st_inventory (set_revision r s)) = inv_close (st_inventory s)"
  "inv_repositories (st_inventory (set_revision r s)) = inv_repositories (st_inventory s)"
  "st_home_directory (set_revision r s) = st_home_directory s"
  "st_names (set_revision r s) = st_names s"
  "st_worktree_settings (set_revision r s) = st_worktree_settings s"
  "st_devices (set_revision r s) = st_devices s"
  "st_sequence_floor (set_revision r s) = st_sequence_floor s"
  "st_creator_boot (set_revision r s) = st_creator_boot s"
  "st_session_ends (set_revision r s) = st_session_ends s"
  by (simp_all add: set_revision_def)

section \<open>Initial states and live facts\<close>

definition empty_state :: state where
  "empty_state = \<lparr>st_home_directory = None, st_names = [], st_worktree_settings = default_settings,
     st_inventory = \<lparr>inv_repositories = None, inv_revision = 0, inv_workspaces = [], inv_close = None\<rparr>,
     st_devices = [], st_sequence_floor = 0, st_creator_boot = None, st_session_ends = None\<rparr>"

definition map_panes :: "(pane \<Rightarrow> pane) \<Rightarrow> workspace list \<Rightarrow> workspace list" where
  "map_panes f = map (\<lambda>w. w\<lparr>w_tabs := map (\<lambda>t. t\<lparr>t_panes := map f (t_panes t)\<rparr>) (w_tabs w)\<rparr>)"

text \<open>\<open>State::begin_boot\<close>: a different boot ends creator reservations and live facts.\<close>

definition begin_boot :: "Id \<Rightarrow> state \<Rightarrow> state" where
  "begin_boot boot s =
     (if st_creator_boot s \<noteq> Some boot
      then (set_workspaces
              (map_panes (\<lambda>p. p\<lparr>p_creator := None, p_current_directory := None,
                 p_repository_directory := None, p_presentation := None,
                 p_observers := no_observers\<rparr>) (workspaces s))
              s)\<lparr>st_session_ends := None, st_creator_boot := Some boot\<rparr>
      else s)"

text \<open>\<open>State::first\<close> with the three identities \<open>protocol::random\<close> returned. Its \<open>validate\<close> accepts
  the result when they are three different identities (\<open>first_state_sound\<close>).\<close>

definition first_workspace :: "Id \<Rightarrow> Id \<Rightarrow> Id \<Rightarrow> path \<Rightarrow> workspace" where
  "first_workspace wid tid pid directory =
     \<lparr>w_id = wid, w_name = lit ''Default'', w_name_version = 0, w_pin_version = 0,
      w_pinned_directory = None, w_root_tab = tid,
      w_tabs = [\<lparr>t_membership = Following, t_worktree = None, t_worktree_repository = None,
                 t_id = tid, t_root_pane = pid,
                 t_panes = [new_pane pid None SideRight directory None]\<rparr>]\<rparr>"

definition first_state :: "Id \<Rightarrow> Id \<Rightarrow> Id \<Rightarrow> path \<Rightarrow> state" where
  "first_state wid tid pid directory =
     \<lparr>st_home_directory = Some directory,
      st_names = [\<lparr>n_workspace = wid, n_custom = None, n_automatic_base = lit ''Default''\<rparr>],
      st_worktree_settings = default_settings,
      st_inventory = \<lparr>inv_repositories = None, inv_revision = 0,
        inv_workspaces = [first_workspace wid tid pid directory], inv_close = None\<rparr>,
      st_devices = [], st_sequence_floor = 0, st_creator_boot = None, st_session_ends = None\<rparr>"

text \<open>\<open>State::envelope\<close>: the state without its live facts, as the server retains it.\<close>

definition envelope :: "state \<Rightarrow> state" where
  "envelope s =
     (let s' = set_workspaces (map_panes (\<lambda>p. p\<lparr>p_current_directory := None,
                 p_repository_directory := None, p_presentation := None,
                 p_observers := no_observers\<rparr>) (workspaces s)) s
      in s'\<lparr>st_inventory := (st_inventory s')\<lparr>inv_repositories := None, inv_close := None\<rparr>\<rparr>)"

lemmas hierarchy_run [run_simps] = MAX_WORKSPACES_def MAX_TABS_def MAX_PANES_def MAX_OUTCOMES_def
  MAX_DEVICES_def MAX_OBSERVER_NAMES_def new_pane_def no_observers_def repository_directory_def
  presented_directory_def restored_directory_def holds_pane_def find_workspace_def find_tab_def
  find_pane_def placement_in_def placement_of_def target_workspace_def same_worktree_def tab_pane_ids_def
  close_panes_def workspace_pane_count_def close_confirmation_of_def creator_def side_of_axis_def
  first_workspace_def first_state_def set_workspaces_def set_revision_def empty_state_def
  default_settings_def map_panes_def begin_boot_def envelope_def same_targets_def

end
