(* ===== verification/Membership.thy ===== *)
theory Membership
  imports Hierarchy
begin

text \<open>
  The edits one Workspace makes to its own Tabs and Panes (\<open>impl Workspace\<close> in \<open>hierarchy.rs\<close>) and
  the removal of a Pane from a Workspace. A method returns its result and the Workspace it leaves
  behind, on its refusals too. The locale \<open>workspace_edit\<close> states what every such edit promises the
  operations of the whole state, and each edit interprets it.
\<close>

section \<open>Operations\<close>

definition clear_source :: "Id \<Rightarrow> pane \<Rightarrow> pane" where
  "clear_source pid p = (if p_source p = Some pid then p\<lparr>p_source := None\<rparr> else p)"

definition take_pane :: "Id \<Rightarrow> Id \<Rightarrow> workspace \<Rightarrow> (outcome + pane) \<times> workspace" where
  "take_pane tab pid w =
     (case find_tab w tab of
        None \<Rightarrow> (Inl Missing, w)
      | Some source \<Rightarrow>
     (case position (\<lambda>p. p_id p = pid) (t_panes source) of
        None \<Rightarrow> (Inl Missing, w)
      | Some index \<Rightarrow>
          if length (t_panes source) = 1 then (Inl Invalid, w)
          else
            let moved = (t_panes source ! index)\<lparr>p_source := None, p_side := SideRight\<rparr>;
                panes = map (clear_source pid) (remove_at index (t_panes source));
                root = (if t_root_pane source = pid then p_id (panes ! 0) else t_root_pane source)
            in (Inr moved,
                w\<lparr>w_tabs := update_first (\<lambda>t. t_id t = tab)
                   (\<lambda>t. t\<lparr>t_panes := panes, t_root_pane := root\<rparr>) (w_tabs w)\<rparr>)))"

definition move_pane_to_new_tab ::
  "Id \<Rightarrow> Id \<Rightarrow> Id \<Rightarrow> workspace \<Rightarrow> (outcome + unit) \<times> workspace" where
  "move_pane_to_new_tab tab pid new w =
     (case find_tab w tab of
        None \<Rightarrow> (Inl Missing, w)
      | Some source \<Rightarrow>
     (case take_pane tab pid w of
        (Inl e, w') \<Rightarrow> (Inl e, w')
      | (Inr moved, w') \<Rightarrow>
          (Inr (), w'\<lparr>w_tabs := w_tabs w' @
             [\<lparr>t_membership = Following, t_worktree = t_worktree source,
               t_worktree_repository = t_worktree_repository source, t_id = new,
               t_root_pane = pid, t_panes = [moved]\<rparr>]\<rparr>)))"

definition destination :: "Id \<Rightarrow> Id \<Rightarrow> Id \<Rightarrow> workspace \<Rightarrow> outcome + nat" where
  "destination tab into beside w =
     (if tab = into then Inl Invalid
      else case position (\<lambda>t. t_id t = into \<and> holds_pane t beside) (w_tabs w) of
             None \<Rightarrow> Inl Missing | Some i \<Rightarrow> Inr i)"

definition move_pane_beside ::
  "Id \<Rightarrow> Id \<Rightarrow> Id \<Rightarrow> Id \<Rightarrow> side \<Rightarrow> workspace \<Rightarrow> (outcome + unit) \<times> workspace" where
  "move_pane_beside tab pid into beside side w =
     (case destination tab into beside w of
        Inl e \<Rightarrow> (Inl e, w)
      | Inr target \<Rightarrow>
     (case take_pane tab pid w of
        (Inl e, w') \<Rightarrow> (Inl e, w')
      | (Inr moved, w') \<Rightarrow>
          let moved = moved\<lparr>p_source := Some beside, p_side := side\<rparr>;
              t = w_tabs w' ! target
          in (Inr (), w'\<lparr>w_tabs := (w_tabs w')[target := t\<lparr>t_panes := t_panes t @ [moved]\<rparr>]\<rparr>)))"

definition promote_root_tab :: "workspace \<Rightarrow> workspace" where
  "promote_root_tab w =
     (case w_tabs w of
        [] \<Rightarrow> w
      | t # ts \<Rightarrow>
          if t_id t \<noteq> w_root_tab w
          then w\<lparr>w_tabs :=
                   (if t_membership t = Opened then t\<lparr>t_membership := Following\<rparr> else t) # ts,
                 w_root_tab := t_id t\<rparr>
          else w)"

text \<open>The loop body of \<open>merge_tab\<close>: how one of the merged Panes is placed.\<close>

definition merged_pane :: "Id \<Rightarrow> Id \<Rightarrow> side \<Rightarrow> pane \<Rightarrow> pane" where
  "merged_pane root beside side p =
     (if p_id p = root then p\<lparr>p_source := Some beside, p_side := side\<rparr>
      else case p_source p of None \<Rightarrow> p\<lparr>p_source := Some root\<rparr> | Some _ \<Rightarrow> p)"

definition merge_tab ::
  "Id \<Rightarrow> Id \<Rightarrow> Id \<Rightarrow> side \<Rightarrow> workspace \<Rightarrow> (outcome + unit) \<times> workspace" where
  "merge_tab tab into beside side w =
     (case destination tab into beside w of
        Inl e \<Rightarrow> (Inl e, w)
      | Inr _ \<Rightarrow>
     (case position (\<lambda>t. t_id t = tab) (w_tabs w) of
        None \<Rightarrow> (Inl Missing, w)
      | Some index \<Rightarrow>
          let merged = w_tabs w ! index;
              w1 = w\<lparr>w_tabs := remove_at index (w_tabs w)\<rparr>
          in (case find_tab w1 into of
                None \<Rightarrow> (Inl Missing, w1)
              | Some _ \<Rightarrow>
                  (Inr (), promote_root_tab (w1\<lparr>w_tabs := update_first (\<lambda>t. t_id t = into)
                     (\<lambda>t. t\<lparr>t_panes := t_panes t @
                        map (merged_pane (t_root_pane merged) beside side) (t_panes merged)\<rparr>)
                     (w_tabs w1)\<rparr>)))))"

text \<open>The body of \<open>State::remove_pane\<close> for one Tab and for one Workspace.\<close>

definition clear_missing_sources :: "pane list \<Rightarrow> pane list" where
  "clear_missing_sources ps =
     map (\<lambda>p. case p_source p of
                None \<Rightarrow> p
              | Some s \<Rightarrow> if s \<in> set (map p_id ps) then p else p\<lparr>p_source := None\<rparr>) ps"

definition tab_without_pane :: "Id \<Rightarrow> tab \<Rightarrow> tab" where
  "tab_without_pane pid t =
     (let ps = filter (\<lambda>p. p_id p \<noteq> pid) (t_panes t)
      in t\<lparr>t_root_pane := (case ps of p # _ \<Rightarrow> p_id p | [] \<Rightarrow> t_root_pane t),
           t_panes := clear_missing_sources ps\<rparr>)"

definition workspace_without_pane :: "Id \<Rightarrow> workspace \<Rightarrow> workspace" where
  "workspace_without_pane pid w =
     promote_root_tab
       (w\<lparr>w_tabs := filter (\<lambda>t. t_panes t \<noteq> []) (map (tab_without_pane pid) (w_tabs w))\<rparr>)"

section \<open>Well-formed Tabs and Workspaces\<close>

definition tab_ids :: "tab \<Rightarrow> Id list" where
  "tab_ids t = t_id t # map p_id (t_panes t)"

definition workspace_ids :: "workspace \<Rightarrow> Id list" where
  "workspace_ids w = w_id w # concat (map tab_ids (w_tabs w))"

definition workspace_panes :: "workspace \<Rightarrow> pane list" where
  "workspace_panes w = concat (map t_panes (w_tabs w))"

text \<open>A Pane without its place in the default layout: its identity, directories, presentation and
  control.\<close>

definition pane_core :: "pane \<Rightarrow> pane" where
  "pane_core p = p\<lparr>p_source := None, p_side := SideRight\<rparr>"

text \<open>Every Pane is placed beside a Pane that precedes it.\<close>

fun sources_precede :: "Id list \<Rightarrow> pane list \<Rightarrow> bool" where
  "sources_precede seen [] \<longleftrightarrow> True"
| "sources_precede seen (p # ps) \<longleftrightarrow>
     (case p_source p of None \<Rightarrow> True | Some s \<Rightarrow> s \<in> set seen) \<and>
     sources_precede (seen @ [p_id p]) ps"

text \<open>The Root Pane is the first Pane and the Root Tab the first Tab.\<close>

definition wf_tab :: "tab \<Rightarrow> bool" where
  "wf_tab t \<longleftrightarrow> t_panes t \<noteq> [] \<and> t_root_pane t = p_id (hd (t_panes t)) \<and>
     sources_precede [] (t_panes t)"

definition wf_workspace :: "workspace \<Rightarrow> bool" where
  "wf_workspace w \<longleftrightarrow> w_tabs w \<noteq> [] \<and> w_root_tab w = t_id (hd (w_tabs w)) \<and>
     (\<forall>t\<in>set (w_tabs w). wf_tab t) \<and> distinct (workspace_ids w)"

lemma pane_core_simps [simp]:
  "pane_core (p\<lparr>p_source := x\<rparr>) = pane_core p"
  "pane_core (p\<lparr>p_side := y\<rparr>) = pane_core p"
  "pane_core (p\<lparr>p_source := x, p_side := y\<rparr>) = pane_core p"
  "p_id (pane_core p) = p_id p"
  "pane_core (clear_source i p) = pane_core p"
  "pane_core (merged_pane r b s p) = pane_core p"
  by (simp_all add: pane_core_def clear_source_def merged_pane_def split: option.split)

lemma p_id_keep [simp]:
  "p_id (clear_source i p) = p_id p"
  "p_id (merged_pane r b s p) = p_id p"
  by (simp_all add: clear_source_def merged_pane_def split: option.split)

lemma p_source_clear [simp]:
  "p_source (clear_source i p) = (if p_source p = Some i then None else p_source p)"
  by (simp add: clear_source_def)

lemma p_source_merged [simp]:
  "p_source (merged_pane r b s p) =
     (if p_id p = r then Some b else case p_source p of None \<Rightarrow> Some r | Some x \<Rightarrow> Some x)"
  by (simp add: merged_pane_def split: option.split)

lemma map_keep [simp]:
  "map pane_core (map (clear_source i) ps) = map pane_core ps"
  "map pane_core (map (merged_pane r b s) ps) = map pane_core ps"
  "map p_id (map (clear_source i) ps) = map p_id ps"
  "map p_id (map (merged_pane r b s) ps) = map p_id ps"
  by (simp_all add: comp_def)

lemma clear_missing_sources_keep [simp]:
  "map pane_core (clear_missing_sources ps) = map pane_core ps"
  "map p_id (clear_missing_sources ps) = map p_id ps"
  "clear_missing_sources ps = [] \<longleftrightarrow> ps = []"
proof -
  have core: "pane_core (case p_source p of None \<Rightarrow> p
      | Some s \<Rightarrow> if s \<in> S then p else p\<lparr>p_source := None\<rparr>) = pane_core p" for p S
    by (cases "p_source p") simp_all
  have pid: "p_id (case p_source p of None \<Rightarrow> p
      | Some s \<Rightarrow> if s \<in> S then p else p\<lparr>p_source := None\<rparr>) = p_id p" for p S
    by (cases "p_source p") simp_all
  show "map pane_core (clear_missing_sources ps) = map pane_core ps"
    "map p_id (clear_missing_sources ps) = map p_id ps"
    "clear_missing_sources ps = [] \<longleftrightarrow> ps = []"
    by (simp_all only: clear_missing_sources_def map_map comp_def core pid map_is_Nil_conv)
qed

subsection \<open>Placement chains\<close>

lemma sources_precede_append [simp]:
  "sources_precede seen (xs @ ys) \<longleftrightarrow>
     sources_precede seen xs \<and> sources_precede (seen @ map p_id xs) ys"
  by (induction xs arbitrary: seen) (auto split: option.splits)

lemma sources_precede_mono:
  "sources_precede seen ps \<Longrightarrow> set seen \<subseteq> set seen' \<Longrightarrow> sources_precede seen' ps"
proof (induction ps arbitrary: seen seen')
  case (Cons p ps)
  have "sources_precede (seen @ [p_id p]) ps" using Cons.prems by simp
  moreover have "set (seen @ [p_id p]) \<subseteq> set (seen' @ [p_id p])" using Cons.prems by auto
  ultimately have "sources_precede (seen' @ [p_id p]) ps" by (rule Cons.IH)
  moreover have "case p_source p of None \<Rightarrow> True | Some s \<Rightarrow> s \<in> set seen'"
    using Cons.prems by (cases "p_source p") auto
  ultimately show ?case by simp
qed simp

lemma sources_precede_ids:
  "sources_precede seen ps \<Longrightarrow> p \<in> set ps \<Longrightarrow> p_source p = Some s \<Longrightarrow>
     s \<in> set seen \<or> s \<in> p_id ` set ps"
proof (induction ps arbitrary: seen)
  case (Cons q ps)
  show ?case
  proof (cases "p = q")
    case True
    with Cons.prems show ?thesis by auto
  next
    case False
    with Cons.prems have "s \<in> set (seen @ [p_id q]) \<or> s \<in> p_id ` set ps"
      by (intro Cons.IH) auto
    then show ?thesis by auto
  qed
qed simp

lemma sources_precede_clear:
  "sources_precede seen ps \<Longrightarrow>
     sources_precede (filter (\<lambda>i. i \<noteq> pid) seen)
       (map (clear_source pid) (filter (\<lambda>p. p_id p \<noteq> pid) ps))"
proof (induction ps arbitrary: seen)
  case (Cons p ps)
  from Cons.prems have "sources_precede (filter (\<lambda>i. i \<noteq> pid) (seen @ [p_id p]))
      (map (clear_source pid) (filter (\<lambda>p. p_id p \<noteq> pid) ps))" by (intro Cons.IH) simp
  with Cons.prems show ?case by (auto split: option.splits if_splits)
qed simp

lemma clear_missing_is_clear:
  assumes "sources_precede [] ps"
  shows "clear_missing_sources (filter (\<lambda>p. p_id p \<noteq> pid) ps) =
    map (clear_source pid) (filter (\<lambda>p. p_id p \<noteq> pid) ps)"
proof -
  have "(case p_source p of None \<Rightarrow> p
        | Some s \<Rightarrow> if s \<in> set (map p_id (filter (\<lambda>p. p_id p \<noteq> pid) ps)) then p
            else p\<lparr>p_source := None\<rparr>) = clear_source pid p" if "p \<in> set ps" for p
    using sources_precede_ids [OF assms that]
    by (auto simp: clear_source_def split: option.split)
  then show ?thesis by (simp add: clear_missing_sources_def)
qed

lemma sources_precede_merged:
  assumes "sources_precede [] ps" "ps \<noteq> []" "root = p_id (hd ps)" "distinct (map p_id ps)"
    "beside \<in> set seen"
  shows "sources_precede seen (map (merged_pane root beside side) ps)"
proof -
  have tl: "sources_precede (seen @ acc) (map (merged_pane root beside side) qs)"
    if "sources_precede acc qs" "root \<in> set acc" "root \<notin> p_id ` set qs" for acc qs
    using that
  proof (induction qs arbitrary: acc)
    case (Cons q qs)
    from Cons.prems have "sources_precede (seen @ acc @ [p_id q]) (map (merged_pane root beside side) qs)"
      by (intro Cons.IH) auto
    with Cons.prems show ?case by (auto split: option.splits)
  qed simp
  from assms(2) obtain q qs where ps: "ps = q # qs" by (cases ps) auto
  have "sources_precede (seen @ [p_id q]) (map (merged_pane root beside side) qs)"
    using assms ps by (intro tl) auto
  with assms ps show ?thesis by simp
qed

lemma remove_at_filter:
  "distinct (map k xs) \<Longrightarrow> position (\<lambda>x. k x = i) xs = Some n \<Longrightarrow>
     remove_at n xs = filter (\<lambda>x. k x \<noteq> i) xs"
proof (induction xs arbitrary: n)
  case (Cons x xs)
  show ?case
  proof (cases "k x = i")
    case True
    with Cons.prems have "filter (\<lambda>x. k x \<noteq> i) xs = xs"
      by (intro filter_True) (auto simp: image_iff)
    with True Cons.prems show ?thesis by (simp add: remove_at_def)
  next
    case False
    with Cons.prems obtain m where "position (\<lambda>x. k x = i) xs = Some m" "n = Suc m" by auto
    with Cons False show ?thesis by (simp add: remove_at_def)
  qed
qed simp

section \<open>Taking one Pane\<close>

definition tab_after_take :: "Id \<Rightarrow> nat \<Rightarrow> tab \<Rightarrow> tab" where
  "tab_after_take pid i t =
     (let panes = map (clear_source pid) (remove_at i (t_panes t))
      in t\<lparr>t_panes := panes,
           t_root_pane := (if t_root_pane t = pid then p_id (panes ! 0) else t_root_pane t)\<rparr>)"

lemma take_pane_refusal: "take_pane tab pid w = (Inl e, w') \<Longrightarrow> w' = w"
  by (auto simp: take_pane_def Let_def split: option.splits if_splits)

lemma take_pane_success:
  assumes "take_pane tab pid w = (Inr moved, w')"
  obtains ys t zs i where "w_tabs w = ys @ t # zs" "\<forall>y\<in>set ys. t_id y \<noteq> tab" "t_id t = tab"
    "position (\<lambda>p. p_id p = pid) (t_panes t) = Some i" "length (t_panes t) \<noteq> 1"
    "moved = (t_panes t ! i)\<lparr>p_source := None, p_side := SideRight\<rparr>"
    "w' = w\<lparr>w_tabs := ys @ tab_after_take pid i t # zs\<rparr>"
proof -
  from assms obtain t i where t: "find_tab w tab = Some t"
    and i: "position (\<lambda>p. p_id p = pid) (t_panes t) = Some i" "length (t_panes t) \<noteq> 1"
    and r: "moved = (t_panes t ! i)\<lparr>p_source := None, p_side := SideRight\<rparr>"
    and w': "w' = w\<lparr>w_tabs := update_first (\<lambda>t. t_id t = tab)
       (\<lambda>x. x\<lparr>t_panes := map (clear_source pid) (remove_at i (t_panes t)),
         t_root_pane := (if t_root_pane t = pid
           then p_id (map (clear_source pid) (remove_at i (t_panes t)) ! 0)
           else t_root_pane t)\<rparr>) (w_tabs w)\<rparr>"
    by (auto simp: take_pane_def Let_def split: option.splits if_splits)
  from t have "List.find (\<lambda>t. t_id t = tab) (w_tabs w) = Some t" by (simp add: find_tab_def)
  then obtain ys zs where "w_tabs w = ys @ t # zs" "\<forall>y\<in>set ys. t_id y \<noteq> tab" "t_id t = tab"
    and "\<And>f. update_first (\<lambda>t. t_id t = tab) f (w_tabs w) = ys @ f t # zs"
    by (rule update_first_split) blast
  with that i r w' show thesis by (simp add: tab_after_take_def Let_def)
qed

lemma tab_after_take_simps [simp]:
  "t_id (tab_after_take pid i t) = t_id t"
  "t_worktree (tab_after_take pid i t) = t_worktree t"
  "t_worktree_repository (tab_after_take pid i t) = t_worktree_repository t"
  "t_membership (tab_after_take pid i t) = t_membership t"
  "t_panes (tab_after_take pid i t) = map (clear_source pid) (remove_at i (t_panes t))"
  by (simp_all add: tab_after_take_def Let_def)

lemma pane_taken_core:
  assumes "position (\<lambda>p. p_id p = pid) (t_panes t) = Some i"
  shows "add_mset (pane_core (t_panes t ! i)) (mset (map pane_core (t_panes (tab_after_take pid i t)))) =
    mset (map pane_core (t_panes t))"
proof -
  have i: "i < length (t_panes t)" using assms by (rule position_SomeD)
  have "mset (map pane_core (t_panes t)) =
      image_mset pane_core (add_mset (t_panes t ! i) (mset (remove_at i (t_panes t))))"
    using i by (simp add: mset_remove_at)
  then show ?thesis by (simp add: image_mset.compositionality comp_def)
qed

lemma pane_taken_ids:
  assumes "position (\<lambda>p. p_id p = pid) (t_panes t) = Some i"
  shows "add_mset pid (mset (tab_ids (tab_after_take pid i t))) = mset (tab_ids t)"
proof -
  have "p_id (t_panes t ! i) = pid" using assms by (rule position_SomeD)
  moreover have "image_mset p_id (add_mset (pane_core (t_panes t ! i))
      (mset (map pane_core (t_panes (tab_after_take pid i t))))) =
      image_mset p_id (mset (map pane_core (t_panes t)))"
    by (simp only: pane_taken_core [OF assms])
  ultimately show ?thesis
    by (simp add: tab_ids_def image_mset.compositionality comp_def)
qed

lemma wf_tab_after_take:
  assumes "wf_tab t" "distinct (map p_id (t_panes t))"
    "position (\<lambda>p. p_id p = pid) (t_panes t) = Some i" "length (t_panes t) \<noteq> 1"
  shows "wf_tab (tab_after_take pid i t)"
proof -
  have eq: "remove_at i (t_panes t) = filter (\<lambda>p. p_id p \<noteq> pid) (t_panes t)"
    using assms(2,3) by (rule remove_at_filter)
  have i: "i < length (t_panes t)" using assms(3) by (rule position_SomeD)
  have ne: "remove_at i (t_panes t) \<noteq> []"
    using length_remove_at [OF i] assms(4) i by (cases "remove_at i (t_panes t)") auto
  have sp: "sources_precede [] (map (clear_source pid) (remove_at i (t_panes t)))"
    using assms(1) sources_precede_clear [of "[]" "t_panes t" pid] eq by (simp add: wf_tab_def)
  have hd: "t_root_pane (tab_after_take pid i t) = p_id (hd (remove_at i (t_panes t)))"
  proof (cases "t_root_pane t = pid")
    case True
    then show ?thesis using ne by (cases "remove_at i (t_panes t)") (auto simp: tab_after_take_def Let_def)
  next
    case False
    with assms(1) have "p_id (hd (t_panes t)) \<noteq> pid" "t_panes t \<noteq> []" by (auto simp: wf_tab_def)
    then have "hd (filter (\<lambda>p. p_id p \<noteq> pid) (t_panes t)) = hd (t_panes t)"
      by (cases "t_panes t") auto
    with False assms(1) eq show ?thesis by (simp add: tab_after_take_def Let_def wf_tab_def)
  qed
  show ?thesis using sp ne hd by (simp add: wf_tab_def hd_map)
qed

lemma workspace_ids_split:
  "w_tabs w = ys @ t # zs \<Longrightarrow> mset (workspace_ids w) =
     add_mset (w_id w) (mset (concat (map tab_ids ys)) + mset (tab_ids t) + mset (concat (map tab_ids zs)))"
  by (simp add: workspace_ids_def)

lemma distinct_concat_tab_ids:
  "distinct (concat (map tab_ids ts)) \<Longrightarrow>
     distinct (map t_id ts) \<and> (\<forall>t\<in>set ts. distinct (map p_id (t_panes t)))"
proof (induction ts)
  case (Cons t ts)
  have "t_id t \<notin> t_id ` set ts"
  proof
    assume "t_id t \<in> t_id ` set ts"
    then obtain u where "u \<in> set ts" "t_id u = t_id t" by auto
    then have "t_id t \<in> set (concat (map tab_ids ts))"
      by (auto simp: tab_ids_def intro!: bexI [of _ u])
    moreover have "t_id t \<in> set (tab_ids t)" by (simp add: tab_ids_def)
    moreover have "set (tab_ids t) \<inter> set (concat (map tab_ids ts)) = {}"
      using Cons.prems by simp
    ultimately show False by blast
  qed
  with Cons show ?case by (simp add: tab_ids_def)
qed simp

lemma wf_workspace_distinct:
  assumes "wf_workspace w"
  shows "distinct (map t_id (w_tabs w))"
    and "t \<in> set (w_tabs w) \<Longrightarrow> distinct (map p_id (t_panes t))"
proof -
  have "distinct (concat (map tab_ids (w_tabs w)))"
    using assms by (simp add: wf_workspace_def workspace_ids_def)
  from distinct_concat_tab_ids [OF this]
  show "distinct (map t_id (w_tabs w))"
    and "t \<in> set (w_tabs w) \<Longrightarrow> distinct (map p_id (t_panes t))" by auto
qed

lemma map_eq_hd: "map f xs = map f ys \<Longrightarrow> ys \<noteq> [] \<Longrightarrow> xs \<noteq> [] \<and> f (hd xs) = f (hd ys)"
  by (cases xs; cases ys) auto

section \<open>The contract of an edit\<close>

text \<open>
  What an edit of one Workspace promises: a refusal changes nothing; an accepted edit moves Panes
  with everything but their place, adds no identity beyond the fresh ones it was given, copies
  Worktree membership only from Tabs of the same Workspace, and keeps the Workspace well formed.
\<close>

locale workspace_edit =
  fixes edit :: "workspace \<Rightarrow> (outcome + 'a) \<times> workspace"
    and fresh :: "Id list"
  assumes refusal: "edit w = (Inl e, w') \<Longrightarrow> w' = w"
    and frame: "edit w = (Inr a, w') \<Longrightarrow>
      w' = w\<lparr>w_tabs := w_tabs w', w_root_tab := w_root_tab w'\<rparr>"
    and cores: "edit w = (Inr a, w') \<Longrightarrow>
      mset (map pane_core (workspace_panes w')) = mset (map pane_core (workspace_panes w))"
    and worktrees: "edit w = (Inr a, w') \<Longrightarrow> t' \<in> set (w_tabs w') \<Longrightarrow>
      \<exists>t\<in>set (w_tabs w). t_worktree t' = t_worktree t \<and>
        t_worktree_repository t' = t_worktree_repository t"
    and identities: "edit w = (Inr a, w') \<Longrightarrow>
      mset (workspace_ids w') \<subseteq># mset (workspace_ids w) + mset fresh"
    and rooted: "edit w = (Inr a, w') \<Longrightarrow> wf_workspace w \<Longrightarrow>
      w_tabs w' \<noteq> [] \<and> w_root_tab w' = t_id (hd (w_tabs w')) \<and> (\<forall>t\<in>set (w_tabs w'). wf_tab t)"
    and growth: "edit w = (Inr a, w') \<Longrightarrow> length (w_tabs w') \<le> length (w_tabs w) + length fresh"
begin

lemma keeps_wf:
  assumes "edit w = (Inr a, w')" "wf_workspace w" "distinct (workspace_ids w @ fresh)"
  shows "wf_workspace w'"
proof -
  have "mset (workspace_ids w') \<subseteq># mset (workspace_ids w @ fresh)"
    using identities [OF assms(1)] by simp
  then have "distinct (workspace_ids w')" using assms(3) by (rule distinct_submset)
  with rooted [OF assms(1,2)] show ?thesis by (simp add: wf_workspace_def)
qed

lemma keeps_pane_count:
  assumes "edit w = (Inr a, w')"
  shows "length (workspace_panes w') = length (workspace_panes w)"
  using cores [OF assms] by (metis length_map size_mset)

lemma keeps_pane_facts:
  assumes "edit w = (Inr a, w')" "\<forall>p\<in>set (workspace_panes w). Q (pane_core p)"
  shows "\<forall>p\<in>set (workspace_panes w'). Q (pane_core p)"
proof -
  have "set (map pane_core (workspace_panes w')) = set (map pane_core (workspace_panes w))"
    using cores [OF assms(1)] by (metis set_mset_mset)
  moreover have "\<forall>c\<in>set (map pane_core (workspace_panes w)). Q c" using assms(2) by simp
  ultimately have "\<forall>c\<in>set (map pane_core (workspace_panes w')). Q c" by simp
  then show ?thesis by simp
qed

lemma keeps_name:
  assumes "edit w = (Inr a, w')"
  shows "w_id w' = w_id w" "w_name w' = w_name w" "w_name_version w' = w_name_version w"
    "w_pin_version w' = w_pin_version w" "w_pinned_directory w' = w_pinned_directory w"
  by (subst frame [OF assms], simp)+

end

subsection \<open>Each edit meets it\<close>

lemma take_pane_edit:
  assumes "take_pane tab pid w = (Inr moved, w')"
  shows "w' = w\<lparr>w_tabs := w_tabs w'\<rparr>"
    and "length (w_tabs w') = length (w_tabs w)"
    and "add_mset (pane_core moved) (mset (map pane_core (workspace_panes w'))) =
      mset (map pane_core (workspace_panes w))"
    and "add_mset pid (mset (workspace_ids w')) = mset (workspace_ids w)"
    and "p_id moved = pid"
    and "\<forall>t'\<in>set (w_tabs w'). \<exists>t\<in>set (w_tabs w). t_worktree t' = t_worktree t \<and>
      t_worktree_repository t' = t_worktree_repository t"
    and "map t_id (w_tabs w') = map t_id (w_tabs w)"
    and "n < length (w_tabs w) \<Longrightarrow> t_id (w_tabs w ! n) \<noteq> tab \<Longrightarrow> w_tabs w' ! n = w_tabs w ! n"
    and "wf_workspace w \<Longrightarrow> \<forall>t\<in>set (w_tabs w'). wf_tab t"
proof -
  obtain ys t zs i where d: "w_tabs w = ys @ t # zs" "t_id t = tab"
    "position (\<lambda>p. p_id p = pid) (t_panes t) = Some i" "length (t_panes t) \<noteq> 1"
    and m: "moved = (t_panes t ! i)\<lparr>p_source := None, p_side := SideRight\<rparr>"
    and w': "w' = w\<lparr>w_tabs := ys @ tab_after_take pid i t # zs\<rparr>"
    using assms by (rule take_pane_success) blast
  show "w' = w\<lparr>w_tabs := w_tabs w'\<rparr>" "length (w_tabs w') = length (w_tabs w)"
    "map t_id (w_tabs w') = map t_id (w_tabs w)"
    using d w' by simp_all
  show "p_id moved = pid" using m position_SomeD(2) [OF d(3)] by simp
  show "add_mset (pane_core moved) (mset (map pane_core (workspace_panes w'))) =
      mset (map pane_core (workspace_panes w))"
    using pane_taken_core [OF d(3)] by (simp add: d(1) m w' workspace_panes_def)
  show "add_mset pid (mset (workspace_ids w')) = mset (workspace_ids w)"
    using pane_taken_ids [OF d(3)] by (simp add: d(1) w' workspace_ids_def)
  show "\<forall>t'\<in>set (w_tabs w'). \<exists>t\<in>set (w_tabs w). t_worktree t' = t_worktree t \<and>
      t_worktree_repository t' = t_worktree_repository t"
    using d(1) w' by auto
  show "w_tabs w' ! n = w_tabs w ! n" if "n < length (w_tabs w)" "t_id (w_tabs w ! n) \<noteq> tab"
    using that d(1,2) w' by (cases "n = length ys") (auto simp: nth_append nth_Cons')
  show "\<forall>t\<in>set (w_tabs w'). wf_tab t" if wf: "wf_workspace w"
  proof -
    have "t \<in> set (w_tabs w)" using d(1) by simp
    then have "wf_tab (tab_after_take pid i t)"
      using wf wf_workspace_distinct(2) [OF wf] d(3,4) by (intro wf_tab_after_take) (auto simp: wf_workspace_def)
    then show ?thesis using wf d(1) w' by (auto simp: wf_workspace_def)
  qed
qed

lemma move_pane_to_new_tab_success:
  assumes "move_pane_to_new_tab tab pid new w = (Inr u, w')"
  obtains source moved w1 where "source \<in> set (w_tabs w)" "take_pane tab pid w = (Inr moved, w1)"
    "w' = w1\<lparr>w_tabs := w_tabs w1 @ [\<lparr>t_membership = Following, t_worktree = t_worktree source,
       t_worktree_repository = t_worktree_repository source, t_id = new,
       t_root_pane = pid, t_panes = [moved]\<rparr>]\<rparr>"
  using assms by (auto simp: move_pane_to_new_tab_def find_tab_def dest!: find_SomeD
      split: option.splits sum.splits prod.splits)

lemma taken_pane_alone: "take_pane tab pid w = (Inr moved, w1) \<Longrightarrow> p_source moved = None"
  by (erule take_pane_success) simp

interpretation to_new_tab: workspace_edit "move_pane_to_new_tab tab pid new" "[new]"
  for tab pid new
proof unfold_locales
  fix w e w'
  assume "move_pane_to_new_tab tab pid new w = (Inl e, w')"
  then show "w' = w"
    by (auto simp: move_pane_to_new_tab_def dest: take_pane_refusal
        split: option.splits sum.splits prod.splits)
next
  fix w a w'
  assume "move_pane_to_new_tab tab pid new w = (Inr a, w')"
  then obtain source moved w1 where src: "source \<in> set (w_tabs w)"
    and tk: "take_pane tab pid w = (Inr moved, w1)"
    and w': "w' = w1\<lparr>w_tabs := w_tabs w1 @ [\<lparr>t_membership = Following,
       t_worktree = t_worktree source, t_worktree_repository = t_worktree_repository source,
       t_id = new, t_root_pane = pid, t_panes = [moved]\<rparr>]\<rparr>"
    by (rule move_pane_to_new_tab_success)
  note tp = take_pane_edit [OF tk]
  obtain ts where w1: "w1 = w\<lparr>w_tabs := ts\<rparr>" using tp(1) by blast
  show "w' = w\<lparr>w_tabs := w_tabs w', w_root_tab := w_root_tab w'\<rparr>"
    by (simp add: w' w1)
  show "length (w_tabs w') \<le> length (w_tabs w) + length [new]" using tp(2) w' by simp
  show "mset (map pane_core (workspace_panes w')) = mset (map pane_core (workspace_panes w))"
    using tp(3) w' by (simp add: workspace_panes_def)
  have ids: "workspace_ids w' = workspace_ids w1 @ [new, pid]"
    using w' tp(5) by (simp add: workspace_ids_def tab_ids_def)
  show "mset (workspace_ids w') \<subseteq># mset (workspace_ids w) + mset [new]"
    using tp(4) by (simp add: ids add_mset_commute flip: tp(4))
  show "\<exists>t\<in>set (w_tabs w). t_worktree t' = t_worktree t \<and>
      t_worktree_repository t' = t_worktree_repository t" if "t' \<in> set (w_tabs w')" for t'
    using that src w' tp(6) by auto
  show "w_tabs w' \<noteq> [] \<and> w_root_tab w' = t_id (hd (w_tabs w')) \<and> (\<forall>t\<in>set (w_tabs w'). wf_tab t)"
    if wf: "wf_workspace w"
  proof -
    have root: "w_root_tab w' = t_id (hd (w_tabs w))"
      using wf by (simp add: w' w1 wf_workspace_def)
    have "w_tabs w1 \<noteq> [] \<and> t_id (hd (w_tabs w1)) = t_id (hd (w_tabs w))"
      using tp(7) wf by (intro map_eq_hd) (auto simp: wf_workspace_def)
    then show ?thesis using root tp(9) [OF wf] taken_pane_alone [OF tk] tp(5) w'
      by (auto simp: wf_tab_def)
  qed
qed

lemma workspace_cores:
  "map pane_core (workspace_panes w) = concat (map (\<lambda>t. map pane_core (t_panes t)) (w_tabs w))"
  by (simp add: workspace_panes_def map_concat comp_def)

lemma find_remove_at: "\<not> p (xs ! i) \<Longrightarrow> List.find p (remove_at i xs) = List.find p xs"
  by (induction xs arbitrary: i) (auto simp: remove_at_def nth_Cons take_Cons drop_Cons split: nat.splits)

lemma destination_Inr:
  assumes "destination tab into beside w = Inr i"
  shows "tab \<noteq> into" "i < length (w_tabs w)" "t_id (w_tabs w ! i) = into"
    "beside \<in> set (map p_id (t_panes (w_tabs w ! i)))"
  using assms by (auto simp: destination_def holds_pane_def list_ex_iff position_Some_iff
      split: if_splits option.splits)

lemma wf_tab_append_pane:
  "wf_tab t \<Longrightarrow> s \<in> set (map p_id (t_panes t)) \<Longrightarrow> p_source p = Some s \<Longrightarrow>
     wf_tab (t\<lparr>t_panes := t_panes t @ [p]\<rparr>)"
  by (simp add: wf_tab_def)

interpretation to_beside: workspace_edit "move_pane_beside tab pid into beside side" "[]"
  for tab pid into beside side
proof unfold_locales
  fix w e w'
  assume "move_pane_beside tab pid into beside side w = (Inl e, w')"
  then show "w' = w"
    by (auto simp: move_pane_beside_def Let_def dest: take_pane_refusal
        split: sum.splits prod.splits)
next
  fix w a w'
  assume "move_pane_beside tab pid into beside side w = (Inr a, w')"
  then obtain i moved w1 where dest: "destination tab into beside w = Inr i"
    and tk: "take_pane tab pid w = (Inr moved, w1)"
    and w'0: "w' = w1\<lparr>w_tabs := (w_tabs w1)[i := (w_tabs w1 ! i)\<lparr>t_panes := t_panes (w_tabs w1 ! i) @
       [moved\<lparr>p_source := Some beside, p_side := side\<rparr>]\<rparr>]\<rparr>"
    by (auto simp: move_pane_beside_def Let_def split: sum.splits prod.splits)
  note tp = take_pane_edit [OF tk] and d = destination_Inr [OF dest]
  obtain ts where w1: "w1 = w\<lparr>w_tabs := ts\<rparr>" using tp(1) by blast
  have len: "i < length ts" and same: "ts ! i = w_tabs w ! i"
    using d tp(2) tp(8) [of i] by (auto simp: w1)
  define t' where "t' = (ts ! i)\<lparr>t_panes := t_panes (ts ! i) @
     [moved\<lparr>p_source := Some beside, p_side := side\<rparr>]\<rparr>"
  have w': "w' = w\<lparr>w_tabs := ts[i := t']\<rparr>" by (simp add: w'0 w1 t'_def)
  show "w' = w\<lparr>w_tabs := w_tabs w', w_root_tab := w_root_tab w'\<rparr>" by (simp add: w')
  show "length (w_tabs w') \<le> length (w_tabs w) + length []" using tp(2) by (simp add: w' w1)
  have "mset (map pane_core (workspace_panes w')) =
      add_mset (pane_core moved) (mset (map pane_core (workspace_panes w1)))"
    using mset_concat_list_update [OF len, of "\<lambda>t. map pane_core (t_panes t)" t']
    by (simp add: workspace_cores w' w1 t'_def)
  then show "mset (map pane_core (workspace_panes w')) = mset (map pane_core (workspace_panes w))"
    using tp(3) by simp
  have "mset (workspace_ids w') = add_mset pid (mset (workspace_ids w1))"
    using mset_concat_list_update [OF len, of tab_ids t'] tp(5)
    by (simp add: workspace_ids_def w' w1 t'_def tab_ids_def)
  then show "mset (workspace_ids w') \<subseteq># mset (workspace_ids w) + mset []" using tp(4) by simp
  have in_w': "t = t' \<or> t \<in> set ts" if "t \<in> set (w_tabs w')" for t
    using that set_update_subset_insert [of ts i t'] by (auto simp: w')
  show "\<exists>t\<in>set (w_tabs w). t_worktree u = t_worktree t \<and>
      t_worktree_repository u = t_worktree_repository t" if "u \<in> set (w_tabs w')" for u
    using in_w' [OF that] tp(6) len by (auto simp: w1 t'_def)
  show "w_tabs w' \<noteq> [] \<and> w_root_tab w' = t_id (hd (w_tabs w')) \<and> (\<forall>t\<in>set (w_tabs w'). wf_tab t)"
    if wf: "wf_workspace w"
  proof -
    have "map t_id (ts[i := t']) = map t_id ts"
      by (simp add: map_update t'_def) (metis len list_update_id nth_map)
    then have "w_tabs w' \<noteq> [] \<and> t_id (hd (w_tabs w')) = t_id (hd (w_tabs w))"
      using wf tp(7) by (intro map_eq_hd) (auto simp: w' w1 wf_workspace_def)
    moreover have "wf_tab t'"
      using wf d(2,4) by (simp only: t'_def same) (intro wf_tab_append_pane [of _ beside], auto simp: wf_workspace_def)
    ultimately show ?thesis using wf in_w' tp(9) [OF wf] by (auto simp: w' w1 wf_workspace_def)
  qed
qed

lemma promote_root_tab_facts:
  "map t_panes (w_tabs (promote_root_tab w)) = map t_panes (w_tabs w)"
  "map tab_ids (w_tabs (promote_root_tab w)) = map tab_ids (w_tabs w)"
  "promote_root_tab w = w\<lparr>w_tabs := w_tabs (promote_root_tab w),
     w_root_tab := w_root_tab (promote_root_tab w)\<rparr>"
  "t' \<in> set (w_tabs (promote_root_tab w)) \<Longrightarrow> \<exists>t\<in>set (w_tabs w). t' = t \<or> t' = t\<lparr>t_membership := Following\<rparr>"
  "w_tabs w \<noteq> [] \<Longrightarrow> w_root_tab (promote_root_tab w) = t_id (hd (w_tabs (promote_root_tab w)))"
  by (auto simp: promote_root_tab_def tab_ids_def split: list.splits if_splits)

lemma promote_root_tab_keeps [simp]:
  "workspace_panes (promote_root_tab w) = workspace_panes w"
  "workspace_ids (promote_root_tab w) = workspace_ids w"
  "length (w_tabs (promote_root_tab w)) = length (w_tabs w)"
  "w_tabs (promote_root_tab w) = [] \<longleftrightarrow> w_tabs w = []"
  "w_id (promote_root_tab w) = w_id w"
  by (auto simp: workspace_panes_def workspace_ids_def promote_root_tab_def tab_ids_def split: list.splits)

lemma wf_tab_membership [simp]: "wf_tab (t\<lparr>t_membership := m\<rparr>) = wf_tab t"
  by (simp add: wf_tab_def)

lemma promote_root_tab_rooted:
  assumes "w_tabs w \<noteq> []" "\<forall>t\<in>set (w_tabs w). wf_tab t"
  shows "w_tabs (promote_root_tab w) \<noteq> [] \<and>
    w_root_tab (promote_root_tab w) = t_id (hd (w_tabs (promote_root_tab w))) \<and>
    (\<forall>t\<in>set (w_tabs (promote_root_tab w)). wf_tab t)"
  using assms promote_root_tab_facts(4) [of _ w] promote_root_tab_facts(5) [of w] by fastforce

lemma merge_tab_success:
  assumes "merge_tab tab into beside side w = (Inr u, w')"
  obtains index ys t zs where "index < length (w_tabs w)"
    "remove_at index (w_tabs w) = ys @ t # zs"
    "wf_workspace w \<longrightarrow> beside \<in> set (map p_id (t_panes t))"
    "w' = promote_root_tab (w\<lparr>w_tabs := ys @ t\<lparr>t_panes := t_panes t @
       map (merged_pane (t_root_pane (w_tabs w ! index)) beside side) (t_panes (w_tabs w ! index))\<rparr> # zs\<rparr>)"
proof -
  obtain i index t where dest: "destination tab into beside w = Inr i"
    and pos: "position (\<lambda>t. t_id t = tab) (w_tabs w) = Some index"
    and t: "List.find (\<lambda>t. t_id t = into) (remove_at index (w_tabs w)) = Some t"
    and w': "w' = promote_root_tab (w\<lparr>w_tabs := update_first (\<lambda>t. t_id t = into)
       (\<lambda>t. t\<lparr>t_panes := t_panes t @ map (merged_pane (t_root_pane (w_tabs w ! index)) beside side)
          (t_panes (w_tabs w ! index))\<rparr>) (remove_at index (w_tabs w))\<rparr>)"
    using assms by (auto simp: merge_tab_def Let_def find_tab_def split: sum.splits option.splits)
  note d = destination_Inr [OF dest]
  have "List.find (\<lambda>t. t_id t = into) (w_tabs w) = Some t"
    using t d(1) position_SomeD(2) [OF pos] by (subst (asm) find_remove_at) auto
  then have "t \<in> set (w_tabs w)" "t_id t = into" by (auto dest: find_SomeD)
  then have "t = w_tabs w ! i" if "wf_workspace w"
    using d(2,3) wf_workspace_distinct(1) [OF that] by (metis distinct_key_eq nth_mem)
  with d(4) have "wf_workspace w \<longrightarrow> beside \<in> set (map p_id (t_panes t))" by simp
  moreover obtain ys zs where "remove_at index (w_tabs w) = ys @ t # zs"
    "update_first (\<lambda>t. t_id t = into)
       (\<lambda>t. t\<lparr>t_panes := t_panes t @ map (merged_pane (t_root_pane (w_tabs w ! index)) beside side)
          (t_panes (w_tabs w ! index))\<rparr>) (remove_at index (w_tabs w)) =
     ys @ t\<lparr>t_panes := t_panes t @ map (merged_pane (t_root_pane (w_tabs w ! index)) beside side)
          (t_panes (w_tabs w ! index))\<rparr> # zs"
    using t by (rule update_first_split) blast
  ultimately show ?thesis using that position_SomeD(1) [OF pos] w' by auto
qed

interpretation merging: workspace_edit "merge_tab tab into beside side" "[]"
  for tab into beside side
proof unfold_locales
  fix w e w'
  assume a: "merge_tab tab into beside side w = (Inl e, w')"
  have "False" if "destination tab into beside w = Inr j"
    "position (\<lambda>t. t_id t = tab) (w_tabs w) = Some i"
    "List.find (\<lambda>t. t_id t = into) (remove_at i (w_tabs w)) = None" for i j
    using destination_Inr [OF that(1)] position_SomeD(2) [OF that(2)] that(3)
    by (subst (asm) find_remove_at) (auto simp: find_None_iff)
  with a show "w' = w"
    by (auto simp: merge_tab_def Let_def find_tab_def split: sum.splits option.splits)
next
  fix w a w'
  assume "merge_tab tab into beside side w = (Inr a, w')"
  then obtain i ys t zs where i: "i < length (w_tabs w)"
    and rest: "remove_at i (w_tabs w) = ys @ t # zs"
    and beside: "wf_workspace w \<longrightarrow> beside \<in> set (map p_id (t_panes t))"
    and w'0: "w' = promote_root_tab (w\<lparr>w_tabs := ys @ t\<lparr>t_panes := t_panes t @
       map (merged_pane (t_root_pane (w_tabs w ! i)) beside side) (t_panes (w_tabs w ! i))\<rparr> # zs\<rparr>)"
    by (rule merge_tab_success)
  define m where "m = w_tabs w ! i"
  define t' where "t' = t\<lparr>t_panes := t_panes t @ map (merged_pane (t_root_pane m) beside side) (t_panes m)\<rparr>"
  have w': "w' = promote_root_tab (w\<lparr>w_tabs := ys @ t' # zs\<rparr>)" by (simp add: w'0 m_def t'_def)
  have m: "m \<in> set (w_tabs w)" using i by (simp add: m_def)
  have sub: "set (ys @ t # zs) \<subseteq> set (w_tabs w)" using set_remove_at [of i "w_tabs w"] rest by simp
  show "w' = w\<lparr>w_tabs := w_tabs w', w_root_tab := w_root_tab w'\<rparr>"
    by (subst w', subst promote_root_tab_facts(3)) (simp add: w')
  have "length (ys @ t' # zs) = length (remove_at i (w_tabs w))" by (simp add: rest)
  then show "length (w_tabs w') \<le> length (w_tabs w) + length []"
    using i by (simp add: w' length_remove_at)
  show "mset (map pane_core (workspace_panes w')) = mset (map pane_core (workspace_panes w))"
    using mset_concat_remove_at [OF i, of "\<lambda>t. map pane_core (t_panes t)"]
    by (simp add: workspace_cores w' t'_def rest comp_def ac_simps flip: m_def)
  have "mset (concat (map tab_ids (ys @ t' # zs))) \<subseteq># mset (concat (map tab_ids (w_tabs w)))"
    unfolding mset_concat_remove_at [OF i, of tab_ids, symmetric] rest
    by (simp add: t'_def tab_ids_def comp_def ac_simps flip: m_def)
  then show "mset (workspace_ids w') \<subseteq># mset (workspace_ids w) + mset []"
    by (simp only: w' promote_root_tab_keeps) (simp add: workspace_ids_def)
  show "\<exists>t\<in>set (w_tabs w). t_worktree u = t_worktree t \<and>
      t_worktree_repository u = t_worktree_repository t" if "u \<in> set (w_tabs w')" for u
    using promote_root_tab_facts(4) [OF that [unfolded w']] sub by (auto simp: t'_def)
  show "w_tabs w' \<noteq> [] \<and> w_root_tab w' = t_id (hd (w_tabs w')) \<and> (\<forall>t\<in>set (w_tabs w'). wf_tab t)"
    if wf: "wf_workspace w"
  proof -
    have wfm: "wf_tab m" and wft: "wf_tab t" using wf m sub by (auto simp: wf_workspace_def)
    have "sources_precede (map p_id (t_panes t)) (map (merged_pane (t_root_pane m) beside side) (t_panes m))"
      using wfm beside wf wf_workspace_distinct(2) [OF wf m]
      by (intro sources_precede_merged) (auto simp: wf_tab_def)
    then have "wf_tab t'" using wft by (simp add: wf_tab_def t'_def)
    then show ?thesis unfolding w' using wf sub by (intro promote_root_tab_rooted) (auto simp: wf_workspace_def)
  qed
qed

subsection \<open>Removing one Pane\<close>

lemma tab_without_pane_simps [simp]:
  "t_id (tab_without_pane pid t) = t_id t"
  "t_worktree (tab_without_pane pid t) = t_worktree t"
  "t_worktree_repository (tab_without_pane pid t) = t_worktree_repository t"
  "map pane_core (t_panes (tab_without_pane pid t)) = map pane_core (filter (\<lambda>p. p_id p \<noteq> pid) (t_panes t))"
  "map p_id (t_panes (tab_without_pane pid t)) = filter (\<lambda>i. i \<noteq> pid) (map p_id (t_panes t))"
  by (simp_all add: tab_without_pane_def Let_def filter_map comp_def)

lemma wf_tab_replaced:
  "wf_tab (t\<lparr>t_root_pane := r, t_panes := ps\<rparr>) \<longleftrightarrow> ps \<noteq> [] \<and> r = p_id (hd ps) \<and> sources_precede [] ps"
  by (simp add: wf_tab_def)

lemma wf_tab_without_pane:
  assumes "wf_tab t" "t_panes (tab_without_pane pid t) \<noteq> []"
  shows "wf_tab (tab_without_pane pid t)"
proof -
  let ?ps = "filter (\<lambda>p. p_id p \<noteq> pid) (t_panes t)"
  have src: "sources_precede [] (t_panes t)" using assms(1) by (simp add: wf_tab_def)
  have ps: "?ps \<noteq> []" using assms(2) by (simp add: tab_without_pane_def Let_def)
  have "sources_precede [] (clear_missing_sources ?ps)"
    using sources_precede_clear [OF src] by (simp add: clear_missing_is_clear [OF src])
  moreover have "p_id (hd (clear_missing_sources ?ps)) = p_id (hd ?ps)"
    using ps by (simp only: hd_map [symmetric] clear_missing_sources_keep not_False_eq_True)
  moreover have "(case ?ps of p # _ \<Rightarrow> p_id p | [] \<Rightarrow> t_root_pane t) = p_id (hd ?ps)"
    using ps by (simp add: list.case_eq_if del: filter_False)
  ultimately show ?thesis
    using ps by (simp only: wf_tab_replaced tab_without_pane_def Let_def clear_missing_sources_keep simp_thms)
qed

lemma concat_map_nonempty: "concat (map f (filter (\<lambda>x. f x \<noteq> []) xs)) = concat (map f xs)"
  by (induction xs) auto

lemma workspace_without_pane_cores:
  "map pane_core (workspace_panes (workspace_without_pane pid w)) =
     map pane_core (filter (\<lambda>p. p_id p \<noteq> pid) (workspace_panes w))"
  by (simp add: workspace_without_pane_def)
    (simp add: workspace_panes_def concat_map_nonempty map_concat filter_concat comp_def)

lemma workspace_without_pane_ids:
  "mset (workspace_ids (workspace_without_pane pid w)) \<subseteq># mset (workspace_ids w)"
proof -
  have tab: "mset (tab_ids (tab_without_pane pid t)) \<subseteq># mset (tab_ids t)" for t
    by (simp add: tab_ids_def del: filter_map mset_filter) (simp add: multiset_filter_subset)
  have "mset (concat (map tab_ids (filter (\<lambda>t. t_panes t \<noteq> []) (map (tab_without_pane pid) ts))))
      \<subseteq># mset (concat (map tab_ids ts))" for ts
  proof (induction ts)
    case (Cons t ts)
    show ?case using subset_mset.add_mono [OF tab [of t] Cons.IH]
        subset_mset.order_trans [OF Cons.IH mset_subset_eq_add_right [of _ "mset (tab_ids t)"]]
      by simp
  qed simp
  then show ?thesis by (simp add: workspace_without_pane_def) (simp add: workspace_ids_def)
qed

lemma workspace_without_pane_tabs:
  assumes "t' \<in> set (w_tabs (workspace_without_pane pid w))"
  shows "\<exists>t\<in>set (w_tabs w). t_worktree t' = t_worktree t \<and>
    t_worktree_repository t' = t_worktree_repository t"
  using promote_root_tab_facts(4) [OF assms [unfolded workspace_without_pane_def]] by auto

lemma wf_workspace_without_pane:
  assumes "wf_workspace w" "w_tabs (workspace_without_pane pid w) \<noteq> []"
  shows "wf_workspace (workspace_without_pane pid w)"
proof -
  have "distinct (workspace_ids (workspace_without_pane pid w))"
    using assms(1) by (intro distinct_submset [OF workspace_without_pane_ids]) (simp add: wf_workspace_def)
  moreover have "\<forall>t\<in>set (w_tabs w). wf_tab t" using assms(1) by (simp add: wf_workspace_def)
  ultimately show ?thesis
    using promote_root_tab_rooted [of "w\<lparr>w_tabs := filter (\<lambda>t. t_panes t \<noteq> [])
        (map (tab_without_pane pid) (w_tabs w))\<rparr>"] assms(2) wf_tab_without_pane
    by (auto simp: wf_workspace_def workspace_without_pane_def)
qed

end
