(* ===== verification/Naming.thy ===== *)
theory Naming
  imports Membership
begin

text \<open>
  The names of Workspaces (\<open>State::recalculate_names\<close> of \<open>hierarchy.rs\<close>). A custom name is used as
  it is. An automatic name comes from the Workspace's directory, and from an ordinal where the name
  is taken. The first loop of the source reserves the custom names and the automatic names that stay
  (\<open>classify\<close>); the second allocates the others in order (\<open>allocate\<close>). The set \<open>occupied\<close> is a list.
  The ordinal is an \<open>i32\<close> in the source; \<open>unique_name_bound\<close> keeps it far below its maximum.
\<close>

section \<open>The base of an automatic name\<close>

definition root_pane_of :: "workspace \<Rightarrow> pane option" where
  "root_pane_of w =
     (case find_tab w (w_root_tab w) of None \<Rightarrow> None | Some t \<Rightarrow> find_pane t (t_root_pane t))"

definition naming_directory :: "workspace \<Rightarrow> path option" where
  "naming_directory w =
     (case w_pinned_directory w of
        Some d \<Rightarrow> Some d | None \<Rightarrow> map_option presented_directory (root_pane_of w))"

definition base_of_directory :: "path option \<Rightarrow> path option \<Rightarrow> rust_string" where
  "base_of_directory home directory =
     (case directory of
        None \<Rightarrow> lit ''Default''
      | Some d \<Rightarrow>
          if opt_path_eq (Some d) home then lit ''Default''
          else case file_name d of Some n \<Rightarrow> utf8_lossy n | None \<Rightarrow> lit ''/'')"

definition automatic_base :: "path option \<Rightarrow> workspace \<Rightarrow> rust_string" where
  "automatic_base home w =
     (let base = pop_to 251 (filter (\<lambda>c. \<not> is_control c) (base_of_directory home (naming_directory w)))
      in if trim base = [] then lit ''/'' else base)"

section \<open>Allocation\<close>

text \<open>\<open>format!("{base} ({ordinal})")\<close> and the loop that looks for a free name.\<close>

definition suffixed :: "rust_string \<Rightarrow> nat \<Rightarrow> rust_string" where
  "suffixed base ordinal = base @ lit '' ('' @ decimal ordinal @ lit '')''"

lemma suffixed_inject [simp]: "suffixed base m = suffixed base n \<longleftrightarrow> m = n"
  by (simp add: suffixed_def)

definition taken_above :: "rust_string \<Rightarrow> nat \<Rightarrow> rust_string list \<Rightarrow> nat set" where
  "taken_above base ordinal occupied = {k. ordinal \<le> k \<and> suffixed base k \<in> set occupied}"

lemma finite_taken_above [simp]: "finite (taken_above base ordinal occupied)"
proof -
  have "finite (suffixed base -` set occupied)"
    by (rule finite_vimageI) (auto simp: inj_on_def)
  then show ?thesis by (rule rev_finite_subset) (auto simp: taken_above_def)
qed

lemma taken_above_Suc:
  "taken_above base (Suc ordinal) occupied = taken_above base ordinal occupied - {ordinal}"
  by (auto simp: taken_above_def)

lemma taken_above_self: "ordinal \<in> taken_above base ordinal occupied \<longleftrightarrow> suffixed base ordinal \<in> set occupied"
  by (simp add: taken_above_def)

function unique_name :: "rust_string \<Rightarrow> nat \<Rightarrow> rust_string \<Rightarrow> rust_string list \<Rightarrow> rust_string" where
  "unique_name base ordinal name occupied =
     (if name \<in> set occupied then unique_name base (Suc ordinal) (suffixed base ordinal) occupied
      else name)"
  by pat_completeness auto
termination
proof (relation "measure (\<lambda>(base, ordinal, name, occupied).
    2 * card (taken_above base ordinal occupied) + (if name \<in> set occupied then 1 else 0))", simp)
  fix base ordinal name and occupied :: "rust_string list"
  assume "name \<in> set occupied"
  moreover have "card (taken_above base ordinal occupied) > 0" if "suffixed base ordinal \<in> set occupied"
    using that taken_above_self by (auto simp: card_gt_0_iff)
  ultimately show "((base, Suc ordinal, suffixed base ordinal, occupied), base, ordinal, name, occupied)
      \<in> measure (\<lambda>(base, ordinal, name, occupied).
          2 * card (taken_above base ordinal occupied) + (if name \<in> set occupied then 1 else 0))"
    by (auto simp: taken_above_Suc card_Diff_singleton_if taken_above_self)
qed

declare unique_name.simps [simp del]

section \<open>Both loops\<close>

definition find_naming :: "workspace_name list \<Rightarrow> Id \<Rightarrow> workspace_name option" where
  "find_naming names i = List.find (\<lambda>n. n_workspace n = i) names"

text \<open>One turn of the first loop: the Workspace, the occupied names, and the base when it is pending.\<close>

definition classify_one :: "path option \<Rightarrow> workspace_name list \<Rightarrow> rust_string list \<Rightarrow> workspace \<Rightarrow>
    workspace \<times> rust_string list \<times> rust_string option" where
  "classify_one home names occupied w =
     (case find_naming names (w_id w) of
        None \<Rightarrow> (w, occupied, None)
      | Some naming \<Rightarrow>
          (case n_custom naming of
             Some custom \<Rightarrow> (if w_name w \<noteq> custom then w\<lparr>w_name := custom\<rparr> else w, occupied, None)
           | None \<Rightarrow>
               let base = automatic_base home w
               in if n_automatic_base naming = base \<and> w_name w \<notin> set occupied
                  then (w, w_name w # occupied, None)
                  else (w, occupied, Some base)))"

fun classify :: "path option \<Rightarrow> workspace_name list \<Rightarrow> rust_string list \<Rightarrow> workspace list \<Rightarrow>
    (workspace \<times> rust_string option) list \<times> rust_string list" where
  "classify home names occupied [] = ([], occupied)"
| "classify home names occupied (w # ws) =
     (let (w', occupied', pending) = classify_one home names occupied w;
          (rest, occupied'') = classify home names occupied' ws
      in ((w', pending) # rest, occupied''))"

fun allocate :: "workspace_name list \<Rightarrow> rust_string list \<Rightarrow> (workspace \<times> rust_string option) list \<Rightarrow>
    workspace list \<times> workspace_name list" where
  "allocate names occupied [] = ([], names)"
| "allocate names occupied ((w, None) # rest) =
     (let (ws, names') = allocate names occupied rest in (w # ws, names'))"
| "allocate names occupied ((w, Some base) # rest) =
     (case find_naming names (w_id w) of
        None \<Rightarrow> let (ws, names') = allocate names occupied rest in (w # ws, names')
      | Some _ \<Rightarrow>
          let name = unique_name base 2 base occupied;
              w' = (if w_name w \<noteq> name
                    then w\<lparr>w_name := name, w_name_version := wrapping_add (w_name_version w) 1\<rparr> else w);
              (ws, names') = allocate
                 (update_first (\<lambda>n. n_workspace n = w_id w) (\<lambda>n. n\<lparr>n_automatic_base := base\<rparr>) names)
                 (name # occupied) rest
          in (w' # ws, names'))"

definition custom_names :: "workspace_name list \<Rightarrow> rust_string list" where
  "custom_names names = List.map_filter n_custom names"

definition recalculate_names :: "state \<Rightarrow> state" where
  "recalculate_names s =
     (let (tagged, occupied) =
            classify (st_home_directory s) (st_names s) (custom_names (st_names s)) (workspaces s);
          (ws, names) = allocate (st_names s) occupied tagged
      in (set_workspaces ws s)\<lparr>st_names := names\<rparr>)"

lemmas naming_run [run_simps] = root_pane_of_def naming_directory_def base_of_directory_def
  automatic_base_def suffixed_def unique_name.simps find_naming_def classify_one_def custom_names_def
  map_filter_simps recalculate_names_def

section \<open>The free name\<close>

text \<open>\<open>unique_name\<close> returns the first candidate that is not taken.\<close>

lemma unique_name_first:
  "unique_name base ordinal name occupied \<notin> set occupied \<and>
   (unique_name base ordinal name occupied = name \<or>
    name \<in> set occupied \<and>
    (\<exists>k\<ge>ordinal. unique_name base ordinal name occupied = suffixed base k \<and>
      (\<forall>j. ordinal \<le> j \<and> j < k \<longrightarrow> suffixed base j \<in> set occupied)))"
proof (induction base ordinal name occupied rule: unique_name.induct)
  case (1 base ordinal name occupied)
  show ?case
  proof (cases "name \<in> set occupied")
    case True
    let ?r = "unique_name base (Suc ordinal) (suffixed base ordinal) occupied"
    have r: "unique_name base ordinal name occupied = ?r" using True by (subst unique_name.simps) simp
    from 1 [OF True] have free: "?r \<notin> set occupied"
      and cases: "?r = suffixed base ordinal \<or> suffixed base ordinal \<in> set occupied \<and>
        (\<exists>k\<ge>Suc ordinal. ?r = suffixed base k \<and>
          (\<forall>j. Suc ordinal \<le> j \<and> j < k \<longrightarrow> suffixed base j \<in> set occupied))" by auto
    from cases have "\<exists>k\<ge>ordinal. ?r = suffixed base k \<and>
        (\<forall>j. ordinal \<le> j \<and> j < k \<longrightarrow> suffixed base j \<in> set occupied)"
      by (metis Suc_leD Suc_leI le_antisym not_less order_refl)
    with free True show ?thesis by (simp add: r)
  next
    case False
    then show ?thesis by (subst (1 2) unique_name.simps) simp
  qed
qed

lemmas unique_name_free = unique_name_first [THEN conjunct1]

lemma unique_name_bound:
  obtains "unique_name base ordinal name occupied = name"
  | k where "unique_name base ordinal name occupied = suffixed base k" "k \<le> ordinal + length occupied"
proof -
  consider "unique_name base ordinal name occupied = name"
    | k where "ordinal \<le> k" "unique_name base ordinal name occupied = suffixed base k"
      "\<forall>j. ordinal \<le> j \<and> j < k \<longrightarrow> suffixed base j \<in> set occupied"
    using unique_name_first by blast
  then show ?thesis
  proof cases
    case 1
    then show ?thesis by (rule that(1))
  next
    case 2
    have "suffixed base ` {ordinal..<k} \<subseteq> set occupied" using 2(3) by auto
    then have "card (suffixed base ` {ordinal..<k}) \<le> length occupied"
      by (meson card_length card_mono finite_set le_trans)
    moreover have "card (suffixed base ` {ordinal..<k}) = k - ordinal"
      by (subst card_image) (auto simp: inj_on_def)
    ultimately show ?thesis using 2(1,2) that(2) by simp
  qed
qed

section \<open>Acceptable names\<close>

text \<open>The condition \<open>State::validate\<close> puts on the name of a Workspace and on a custom name.\<close>

definition valid_name :: "rust_string \<Rightarrow> bool" where
  "valid_name name \<longleftrightarrow> trim name \<noteq> [] \<and> str_len name \<le> 256 \<and> \<not> list_ex is_control name"

lemma automatic_base_plain:
  "trim (automatic_base home w) \<noteq> [] \<and> str_len (automatic_base home w) \<le> 251 \<and>
     \<not> list_ex is_control (automatic_base home w)"
proof -
  let ?raw = "filter (\<lambda>c. \<not> is_control c) (base_of_directory home (naming_directory w))"
  have "\<not> list_ex is_control (pop_to 251 ?raw)"
    using pop_to_subset [of 251 ?raw] by (auto simp: list_ex_iff)
  moreover have "trim (lit ''/'') = lit ''/''" "str_len (lit ''/'') = 1" "\<not> list_ex is_control (lit ''/'')"
    by (simp_all add: lit_def trim_def trim_start_def is_whitespace_def is_control_def len_utf8_def)
  ultimately show ?thesis
    using pop_to_len [of 251 ?raw] by (simp add: automatic_base_def Let_def lit_def)
qed

lemma valid_name_suffixed:
  assumes "trim base \<noteq> []" "str_len base \<le> 251" "\<not> list_ex is_control base" "k < 100"
  shows "valid_name (suffixed base k)"
proof -
  have "\<exists>c\<in>set base. \<not> is_whitespace c" using assms(1) by (auto simp: trim_empty_iff)
  then have "trim (suffixed base k) \<noteq> []" by (auto simp: trim_empty_iff suffixed_def)
  moreover have "\<not> list_ex is_control (decimal k)"
    using decimal_digits by (fastforce simp: list_ex_iff is_control_def)
  moreover have "str_len (lit '' ('') = 2" "str_len (lit '')'') = 1"
    "\<not> list_ex is_control (lit '' ('')" "\<not> list_ex is_control (lit '')'')"
    by (simp_all add: lit_def len_utf8_def is_control_def)
  ultimately show ?thesis
    using assms str_len_decimal_small [of k] by (simp add: valid_name_def suffixed_def list_ex_append)
qed

lemma valid_unique_name:
  assumes "length occupied < 98"
  shows "valid_name (unique_name (automatic_base home w) 2 (automatic_base home w) occupied)"
proof (cases rule: unique_name_bound [of "automatic_base home w" 2 "automatic_base home w" occupied])
  case 1
  then show ?thesis using automatic_base_plain [of home w] by (simp add: valid_name_def)
next
  case (2 k)
  then show ?thesis using automatic_base_plain [of home w] assms by (simp add: valid_name_suffixed)
qed

section \<open>What the loops keep\<close>

text \<open>Everything of a Workspace but its name, and of a naming but its automatic base.\<close>

definition unnamed :: "workspace \<Rightarrow> workspace" where
  "unnamed w = w\<lparr>w_name := [], w_name_version := 0\<rparr>"

definition naming_key :: "workspace_name \<Rightarrow> Id \<times> rust_string option" where
  "naming_key n = (n_workspace n, n_custom n)"

definition is_automatic :: "workspace_name list \<Rightarrow> workspace \<Rightarrow> bool" where
  "is_automatic names w \<longleftrightarrow>
     (case find_naming names (w_id w) of None \<Rightarrow> False | Some n \<Rightarrow> n_custom n = None)"

lemma unnamed_simps [simp]:
  "unnamed (w\<lparr>w_name := a\<rparr>) = unnamed w"
  "unnamed (w\<lparr>w_name := a, w_name_version := b\<rparr>) = unnamed w"
  by (simp_all add: unnamed_def)

lemma unnamed_fields:
  assumes "unnamed w = unnamed w'"
  shows "w_id w = w_id w'" "w_tabs w = w_tabs w'" "w_root_tab w = w_root_tab w'"
    "w_pinned_directory w = w_pinned_directory w'" "w_pin_version w = w_pin_version w'"
  using arg_cong [OF assms, of w_id] arg_cong [OF assms, of w_tabs] arg_cong [OF assms, of w_root_tab]
    arg_cong [OF assms, of w_pinned_directory] arg_cong [OF assms, of w_pin_version]
  by (simp_all add: unnamed_def)

lemma map_unnamed_fields:
  assumes "map unnamed ws = map unnamed ws'" "\<And>w w'. unnamed w = unnamed w' \<Longrightarrow> f w = f w'"
  shows "map f ws = map f ws'"
proof (rule nth_equalityI)
  have "length (map unnamed ws) = length (map unnamed ws')" using assms(1) by (rule arg_cong)
  then show len: "length (map f ws) = length (map f ws')" by simp
  fix i assume i: "i < length (map f ws)"
  have "map unnamed ws ! i = map unnamed ws' ! i" by (simp only: assms(1))
  then have "unnamed (ws ! i) = unnamed (ws' ! i)" using i len by simp
  then have "f (ws ! i) = f (ws' ! i)" by (rule assms(2))
  then show "map f ws ! i = map f ws' ! i" using i len by simp
qed

lemmas map_w_id_unnamed = map_unnamed_fields [OF _ unnamed_fields(1)]

lemma automatic_base_unnamed:
  assumes "unnamed w = unnamed w'"
  shows "automatic_base home w = automatic_base home w'"
proof -
  note f = unnamed_fields [OF assms]
  have "root_pane_of w = root_pane_of w'" by (simp add: f root_pane_of_def find_tab_def)
  then have "naming_directory w = naming_directory w'" by (simp add: f naming_directory_def split: option.split)
  then show ?thesis by (simp add: automatic_base_def)
qed

lemma find_naming_update:
  "find_naming (update_first (\<lambda>n. n_workspace n = i) (\<lambda>n. n\<lparr>n_automatic_base := b\<rparr>) names) j =
     (if j = i then map_option (\<lambda>n. n\<lparr>n_automatic_base := b\<rparr>) (find_naming names i) else find_naming names j)"
  by (induction names) (auto simp: find_naming_def)

lemma is_automatic_update [simp]:
  "is_automatic (update_first (\<lambda>n. n_workspace n = i) (\<lambda>n. n\<lparr>n_automatic_base := b\<rparr>) names) =
     is_automatic names"
  by (rule ext) (auto simp: is_automatic_def find_naming_update split: option.splits)

lemma classify_one_unnamed:
  "classify_one home names occ w = (w', occ', pending) \<Longrightarrow> unnamed w' = unnamed w"
  by (auto simp: classify_one_def Let_def split: option.splits if_splits)

lemma classify_unnamed:
  "classify home names occ ws = (tagged, occ') \<Longrightarrow> map (unnamed \<circ> fst) tagged = map unnamed ws"
  by (induction ws arbitrary: occ tagged) (auto split: prod.splits dest: classify_one_unnamed)

lemma allocate_unnamed:
  "allocate names occ tagged = (ws, names') \<Longrightarrow>
     map unnamed ws = map (unnamed \<circ> fst) tagged \<and> map naming_key names' = map naming_key names"
proof (induction names occ tagged arbitrary: ws rule: allocate.induct)
  case (3 names occ w base rest)
  show ?case
  proof (cases "find_naming names (w_id w)")
    case None
    with 3 show ?thesis by (auto split: prod.splits)
  next
    case (Some n)
    have "map naming_key (update_first (\<lambda>n. n_workspace n = w_id w) (\<lambda>n. n\<lparr>n_automatic_base := base\<rparr>) names)
        = map naming_key names" by (rule map_update_first) (simp add: naming_key_def)
    with Some 3(3) 3(2) [OF Some] show ?thesis by (auto simp: Let_def split: prod.splits if_splits)
  qed
qed (auto split: prod.splits)

lemma recalculate_names_keeps:
  "map unnamed (workspaces (recalculate_names s)) = map unnamed (workspaces s)"
  "map naming_key (st_names (recalculate_names s)) = map naming_key (st_names s)"
  "recalculate_names s = (set_workspaces (workspaces (recalculate_names s)) s)
     \<lparr>st_names := st_names (recalculate_names s)\<rparr>"
  by (auto simp: recalculate_names_def set_workspaces_def dest!: classify_unnamed allocate_unnamed split: prod.splits)

section \<open>Names do not collide\<close>

definition automatic_names :: "workspace_name list \<Rightarrow> workspace list \<Rightarrow> rust_string list" where
  "automatic_names names ws = map w_name (filter (is_automatic names) ws)"

definition kept_names :: "workspace_name list \<Rightarrow> (workspace \<times> rust_string option) list \<Rightarrow> rust_string list" where
  "kept_names names tagged = automatic_names names (map fst (filter (\<lambda>(w, pending). pending = None) tagged))"

definition pending_count :: "(workspace \<times> rust_string option) list \<Rightarrow> nat" where
  "pending_count tagged = length (filter (\<lambda>(w, pending). pending \<noteq> None) tagged)"

lemma names_simps [simp]:
  "automatic_names names [] = []"
  "automatic_names names (w # ws) =
     (if is_automatic names w then [w_name w] else []) @ automatic_names names ws"
  "kept_names names [] = []"
  "kept_names names ((w, pending) # tagged) =
     (if pending = None \<and> is_automatic names w then [w_name w] else []) @ kept_names names tagged"
  "pending_count [] = 0"
  "pending_count ((w, pending) # tagged) = (if pending = None then 0 else 1) + pending_count tagged"
  by (simp_all add: automatic_names_def kept_names_def pending_count_def)

lemma automatic_names_update [simp]:
  "automatic_names (update_first (\<lambda>n. n_workspace n = i) (\<lambda>n. n\<lparr>n_automatic_base := b\<rparr>) names) ws =
     automatic_names names ws"
  "kept_names (update_first (\<lambda>n. n_workspace n = i) (\<lambda>n. n\<lparr>n_automatic_base := b\<rparr>) names) tagged =
     kept_names names tagged"
  by (simp_all add: automatic_names_def kept_names_def)

text \<open>One turn of the first loop either leaves the Workspace aside, keeps its automatic name or marks
  it pending.\<close>

lemma classify_one_cases:
  assumes "classify_one home names occ w = (w', occ', pending)"
  obtains (aside) "\<not> is_automatic names w'" "occ' = occ" "pending = None"
      "\<forall>n c. find_naming names (w_id w') = Some n \<and> n_custom n = Some c \<longrightarrow> w_name w' = c"
      "find_naming names (w_id w') = None \<longrightarrow> w' = w"
    | (kept) n where "is_automatic names w'" "w' = w" "w_name w \<notin> set occ" "occ' = w_name w # occ"
      "pending = None" "find_naming names (w_id w) = Some n" "n_automatic_base n = automatic_base home w"
    | (moving) "is_automatic names w'" "w' = w" "occ' = occ" "pending = Some (automatic_base home w)"
proof (cases "find_naming names (w_id w)")
  case None
  with assms show ?thesis by (intro aside) (auto simp: classify_one_def is_automatic_def)
next
  case (Some n)
  show ?thesis
  proof (cases "n_custom n")
    case None
    show ?thesis
    proof (cases "n_automatic_base n = automatic_base home w \<and> w_name w \<notin> set occ")
      case True
      with None Some assms show ?thesis by (intro kept [of n]) (auto simp: classify_one_def is_automatic_def)
    next
      case False
      with None Some assms show ?thesis by (intro moving) (auto simp: classify_one_def is_automatic_def)
    qed
  next
    case (Some c)
    with \<open>find_naming names (w_id w) = Some n\<close> assms show ?thesis
      by (intro aside) (auto simp: classify_one_def is_automatic_def split: if_splits)
  qed
qed

lemma classify_names:
  "classify home names occ ws = (tagged, occ') \<Longrightarrow>
     distinct (kept_names names tagged) \<and> set (kept_names names tagged) \<inter> set occ = {} \<and>
     set occ' = set occ \<union> set (kept_names names tagged) \<and>
     length occ' + pending_count tagged = length occ + length (filter (is_automatic names) (map fst tagged))"
proof (induction ws arbitrary: occ tagged)
  case (Cons w ws)
  obtain w' occ1 pending where one: "classify_one home names occ w = (w', occ1, pending)"
    by (metis prod_cases3)
  with Cons.prems obtain rest where rest: "classify home names occ1 ws = (rest, occ')"
    and tagged: "tagged = (w', pending) # rest" by (auto split: prod.splits)
  note IH = Cons.IH [OF rest]
  from one show ?case
    by (cases rule: classify_one_cases) (use IH tagged in auto)
qed simp

lemma allocate_names:
  "allocate names occ tagged = (ws, names') \<Longrightarrow> distinct (kept_names names tagged) \<Longrightarrow>
     set (kept_names names tagged) \<subseteq> set occ \<Longrightarrow>
     \<forall>(w, pending)\<in>set tagged. pending \<noteq> None \<longrightarrow> is_automatic names w \<Longrightarrow>
     distinct (automatic_names names ws) \<and>
     set (automatic_names names ws) \<inter> set occ = set (kept_names names tagged)"
proof (induction names occ tagged arbitrary: ws rule: allocate.induct)
  case (2 names occ w rest)
  from 2(2) obtain ws1 where ws1: "allocate names occ rest = (ws1, names')" "ws = w # ws1"
    by (auto split: prod.splits)
  have "distinct (automatic_names names ws1) \<and>
     set (automatic_names names ws1) \<inter> set occ = set (kept_names names rest)"
    using 2(3-5) by (intro 2(1) [OF ws1(1)]) auto
  with 2(3,4) ws1(2) show ?case by auto
next
  case (3 names occ w base rest)
  let ?names = "update_first (\<lambda>n. n_workspace n = w_id w) (\<lambda>n. n\<lparr>n_automatic_base := base\<rparr>) names"
  let ?name = "unique_name base 2 base occ"
  from 3(6) obtain n where n: "find_naming names (w_id w) = Some n"
    by (auto simp: is_automatic_def split: option.splits)
  with 3(3) obtain ws1 w' where ws1: "allocate ?names (?name # occ) rest = (ws1, names')" "ws = w' # ws1"
    "w_name w' = ?name" "w_id w' = w_id w" by (auto simp: Let_def split: prod.splits if_splits)
  have "distinct (automatic_names ?names ws1) \<and>
     set (automatic_names ?names ws1) \<inter> set (?name # occ) = set (kept_names ?names rest)"
    using 3(4-6) by (intro 3(2) [OF n refl refl ws1(1)]) auto
  moreover have "is_automatic names w'" using 3(6) ws1(4) by (simp add: is_automatic_def)
  ultimately show ?case using 3(4,5) ws1(2,3) unique_name_free [of base 2 base occ] by auto
qed simp

lemma naming_key_eq:
  "map naming_key a = map naming_key b \<Longrightarrow>
     is_automatic a = is_automatic b \<and> custom_names a = custom_names b \<and>
     map n_workspace a = map n_workspace b \<and> map n_custom a = map n_custom b"
proof (induction a arbitrary: b)
  case Nil
  then show ?case by simp
next
  case (Cons n a)
  then obtain m b' where b: "b = m # b'" "naming_key n = naming_key m" "map naming_key a = map naming_key b'"
    by (auto simp: Cons_eq_map_conv)
  have IH: "is_automatic a = is_automatic b'" "custom_names a = custom_names b'"
    "map n_workspace a = map n_workspace b'" "map n_custom a = map n_custom b'"
    using Cons.IH [OF b(3)] by simp_all
  have head: "n_workspace n = n_workspace m" "n_custom n = n_custom m"
    using b(2) by (simp_all add: naming_key_def)
  have "is_automatic (n # a) w = is_automatic (m # b') w" for w
    using fun_cong [OF IH(1), of w] head by (simp add: is_automatic_def find_naming_def)
  then show ?case using IH head b(1) by (auto simp: custom_names_def map_filter_simps split: option.split)
qed

lemma recalculate_names_key:
  "is_automatic (st_names (recalculate_names s)) = is_automatic (st_names s)"
  "custom_names (st_names (recalculate_names s)) = custom_names (st_names s)"
  "map n_workspace (st_names (recalculate_names s)) = map n_workspace (st_names s)"
  "map n_custom (st_names (recalculate_names s)) = map n_custom (st_names s)"
  using naming_key_eq [OF recalculate_names_keeps(2)] by simp_all

lemma classify_pending:
  "classify home names occ ws = (tagged, occ') \<Longrightarrow> (w, Some base) \<in> set tagged \<Longrightarrow>
     is_automatic names w \<and> base = automatic_base home w \<and> w \<in> set ws"
proof (induction ws arbitrary: occ tagged)
  case (Cons v ws)
  obtain v' occ1 pending where one: "classify_one home names occ v = (v', occ1, pending)"
    by (metis prod_cases3)
  with Cons.prems obtain rest where rest: "classify home names occ1 ws = (rest, occ')"
    and tagged: "tagged = (v', pending) # rest" by (auto split: prod.splits)
  from one show ?case
    by (cases rule: classify_one_cases) (use Cons.IH [OF rest] Cons.prems(2) tagged in auto)
qed simp

lemma recalculate_names_steps:
  obtains tagged occ where
    "classify (st_home_directory s) (st_names s) (custom_names (st_names s)) (workspaces s) = (tagged, occ)"
    "allocate (st_names s) occ tagged = (workspaces (recalculate_names s), st_names (recalculate_names s))"
proof -
  obtain tagged occ where c:
    "classify (st_home_directory s) (st_names s) (custom_names (st_names s)) (workspaces s) = (tagged, occ)"
    by fastforce
  obtain ws names where a: "allocate (st_names s) occ tagged = (ws, names)" by fastforce
  have "workspaces (recalculate_names s) = ws" "st_names (recalculate_names s) = names"
    by (simp_all add: recalculate_names_def c a set_workspaces_def)
  with c a that show ?thesis by simp
qed

lemma recalculate_names_disjoint:
  "distinct (automatic_names (st_names s) (workspaces (recalculate_names s))) \<and>
   set (automatic_names (st_names s) (workspaces (recalculate_names s))) \<inter> set (custom_names (st_names s)) = {}"
proof -
  obtain tagged occ where c:
    "classify (st_home_directory s) (st_names s) (custom_names (st_names s)) (workspaces s) = (tagged, occ)"
    and a: "allocate (st_names s) occ tagged = (workspaces (recalculate_names s), st_names (recalculate_names s))"
    by (rule recalculate_names_steps)
  note cn = classify_names [OF c]
  have "distinct (automatic_names (st_names s) (workspaces (recalculate_names s))) \<and>
     set (automatic_names (st_names s) (workspaces (recalculate_names s))) \<inter> set occ = set (kept_names (st_names s) tagged)"
    using cn classify_pending [OF c] by (intro allocate_names [OF a]) auto
  with cn show ?thesis by auto
qed

section \<open>Names stay acceptable\<close>

lemma is_automaticD:
  assumes "is_automatic names w"
  obtains n where "n \<in> set names" "n_workspace n = w_id w" "n_custom n = None"
proof -
  from assms obtain n where n: "find_naming names (w_id w) = Some n" "n_custom n = None"
    by (auto simp: is_automatic_def split: option.splits)
  with find_SomeD [OF n(1) [unfolded find_naming_def]] that show ?thesis by blast
qed

lemma automatic_count:
  assumes "distinct (map w_id ws)"
  shows "length (custom_names names) + length (filter (is_automatic names) ws) \<le> length names"
proof -
  have "set (map w_id (filter (is_automatic names) ws)) \<subseteq>
      set (map n_workspace (filter (\<lambda>n. n_custom n = None) names))"
    by (auto elim!: is_automaticD intro: rev_image_eqI)
  then have "card (set (map w_id (filter (is_automatic names) ws))) \<le>
      length (map n_workspace (filter (\<lambda>n. n_custom n = None) names))"
    by (meson List.finite_set card_length card_mono le_trans)
  moreover have "card (set (map w_id (filter (is_automatic names) ws))) = length (filter (is_automatic names) ws)"
    using distinct_card [of "map w_id (filter (is_automatic names) ws)"] assms by (simp add: distinct_map_filter)
  moreover have "length (custom_names names) = length (filter (\<lambda>n. n_custom n \<noteq> None) names)"
    by (induction names) (auto simp: custom_names_def map_filter_simps split: option.split)
  ultimately show ?thesis using sum_length_filter_compl [of "\<lambda>n. n_custom n = None" names] by simp
qed

lemma allocate_valid:
  "allocate names occ tagged = (ws, names') \<Longrightarrow> length occ + pending_count tagged \<le> 98 \<Longrightarrow>
     \<forall>(w, pending)\<in>set tagged. valid_name (w_name w) \<or> pending \<noteq> None \<and> is_automatic names w \<Longrightarrow>
     \<forall>w base. (w, Some base) \<in> set tagged \<longrightarrow> base = automatic_base home w \<Longrightarrow>
     \<forall>w\<in>set ws. valid_name (w_name w)"
proof (induction names occ tagged arbitrary: ws rule: allocate.induct)
  case (3 names occ w base rest)
  show ?case
  proof (cases "find_naming names (w_id w)")
    case None
    with 3 show ?thesis by (auto simp: is_automatic_def split: prod.splits)
  next
    case (Some n)
    let ?names = "update_first (\<lambda>n. n_workspace n = w_id w) (\<lambda>n. n\<lparr>n_automatic_base := base\<rparr>) names"
    let ?name = "unique_name base 2 base occ"
    from Some 3(3) obtain ws1 w' where ws1: "allocate ?names (?name # occ) rest = (ws1, names')"
      "ws = w' # ws1" "w_name w' = ?name" by (auto simp: Let_def split: prod.splits if_splits)
    have "\<forall>w\<in>set ws1. valid_name (w_name w)"
      using 3(4-6) by (intro 3(2) [OF Some refl refl ws1(1)]) auto
    moreover have "valid_name ?name" using 3(4,6) valid_unique_name [of occ home w] by auto
    ultimately show ?thesis using ws1(2,3) by simp
  qed
qed (auto split: prod.splits)

text \<open>A Workspace that has never been named.\<close>

definition awaits_name :: "workspace_name list \<Rightarrow> workspace \<Rightarrow> bool" where
  "awaits_name names w \<longleftrightarrow>
     (case find_naming names (w_id w) of None \<Rightarrow> False | Some n \<Rightarrow> n_automatic_base n = [])"

lemma automatic_base_nonempty [simp]: "automatic_base home w \<noteq> []"
  using automatic_base_plain [of home w] by (auto simp: trim_def trim_start_def)

lemma classify_valid:
  assumes "classify home names occ ws = (tagged, occ')"
    "\<forall>w\<in>set ws. valid_name (w_name w) \<or> awaits_name names w"
    "\<forall>n\<in>set names. \<forall>c. n_custom n = Some c \<longrightarrow> valid_name c"
  shows "\<forall>(w, pending)\<in>set tagged. valid_name (w_name w) \<or> pending \<noteq> None \<and> is_automatic names w"
  using assms(1,2)
proof (induction ws arbitrary: occ tagged)
  case (Cons v ws)
  obtain v' occ1 pending where one: "classify_one home names occ v = (v', occ1, pending)"
    by (metis prod_cases3)
  with Cons.prems obtain rest where rest: "classify home names occ1 ws = (rest, occ')"
    and tagged: "tagged = (v', pending) # rest" by (auto split: prod.splits)
  have "valid_name (w_name v') \<or> pending \<noteq> None \<and> is_automatic names v'"
  proof (cases "find_naming names (w_id v)")
    case None
    with one Cons.prems(2) show ?thesis by (auto simp: classify_one_def awaits_name_def)
  next
    case (Some n)
    then have "n \<in> set names" by (auto simp: find_naming_def dest: find_SomeD)
    with Some one Cons.prems(2) assms(3) show ?thesis
      by (auto simp: classify_one_def Let_def awaits_name_def is_automatic_def split: option.splits if_splits)
  qed
  then show ?case using Cons.IH [OF rest] Cons.prems(2) tagged by auto
qed simp

lemma recalculate_names_valid:
  assumes "distinct (map w_id (workspaces s))" "length (st_names s) \<le> 98"
    "\<forall>w\<in>set (workspaces s). valid_name (w_name w) \<or> awaits_name (st_names s) w"
    "\<forall>n\<in>set (st_names s). \<forall>c. n_custom n = Some c \<longrightarrow> valid_name c"
  shows "\<forall>w\<in>set (workspaces (recalculate_names s)). valid_name (w_name w)"
proof -
  obtain tagged occ where c:
    "classify (st_home_directory s) (st_names s) (custom_names (st_names s)) (workspaces s) = (tagged, occ)"
    and a: "allocate (st_names s) occ tagged = (workspaces (recalculate_names s), st_names (recalculate_names s))"
    by (rule recalculate_names_steps)
  have "map w_id (map fst tagged) = map w_id (workspaces s)"
    using classify_unnamed [OF c] by (intro map_w_id_unnamed) simp
  then have "length occ + pending_count tagged \<le> 98"
    using classify_names [OF c] automatic_count [of "map fst tagged" "st_names s"] assms(1,2) by simp
  then show ?thesis
    using classify_valid [OF c assms(3,4)] classify_pending [OF c] by (intro allocate_valid [OF a]) auto
qed

section \<open>A second pass changes nothing\<close>

definition settled :: "path option \<Rightarrow> workspace_name list \<Rightarrow> workspace \<Rightarrow> bool" where
  "settled home names w \<longleftrightarrow>
     (case find_naming names (w_id w) of
        None \<Rightarrow> True
      | Some n \<Rightarrow> (case n_custom n of
           Some c \<Rightarrow> w_name w = c | None \<Rightarrow> n_automatic_base n = automatic_base home w))"

lemma settled_classify:
  "\<forall>w\<in>set ws. settled home names w \<Longrightarrow> distinct (automatic_names names ws) \<Longrightarrow>
     set (automatic_names names ws) \<inter> set occ = {} \<Longrightarrow>
     \<exists>occ'. classify home names occ ws = (map (\<lambda>w. (w, None)) ws, occ')"
proof (induction ws arbitrary: occ)
  case (Cons w ws)
  have "\<exists>occ1. classify_one home names occ w = (w, occ1, None) \<and>
      set (automatic_names names ws) \<inter> set occ1 = {}"
    using Cons.prems by (auto simp: classify_one_def settled_def is_automatic_def split: option.splits)
  then obtain occ1 where "classify_one home names occ w = (w, occ1, None)"
    "set (automatic_names names ws) \<inter> set occ1 = {}" by blast
  with Cons.IH [of occ1] Cons.prems show ?case by (auto split: if_splits)
qed simp

lemma allocate_nothing: "allocate names occ (map (\<lambda>w. (w, None)) ws) = (ws, names)"
  by (induction ws) simp_all

lemma allocate_find:
  "allocate names occ tagged = (ws, names') \<Longrightarrow> i \<notin> w_id ` fst ` set tagged \<Longrightarrow>
     find_naming names' i = find_naming names i"
proof (induction names occ tagged arbitrary: ws rule: allocate.induct)
  case (3 names occ w base rest)
  then show ?case
    by (cases "find_naming names (w_id w)") (auto simp: Let_def find_naming_update split: prod.splits if_splits)
qed (auto split: prod.splits)

lemma settled_name [simp]: "is_automatic names w \<Longrightarrow> settled home names (w\<lparr>w_name := a, w_name_version := b\<rparr>) =
    settled home names w"
  by (auto simp: settled_def is_automatic_def automatic_base_unnamed [of "w\<lparr>w_name := a, w_name_version := b\<rparr>" w]
      split: option.splits)

lemma allocate_settled:
  "allocate names occ tagged = (ws, names') \<Longrightarrow> distinct (map (w_id \<circ> fst) tagged) \<Longrightarrow>
     \<forall>w. (w, None) \<in> set tagged \<longrightarrow> settled home names w \<Longrightarrow>
     \<forall>w base. (w, Some base) \<in> set tagged \<longrightarrow> is_automatic names w \<and> base = automatic_base home w \<Longrightarrow>
     \<forall>w\<in>set ws. settled home names' w"
proof (induction names occ tagged arbitrary: ws rule: allocate.induct)
  case (2 names occ w rest)
  from 2(2) obtain ws1 where ws1: "allocate names occ rest = (ws1, names')" "ws = w # ws1"
    by (auto split: prod.splits)
  have "find_naming names' (w_id w) = find_naming names (w_id w)"
    using 2(3) by (intro allocate_find [OF ws1(1)]) auto
  then have "settled home names' w" using 2(4) by (simp add: settled_def)
  then show ?case using 2(1) [OF ws1(1)] 2(3-5) ws1(2) by auto
next
  case (3 names occ w base rest)
  let ?names = "update_first (\<lambda>n. n_workspace n = w_id w) (\<lambda>n. n\<lparr>n_automatic_base := base\<rparr>) names"
  let ?name = "unique_name base 2 base occ"
  have auto: "is_automatic names w" "base = automatic_base home w" using 3(6) by auto
  then obtain n where n: "find_naming names (w_id w) = Some n" "n_custom n = None"
    by (auto simp: is_automatic_def split: option.splits)
  with 3(3) obtain ws1 w' where ws1: "allocate ?names (?name # occ) rest = (ws1, names')" "ws = w' # ws1"
    "unnamed w' = unnamed w" by (auto simp: Let_def split: prod.splits if_splits)
  have "find_naming names' (w_id w) = find_naming ?names (w_id w)"
    using 3(4) by (intro allocate_find [OF ws1(1)]) auto
  then have "settled home names' w'"
    using n auto unnamed_fields(1) [OF ws1(3)] automatic_base_unnamed [OF ws1(3), of home]
    by (simp add: settled_def find_naming_update)
  moreover have "settled home ?names v" if "(v, None) \<in> set rest" for v
  proof -
    have "w_id v \<noteq> w_id w" using 3(4) that by force
    then show ?thesis using 3(5) that by (auto simp: settled_def find_naming_update)
  qed
  ultimately show ?case using 3(2) [OF n(1) refl refl ws1(1)] 3(4,6) ws1(2) by auto
qed simp

lemma classify_settled:
  "classify home names occ ws = (tagged, occ') \<Longrightarrow> (w, None) \<in> set tagged \<Longrightarrow> settled home names w"
proof (induction ws arbitrary: occ tagged)
  case (Cons v ws)
  obtain v' occ1 pending where one: "classify_one home names occ v = (v', occ1, pending)"
    by (metis prod_cases3)
  with Cons.prems obtain rest where rest: "classify home names occ1 ws = (rest, occ')"
    and tagged: "tagged = (v', pending) # rest" by (auto split: prod.splits)
  have "settled home names v'" if "pending = None"
    using one that
    by (cases rule: classify_one_cases) (auto simp: settled_def is_automatic_def split: option.splits)
  then show ?case using Cons.IH [OF rest] Cons.prems(2) tagged by auto
qed simp

lemma recalculate_names_settled:
  assumes "distinct (map w_id (workspaces s))"
  shows "\<forall>w\<in>set (workspaces (recalculate_names s)).
    settled (st_home_directory s) (st_names (recalculate_names s)) w"
proof -
  obtain tagged occ where c:
    "classify (st_home_directory s) (st_names s) (custom_names (st_names s)) (workspaces s) = (tagged, occ)"
    and a: "allocate (st_names s) occ tagged = (workspaces (recalculate_names s), st_names (recalculate_names s))"
    by (rule recalculate_names_steps)
  have "map w_id (map fst tagged) = map w_id (workspaces s)"
    using classify_unnamed [OF c] by (intro map_w_id_unnamed) simp
  then have "distinct (map (w_id \<circ> fst) tagged)" using assms by (metis map_map)
  then show ?thesis
    using classify_settled [OF c] classify_pending [OF c] by (intro allocate_settled [OF a]) auto
qed

lemma recalculate_names_fields [simp]:
  "st_home_directory (recalculate_names s) = st_home_directory s"
  "st_worktree_settings (recalculate_names s) = st_worktree_settings s"
  "inv_revision (st_inventory (recalculate_names s)) = inv_revision (st_inventory s)"
  "inv_close (st_inventory (recalculate_names s)) = inv_close (st_inventory s)"
  "inv_repositories (st_inventory (recalculate_names s)) = inv_repositories (st_inventory s)"
  "st_devices (recalculate_names s) = st_devices s"
  "st_sequence_floor (recalculate_names s) = st_sequence_floor s"
  "st_creator_boot (recalculate_names s) = st_creator_boot s"
  "st_session_ends (recalculate_names s) = st_session_ends s"
  by (simp_all add: recalculate_names_def set_workspaces_def split: prod.splits)

section \<open>Properties\<close>

text \<open>A state with two Workspaces at the same directory, whose names are still to be computed.\<close>

definition twin_state :: state where
  "twin_state =
     (let s = first_state 1 2 3 (lit ''/home/dev'')
      in (set_workspaces [first_workspace 1 2 3 (lit ''/srv/app''), first_workspace 4 5 6 (lit ''/srv/app'')] s)
         \<lparr>st_names := [\<lparr>n_workspace = 1, n_custom = None, n_automatic_base = lit ''Default''\<rparr>,
                      \<lparr>n_workspace = 4, n_custom = None, n_automatic_base = lit ''Default''\<rparr>]\<rparr>)"

text \<open>C8. After \<open>recalculate_names\<close> the automatic names are pairwise different, and none of them is a
  custom name.\<close>

theorem recalculate_names_unique:
  "distinct (automatic_names (st_names (recalculate_names s)) (workspaces (recalculate_names s))) \<and>
   set (automatic_names (st_names (recalculate_names s)) (workspaces (recalculate_names s))) \<inter>
     set (custom_names (st_names (recalculate_names s))) = {}"
  using recalculate_names_disjoint [of s] recalculate_names_key [of s]
  by (simp add: automatic_names_def)

text \<open>C9. A second \<open>recalculate_names\<close> changes nothing: no Workspace is renamed and no name version
  moves unless a base, a custom name or a directory changed.\<close>

theorem recalculate_names_idempotent:
  assumes "distinct (map w_id (workspaces s))"
  shows "recalculate_names (recalculate_names s) = recalculate_names s"
proof -
  let ?s = "recalculate_names s"
  have dis: "distinct (automatic_names (st_names ?s) (workspaces ?s))"
    "set (automatic_names (st_names ?s) (workspaces ?s)) \<inter> set (custom_names (st_names ?s)) = {}"
    using recalculate_names_disjoint [of s] recalculate_names_key [of s]
    by (simp_all add: automatic_names_def)
  obtain occ where "classify (st_home_directory ?s) (st_names ?s) (custom_names (st_names ?s)) (workspaces ?s)
      = (map (\<lambda>w. (w, None)) (workspaces ?s), occ)"
    using settled_classify [OF _ dis, of "st_home_directory ?s"] recalculate_names_settled [OF assms] by auto
  then show ?thesis
    by (subst recalculate_names_def) (simp add: allocate_nothing set_workspaces_def)
qed

lemma twin_names: "map w_name (workspaces (recalculate_names twin_state)) = [lit ''app'', lit ''app (2)'']"
  by (simp add: twin_state_def run_simps)

theorem recalculate_names_idempotent_witness:
  "map w_name (workspaces (recalculate_names (recalculate_names twin_state))) = [lit ''app'', lit ''app (2)''] \<and>
   recalculate_names (recalculate_names twin_state) = recalculate_names twin_state"
proof -
  have "recalculate_names (recalculate_names twin_state) = recalculate_names twin_state"
    by (rule recalculate_names_idempotent) (simp add: twin_state_def run_simps)
  then show ?thesis by (simp only: twin_names)
qed

text \<open>C10. Names stay acceptable to the state's validation: with distinct Workspaces, at most
  \<open>MAX_WORKSPACES\<close> namings, and every Workspace named acceptably or not named yet, every name is non-blank, has at most 256 bytes
  and holds no control character afterwards, the collision suffix included.\<close>

theorem recalculate_names_acceptable:
  assumes "distinct (map w_id (workspaces s))" "length (st_names s) \<le> MAX_WORKSPACES"
    "\<forall>w\<in>set (workspaces s). valid_name (w_name w) \<or> awaits_name (st_names s) w"
    "\<forall>n\<in>set (st_names s). \<forall>c. n_custom n = Some c \<longrightarrow> valid_name c"
  shows "\<forall>w\<in>set (workspaces (recalculate_names s)). valid_name (w_name w)"
  using assms by (intro recalculate_names_valid) (simp_all add: MAX_WORKSPACES_def)

theorem recalculate_names_acceptable_witness:
  "list_all (\<lambda>w. valid_name (w_name w)) (workspaces (recalculate_names twin_state))"
  unfolding list_all_iff
  by (rule recalculate_names_acceptable) (simp_all add: twin_state_def valid_name_def run_simps)

end
