(* ===== verification/Edits.thy ===== *)
theory Edits
  imports Naming
begin

text \<open>
  One edit of the hierarchy (\<open>State::edit\<close> and the other operations of \<open>hierarchy.rs\<close> that change
  membership or directories). \<open>edit\<close> is one arm per mutation, as in the source: an arm yields the
  target it changed, returns an outcome early, or refuses; then the names are recalculated and the
  revision advances. The state is returned on every path. \<open>rnd k\<close> is what the k-th call of
  \<open>protocol::random\<close> in the operation returns, \<open>None\<close> where the system has no randomness, and
  \<open>validate_pin\<close> is the server's check of a directory.
\<close>

section \<open>Operations\<close>

datatype step = Target Id | Return outcome | Refuse refusal

definition tab_count :: "state \<Rightarrow> nat" where
  "tab_count s = sum_list (map (\<lambda>w. length (w_tabs w)) (workspaces s))"

definition pane_count :: "state \<Rightarrow> nat" where
  "pane_count s = sum_list (map (\<lambda>t. length (t_panes t)) (concat (map w_tabs (workspaces s))))"

definition pane_of :: "state \<Rightarrow> Id \<Rightarrow> (workspace \<times> tab \<times> pane) option" where
  "pane_of s pid =
     find_map (\<lambda>w. find_map (\<lambda>t. map_option (\<lambda>p. (w, t, p)) (find_pane t pid)) (w_tabs w)) (workspaces s)"

text \<open>\<open>self.inventory.revision += 1\<close>, which wraps in a release build.\<close>

definition bump_revision :: "state \<Rightarrow> state" where
  "bump_revision s = set_revision (wrapping_add (inv_revision (st_inventory s)) 1) s"

definition remove_pane :: "Id \<Rightarrow> state \<Rightarrow> state" where
  "remove_pane pid s =
     (let ws = filter (\<lambda>w. w_tabs w \<noteq> []) (map (workspace_without_pane pid) (workspaces s));
          names = filter (\<lambda>n. list_ex (\<lambda>w. w_id w = n_workspace n) ws) (st_names s);
          s' = recalculate_names ((set_workspaces ws s)\<lparr>st_names := names\<rparr>)
      in bump_revision s')"

text \<open>The state with one Workspace changed, the first with the identity.\<close>

definition put_workspace :: "Id \<Rightarrow> (workspace \<Rightarrow> workspace) \<Rightarrow> state \<Rightarrow> state" where
  "put_workspace i f s = set_workspaces (update_first (\<lambda>w. w_id w = i) f (workspaces s)) s"

definition end_all_sessions :: "close_inventory \<Rightarrow> state \<Rightarrow> step \<times> state" where
  "end_all_sessions confirmation s =
     (case inv_close (st_inventory s) of
        None \<Rightarrow> (Return StaleConfirmation, s)
      | Some live \<Rightarrow>
          if ci_boot live \<noteq> ci_boot confirmation \<or> ci_sessions live \<noteq> ci_sessions confirmation
          then (Return StaleConfirmation, s)
          else (Target (ci_boot confirmation), s\<lparr>st_session_ends := Some confirmation\<rparr>))"

text \<open>The fence on controls: every confirmed Pane is controlled by the requesting device, under the
  epoch that was reviewed.\<close>

definition own_controls_current :: "Id \<Rightarrow> close_confirmation \<Rightarrow> inventory \<Rightarrow> bool" where
  "own_controls_current device confirmation iv =
     (case cf_own_controls confirmation of
        None \<Rightarrow> True
      | Some reviewed \<Rightarrow>
          \<not> (length reviewed \<noteq> length (cf_panes confirmation) \<or>
             list_ex (\<lambda>p. length (filter (\<lambda>c. cc_pane c = cp_id p \<and> cc_session c = cp_session p \<and>
                 cc_owner c = device \<and>
                 (case inv_close iv of None \<Rightarrow> False | Some live \<Rightarrow> c \<in> set (ci_controls live))) reviewed) \<noteq> 1)
               (cf_panes confirmation)))"

definition close_target_id :: "close_target \<Rightarrow> Id" where
  "close_target_id target = (case target of
     ClosePane _ _ pane \<Rightarrow> pane | CloseTab _ tab \<Rightarrow> tab | KillWorkspace w \<Rightarrow> w | CloseWorktree w _ \<Rightarrow> w)"

definition is_worktree_target :: "close_target \<Rightarrow> bool" where
  "is_worktree_target target = (case target of CloseWorktree _ _ \<Rightarrow> True | _ \<Rightarrow> False)"

definition edit_close :: "Id \<Rightarrow> close_target \<Rightarrow> close_confirmation \<Rightarrow> state \<Rightarrow> step \<times> state" where
  "edit_close device target confirmation s =
     (case close_panes (st_inventory s) target of
        None \<Rightarrow> (Return Missing, s)
      | Some ids \<Rightarrow>
          if (case close_confirmation_of (st_inventory s) target of
                None \<Rightarrow> True | Some current \<Rightarrow> \<not> same_targets current confirmation)
          then (Return StaleConfirmation, s)
          else if \<not> own_controls_current device confirmation (st_inventory s)
          then (Return StaleConfirmation, s)
          else if is_worktree_target target \<and> cf_removes_workspace confirmation
          then (Return Invalid, s)
          else (Target (close_target_id target), fold remove_pane ids s))"

definition create_workspace :: "(nat \<Rightarrow> Id option) \<Rightarrow> (path \<Rightarrow> bool) \<Rightarrow> path \<Rightarrow> Id \<Rightarrow>
    rust_string \<Rightarrow> path option \<Rightarrow> create_control \<Rightarrow> state \<Rightarrow> step \<times> state" where
  "create_workspace rnd validate_pin directory device name pin control s =
     (let by = creator control device (st_inventory s) in
      if trim name \<noteq> [] \<and> \<not> valid_name name \<or>
         (case pin of None \<Rightarrow> False | Some p \<Rightarrow> \<not> validate_pin p)
      then (Return Invalid, s)
      else if length (workspaces s) \<ge> MAX_WORKSPACES \<or> pane_count s \<ge> MAX_PANES \<or> tab_count s \<ge> MAX_TABS
      then (Return Limit, s)
      else case rnd 0 of None \<Rightarrow> (Refuse Failed, s) | Some i \<Rightarrow>
           (case rnd 1 of None \<Rightarrow> (Refuse Failed, s) | Some t \<Rightarrow>
           (case rnd 2 of None \<Rightarrow> (Refuse Failed, s) | Some p \<Rightarrow>
             (Target i,
              (set_workspaces (workspaces s @
                 [\<lparr>w_id = i, w_name = trim name, w_name_version = 0, w_pin_version = 0,
                   w_pinned_directory = pin, w_root_tab = t,
                   w_tabs = [\<lparr>t_membership = Following, t_worktree = None, t_worktree_repository = None,
                     t_id = t, t_root_pane = p,
                     t_panes = [new_pane p None SideRight
                       (case pin of Some d \<Rightarrow> d | None \<Rightarrow> directory) by]\<rparr>]\<rparr>]) s)
              \<lparr>st_names := st_names s @ [\<lparr>n_workspace = i,
                 n_custom = (if trim name \<noteq> [] then Some (trim name) else None),
                 n_automatic_base = []\<rparr>]\<rparr>))))"

definition create_tab :: "(nat \<Rightarrow> Id option) \<Rightarrow> (path \<Rightarrow> bool) \<Rightarrow> Id \<Rightarrow>
    Id \<Rightarrow> Id option \<Rightarrow> create_control \<Rightarrow> state \<Rightarrow> step \<times> state" where
  "create_tab rnd validate_pin device workspace source control s =
     (if tab_count s \<ge> MAX_TABS \<or> pane_count s \<ge> MAX_PANES then (Return Limit, s)
      else
        let by = creator control device (st_inventory s) in
        case find_workspace (st_inventory s) workspace of
          None \<Rightarrow> (Return Missing, s)
        | Some w \<Rightarrow>
            (case (case source of
                     Some i \<Rightarrow> List.find (\<lambda>p. p_id p = i) (concat (map t_panes (w_tabs w)))
                   | None \<Rightarrow> root_pane_of w) of
               None \<Rightarrow> (Return Missing, s)
             | Some source \<Rightarrow>
                 let start = (case w_pinned_directory w of Some d \<Rightarrow> d | None \<Rightarrow> restored_directory source)
                 in if \<not> validate_pin start then (Return Invalid, s)
                    else case rnd 0 of None \<Rightarrow> (Refuse Failed, s) | Some i \<Rightarrow>
                        (case rnd 1 of None \<Rightarrow> (Refuse Failed, s) | Some p \<Rightarrow>
                          (Target i, put_workspace workspace (\<lambda>w. w\<lparr>w_tabs := w_tabs w @
                             [\<lparr>t_membership = Following, t_worktree = None, t_worktree_repository = None,
                               t_id = i, t_root_pane = p,
                               t_panes = [new_pane p None SideRight start by]\<rparr>]\<rparr>) s))))"

definition split_pane :: "(nat \<Rightarrow> Id option) \<Rightarrow> (path \<Rightarrow> bool) \<Rightarrow> path \<Rightarrow> Id \<Rightarrow>
    Id \<Rightarrow> Id \<Rightarrow> Id \<Rightarrow> axis \<Rightarrow> create_control \<Rightarrow> state \<Rightarrow> step \<times> state" where
  "split_pane rnd validate_pin directory device workspace tab source axis control s =
     (if pane_count s \<ge> MAX_PANES then (Return Limit, s)
      else
        let by = creator control device (st_inventory s) in
        case find_workspace (st_inventory s) workspace of
          None \<Rightarrow> (Return Missing, s)
        | Some w \<Rightarrow>
        (case find_tab w tab of
           None \<Rightarrow> (Return Missing, s)
         | Some t \<Rightarrow>
        (case find_pane t source of
           None \<Rightarrow> (Return Missing, s)
         | Some p \<Rightarrow>
             let start = (if t_worktree t \<noteq> None then directory
                          else case w_pinned_directory w of Some d \<Rightarrow> d | None \<Rightarrow> restored_directory p)
             in if \<not> validate_pin start then (Return Invalid, s)
                else case rnd 0 of None \<Rightarrow> (Refuse Failed, s) | Some i \<Rightarrow>
                  (Target i, put_workspace workspace (\<lambda>w. w\<lparr>w_tabs := update_first (\<lambda>t. t_id t = tab)
                     (\<lambda>t. t\<lparr>t_panes := t_panes t @
                        [new_pane i (Some source) (side_of_axis axis) start by]\<rparr>) (w_tabs w)\<rparr>) s))))"

text \<open>What an arm makes of a membership edit on one Workspace.\<close>

definition membership_step :: "Id \<Rightarrow> Id \<Rightarrow> (outcome + unit) \<times> workspace \<Rightarrow> state \<Rightarrow> step \<times> state" where
  "membership_step workspace target edited s =
     (let s' = put_workspace workspace (\<lambda>_. snd edited) s
      in case fst edited of Inl refusal \<Rightarrow> (Return refusal, s') | Inr _ \<Rightarrow> (Target target, s'))"

definition move_pane :: "(nat \<Rightarrow> Id option) \<Rightarrow> Id \<Rightarrow> Id \<Rightarrow> Id \<Rightarrow> pane_destination \<Rightarrow> state \<Rightarrow> step \<times> state" where
  "move_pane rnd workspace tab pane dest s =
     (if dest = NewTab \<and> tab_count s \<ge> MAX_TABS then (Return Limit, s)
      else case find_workspace (st_inventory s) workspace of
        None \<Rightarrow> (Return Missing, s)
      | Some w \<Rightarrow>
          (case dest of
             NewTab \<Rightarrow>
               (case rnd 0 of None \<Rightarrow> (Refuse Failed, s)
                | Some i \<Rightarrow> membership_step workspace i (move_pane_to_new_tab tab pane i w) s)
           | Beside into beside side \<Rightarrow>
               membership_step workspace pane (move_pane_beside tab pane into beside side w) s))"

definition merge_tabs :: "Id \<Rightarrow> Id \<Rightarrow> Id \<Rightarrow> Id \<Rightarrow> side \<Rightarrow> state \<Rightarrow> step \<times> state" where
  "merge_tabs workspace tab into beside side s =
     (case find_workspace (st_inventory s) workspace of
        None \<Rightarrow> (Return Missing, s)
      | Some w \<Rightarrow> membership_step workspace into (merge_tab tab into beside side w) s)"

definition rename_workspace :: "Id \<Rightarrow> u64 \<Rightarrow> rust_string \<Rightarrow> state \<Rightarrow> step \<times> state" where
  "rename_workspace workspace version name s =
     (if \<not> valid_name name then (Return Invalid, s)
      else case find_workspace (st_inventory s) workspace of
        None \<Rightarrow> (Return Missing, s)
      | Some w \<Rightarrow>
          if version \<noteq> w_name_version w then (Return Conflict, s)
          else case find_naming (st_names s) workspace of
            None \<Rightarrow> (Refuse Failed, s)
          | Some _ \<Rightarrow>
              (Target workspace,
               (put_workspace workspace (\<lambda>w. w\<lparr>w_name_version := wrapping_add (w_name_version w) 1\<rparr>) s)
               \<lparr>st_names := update_first (\<lambda>n. n_workspace n = workspace)
                  (\<lambda>n. n\<lparr>n_custom := Some (trim name)\<rparr>) (st_names s)\<rparr>))"

definition pin_workspace :: "(path \<Rightarrow> bool) \<Rightarrow> Id \<Rightarrow> u64 \<Rightarrow> path option \<Rightarrow> state \<Rightarrow> step \<times> state" where
  "pin_workspace validate_pin workspace version directory s =
     (case find_workspace (st_inventory s) workspace of
        None \<Rightarrow> (Return Missing, s)
      | Some w \<Rightarrow>
          if version \<noteq> w_pin_version w then (Return Conflict, s)
          else if (case directory of None \<Rightarrow> False | Some p \<Rightarrow> \<not> validate_pin p) then (Return Invalid, s)
          else (Target workspace, put_workspace workspace
                 (\<lambda>w. w\<lparr>w_pinned_directory := directory,
                        w_pin_version := wrapping_add (w_pin_version w) 1\<rparr>) s))"

fun edit_target :: "(nat \<Rightarrow> Id option) \<Rightarrow> (path \<Rightarrow> bool) \<Rightarrow> path \<Rightarrow> Id \<Rightarrow> path_mutation \<Rightarrow> state \<Rightarrow>
    step \<times> state" where
  "edit_target rnd validate_pin directory device (EndAllSessions confirmation) s =
     end_all_sessions confirmation s"
| "edit_target rnd validate_pin directory device (Worktree _) s = (Return Pending, s)"
| "edit_target rnd validate_pin directory device (Close target confirmation) s =
     edit_close device target confirmation s"
| "edit_target rnd validate_pin directory device (CreateWorkspace name pin control) s =
     create_workspace rnd validate_pin directory device name pin control s"
| "edit_target rnd validate_pin directory device (CreateTab workspace source control) s =
     create_tab rnd validate_pin device workspace source control s"
| "edit_target rnd validate_pin directory device (SplitPane workspace tab source axis control) s =
     split_pane rnd validate_pin directory device workspace tab source axis control s"
| "edit_target rnd validate_pin directory device (MovePane workspace tab pane dest) s =
     move_pane rnd workspace tab pane dest s"
| "edit_target rnd validate_pin directory device (MergeTab workspace tab into beside side) s =
     merge_tabs workspace tab into beside side s"
| "edit_target rnd validate_pin directory device (RenameWorkspace workspace version name) s =
     rename_workspace workspace version name s"
| "edit_target rnd validate_pin directory device (PinWorkspace workspace version pin) s =
     pin_workspace validate_pin workspace version pin s"

definition with_home :: "path \<Rightarrow> state \<Rightarrow> state" where
  "with_home directory s =
     (case st_home_directory s of None \<Rightarrow> s\<lparr>st_home_directory := Some directory\<rparr> | Some _ \<Rightarrow> s)"

definition finish_edit :: "step \<times> state \<Rightarrow> (refusal + outcome) \<times> state" where
  "finish_edit r =
     (case fst r of
        Return out \<Rightarrow> (Inr out, snd r)
      | Refuse refusal \<Rightarrow> (Inl refusal, snd r)
      | Target target \<Rightarrow>
          let s = recalculate_names (snd r)
          in case checked_add (inv_revision (st_inventory s)) 1 of
               None \<Rightarrow> (Inl Capacity, s)
             | Some revision \<Rightarrow> (Inr (Accepted target), set_revision revision s))"

definition edit :: "(nat \<Rightarrow> Id option) \<Rightarrow> (path \<Rightarrow> bool) \<Rightarrow> path \<Rightarrow> Id \<Rightarrow> path_mutation \<Rightarrow> state \<Rightarrow>
    (refusal + outcome) \<times> state" where
  "edit rnd validate_pin directory device mutation s =
     finish_edit (edit_target rnd validate_pin directory device mutation (with_home directory s))"

section \<open>Other operations on the hierarchy\<close>

text \<open>The nested loops that stop at the first Tab holding the Pane: \<open>g\<close> changes that Tab.\<close>

definition put_tab_of_pane :: "Id \<Rightarrow> (tab \<Rightarrow> tab) \<Rightarrow> state \<Rightarrow> state" where
  "put_tab_of_pane pid g s =
     set_workspaces (update_first (\<lambda>w. list_ex (\<lambda>t. holds_pane t pid) (w_tabs w))
       (\<lambda>w. w\<lparr>w_tabs := update_first (\<lambda>t. holds_pane t pid) g (w_tabs w)\<rparr>) (workspaces s)) s"

definition put_pane :: "Id \<Rightarrow> (pane \<Rightarrow> pane) \<Rightarrow> state \<Rightarrow> state" where
  "put_pane pid f s =
     put_tab_of_pane pid (\<lambda>t. t\<lparr>t_panes := update_first (\<lambda>p. p_id p = pid) f (t_panes t)\<rparr>) s"

definition repair_directory :: "Id \<Rightarrow> path \<Rightarrow> state \<Rightarrow> (refusal + unit) \<times> state" where
  "repair_directory pid path s =
     (case pane_of s pid of
        None \<Rightarrow> (Inl RefusedMissing, s)
      | Some _ \<Rightarrow>
          let s' = recalculate_names (put_tab_of_pane pid
                (\<lambda>t. t\<lparr>t_panes := update_first (\<lambda>p. p_id p = pid)
                         (\<lambda>p. p\<lparr>p_confirmed_directory := Some path\<rparr>) (t_panes t),
                       t_membership := Repaired\<rparr>) s)
          in case checked_add (inv_revision (st_inventory s')) 1 of
               None \<Rightarrow> (Inl Capacity, s')
             | Some revision \<Rightarrow> (Inr (), set_revision revision s'))"

definition confirm_directory :: "Id \<Rightarrow> path \<Rightarrow> state \<Rightarrow> state" where
  "confirm_directory pid path s =
     (case pane_of s pid of
        None \<Rightarrow> s
      | Some (_, _, p) \<Rightarrow>
          if \<not> opt_path_eq (p_confirmed_directory p) (Some path)
          then bump_revision (recalculate_names (put_pane pid (\<lambda>p. p\<lparr>p_confirmed_directory := Some path\<rparr>) s))
          else s)"

definition present_presentation :: "Id \<Rightarrow> snapshot option \<Rightarrow> state \<Rightarrow> state" where
  "present_presentation pid snap s = put_pane pid (\<lambda>p. p\<lparr>p_presentation := snap\<rparr>) s"

definition present_directory :: "Id \<Rightarrow> path \<Rightarrow> state \<Rightarrow> state" where
  "present_directory pid path s =
     (case pane_of s pid of
        None \<Rightarrow> s
      | Some (_, _, p) \<Rightarrow>
          if \<not> path_eq (presented_directory p) path
          then bump_revision (recalculate_names (put_pane pid (\<lambda>p. p\<lparr>p_current_directory := Some path\<rparr>) s))
          else s)"

definition present_repository_directory :: "Id \<Rightarrow> path \<Rightarrow> state \<Rightarrow> state" where
  "present_repository_directory pid path s =
     (case pane_of s pid of
        None \<Rightarrow> s
      | Some (_, _, p) \<Rightarrow>
          if \<not> path_eq (repository_directory p) path
          then bump_revision (put_pane pid (\<lambda>p. p\<lparr>p_repository_directory := Some path\<rparr>) s)
          else s)"

definition add_worktree_tab :: "(nat \<Rightarrow> Id option) \<Rightarrow> Id option \<Rightarrow> Id \<Rightarrow> path \<Rightarrow> path \<Rightarrow> path \<Rightarrow> state \<Rightarrow>
    (refusal + Id) \<times> state" where
  "add_worktree_tab rnd by workspace root path start s =
     (if tab_count s \<ge> MAX_TABS \<or> pane_count s \<ge> MAX_PANES then (Inl Capacity, s)
      else case find_workspace (st_inventory s) workspace of
        None \<Rightarrow> (Inl RefusedMissing, s)
      | Some w \<Rightarrow>
          (case rnd 0 of None \<Rightarrow> (Inl Failed, s) | Some i \<Rightarrow>
          (case rnd 1 of None \<Rightarrow> (Inl Failed, s) | Some p \<Rightarrow>
             let s' = put_workspace workspace (\<lambda>w. w\<lparr>w_tabs := w_tabs w @
                   [\<lparr>t_membership = Opened, t_worktree = Some path, t_worktree_repository = Some root,
                     t_id = i, t_root_pane = p,
                     t_panes = [new_pane p None SideRight start by]\<rparr>]\<rparr>) s
             in (Inr i, set_revision (saturating_add (inv_revision (st_inventory s')) 1) s'))))"

lemmas edits_run [run_simps] = tab_count_def pane_count_def pane_of_def bump_revision_def remove_pane_def
  workspace_without_pane_def tab_without_pane_def clear_missing_sources_def promote_root_tab_def put_workspace_def
  end_all_sessions_def own_controls_current_def close_target_id_def is_worktree_target_def edit_close_def
  create_workspace_def create_tab_def split_pane_def membership_step_def move_pane_def merge_tabs_def
  move_pane_to_new_tab_def move_pane_beside_def merge_tab_def destination_def take_pane_def clear_source_def
  merged_pane_def rename_workspace_def pin_workspace_def with_home_def finish_edit_def edit_def put_tab_of_pane_def
  put_pane_def repair_directory_def confirm_directory_def present_presentation_def present_directory_def
  present_repository_directory_def add_worktree_tab_def valid_name_def checked_add_def wrapping_add_def
  saturating_add_def u64_max_def remove_at_def

end
