(* ===== verification/Validation.thy ===== *)
theory Validation
  imports Edits
begin

text \<open>
  The check a server runs on a state before it keeps or loads it (\<open>State::validate\<close>). The loops are
  translated with the sets they accumulate; \<open>validate_iff\<close> gives the same check as conditions on
  the whole state. \<open>sound\<close> adds what the edits keep beyond it, that the Root Tab and the Root Panes
  come first, and is the invariant of every operation on the state.
\<close>

section \<open>The check\<close>

definition validate_ends :: "state \<Rightarrow> bool" where
  "validate_ends s =
     (case st_session_ends s of
        None \<Rightarrow> True
      | Some ends \<Rightarrow>
          \<not> (Some (ci_boot ends) \<noteq> st_creator_boot s \<or> length (ci_sessions ends) > MAX_PANES \<or>
             length (ci_controls ends) > MAX_PANES \<or>
             length (remdups (map cp_id (ci_sessions ends))) \<noteq> length (ci_sessions ends) \<or>
             list_ex (\<lambda>p. cp_id p = 0 \<or> cp_session p = Some 0) (ci_sessions ends)))"

definition validate_limits :: "state \<Rightarrow> bool" where
  "validate_limits s \<longleftrightarrow>
     \<not> (length (st_names s) \<noteq> length (workspaces s) \<or>
        list_ex (\<lambda>w. length (filter (\<lambda>n. n_workspace n = w_id w) (st_names s)) \<noteq> 1) (workspaces s) \<or>
        (workspaces s \<noteq> [] \<and> st_home_directory s = None) \<or>
        list_ex (\<lambda>n. \<not> list_ex (\<lambda>w. w_id w = n_workspace n) (workspaces s) \<or>
            (case n_custom n of None \<Rightarrow> False
             | Some name \<Rightarrow> trim name = [] \<or> str_len name > 256 \<or> list_ex is_control name)) (st_names s) \<or>
        (case st_home_directory s of None \<Rightarrow> False | Some path \<Rightarrow> \<not> valid_path path) \<or>
        length (workspaces s) > MAX_WORKSPACES \<or> tab_count s > MAX_TABS \<or> pane_count s > MAX_PANES \<or>
        length (st_devices s) > MAX_DEVICES \<or> st_sequence_floor s = u64_max \<or>
        sum_list (map (\<lambda>d. length (d_pending d)) (st_devices s)) > MAX_OUTCOMES)"

definition bad_path :: "path option \<Rightarrow> bool" where
  "bad_path p = (case p of None \<Rightarrow> False | Some p \<Rightarrow> \<not> valid_path p)"

fun validate_panes :: "Id list \<Rightarrow> Id list \<Rightarrow> pane list \<Rightarrow> Id list option" where
  "validate_panes ids preceding [] = Some ids"
| "validate_panes ids preceding (p # ps) =
     (if p_id p = 0 \<or> p_id p \<in> set ids \<or>
         (case p_source p of None \<Rightarrow> False | Some i \<Rightarrow> i \<notin> set preceding) \<or>
         length (po_names (p_observers p)) > MAX_OBSERVER_NAMES \<or>
         (po_names (p_observers p) = [] \<and> po_others (p_observers p) \<noteq> 0) \<or>
         (case p_presentation p of None \<Rightarrow> False | Some snap \<Rightarrow> \<not> snapshot_valid snap) \<or>
         \<not> valid_path (p_starting_directory p) \<or> bad_path (p_confirmed_directory p)
      then None
      else validate_panes (p_id p # ids) (preceding @ [p_id p]) ps)"

fun validate_tabs :: "Id list \<Rightarrow> tab list \<Rightarrow> Id list option" where
  "validate_tabs ids [] = Some ids"
| "validate_tabs ids (t # ts) =
     (if t_id t = 0 \<or> bad_path (t_worktree t) \<or> bad_path (t_worktree_repository t) \<or>
         (t_worktree_repository t \<noteq> None \<and> t_worktree t = None) \<or> t_id t \<in> set ids \<or>
         \<not> list_ex (\<lambda>p. p_id p = t_root_pane t) (t_panes t)
      then None
      else case validate_panes (t_id t # ids) [] (t_panes t) of
             None \<Rightarrow> None | Some ids \<Rightarrow> validate_tabs ids ts)"

fun validate_workspaces :: "Id list \<Rightarrow> workspace list \<Rightarrow> Id list option" where
  "validate_workspaces ids [] = Some ids"
| "validate_workspaces ids (w # ws) =
     (if w_id w = 0 \<or> w_id w \<in> set ids \<or> trim (w_name w) = [] \<or> str_len (w_name w) > 256 \<or>
         list_ex is_control (w_name w) \<or> \<not> list_ex (\<lambda>t. t_id t = w_root_tab w) (w_tabs w) \<or>
         bad_path (w_pinned_directory w)
      then None
      else case validate_tabs (w_id w # ids) (w_tabs w) of
             None \<Rightarrow> None | Some ids \<Rightarrow> validate_workspaces ids ws)"

definition is_worktree_mutation :: "path_mutation \<Rightarrow> bool" where
  "is_worktree_mutation m = (case m of Worktree _ \<Rightarrow> True | _ \<Rightarrow> False)"

fun validate_outcomes :: "u64 \<Rightarrow> nat \<Rightarrow> retained_outcome list \<Rightarrow> bool" where
  "validate_outcomes retired index [] = True"
| "validate_outcomes retired index (r # rs) =
     (\<not> (ro_outcome r = Pending \<and> \<not> is_worktree_mutation (ro_mutation r)) \<and>
      is_bounded (ro_mutation r) \<and>
      checked_add retired (index + 1) = Some (ro_sequence r) \<and> ro_sequence r \<noteq> u64_max \<and>
      validate_outcomes retired (index + 1) rs)"

fun validate_devices :: "Id list \<Rightarrow> device_outcomes list \<Rightarrow> bool" where
  "validate_devices seen [] = True"
| "validate_devices seen (d # ds) =
     (d_device d \<notin> set seen \<and> d_retired d \<noteq> u64_max \<and>
      validate_outcomes (d_retired d) 0 (d_pending d) \<and> validate_devices (d_device d # seen) ds)"

definition validate :: "state \<Rightarrow> bool" where
  "validate s \<longleftrightarrow> validate_ends s \<and> validate_limits s \<and> validate_workspaces [] (workspaces s) \<noteq> None \<and>
     validate_devices [] (st_devices s)"

section \<open>The same check on the whole state\<close>

definition pane_ok :: "pane \<Rightarrow> bool" where
  "pane_ok p \<longleftrightarrow> length (po_names (p_observers p)) \<le> MAX_OBSERVER_NAMES \<and>
     (po_names (p_observers p) = [] \<longrightarrow> po_others (p_observers p) = 0) \<and>
     (case p_presentation p of None \<Rightarrow> True | Some snap \<Rightarrow> snapshot_valid snap) \<and>
     valid_path (p_starting_directory p) \<and> \<not> bad_path (p_confirmed_directory p)"

definition worktree_ok :: "tab \<Rightarrow> bool" where
  "worktree_ok t \<longleftrightarrow> \<not> bad_path (t_worktree t) \<and> \<not> bad_path (t_worktree_repository t) \<and>
     (t_worktree t = None \<longrightarrow> t_worktree_repository t = None)"

lemma validate_panes_iff:
  "validate_panes ids preceding ps = Some ids' \<longleftrightarrow>
     (\<forall>p\<in>set ps. pane_ok p) \<and> sources_precede preceding ps \<and> distinct (map p_id ps) \<and>
     set (map p_id ps) \<inter> (insert 0 (set ids)) = {} \<and> ids' = rev (map p_id ps) @ ids"
proof (induction ps arbitrary: ids preceding)
  case (Cons p ps)
  show ?case
    by (auto simp: Cons.IH pane_ok_def split: option.splits)
qed auto

lemma validate_tabs_iff:
  "validate_tabs ids ts = Some ids' \<longleftrightarrow>
     (\<forall>t\<in>set ts. worktree_ok t \<and> t_root_pane t \<in> set (map p_id (t_panes t)) \<and>
        (\<forall>p\<in>set (t_panes t). pane_ok p) \<and> sources_precede [] (t_panes t)) \<and>
     distinct (concat (map tab_ids ts)) \<and> set (concat (map tab_ids ts)) \<inter> (insert 0 (set ids)) = {} \<and>
     ids' = rev (concat (map tab_ids ts)) @ ids"
proof (induction ts arbitrary: ids)
  case (Cons t ts)
  have root: "list_ex (\<lambda>p. p_id p = t_root_pane t) (t_panes t) \<longleftrightarrow> t_root_pane t \<in> set (map p_id (t_panes t))"
    by (auto simp: list_ex_iff intro: rev_image_eqI)
  have step: "validate_tabs ids (t # ts) = Some ids' \<longleftrightarrow>
      t_id t \<noteq> 0 \<and> t_id t \<notin> set ids \<and> worktree_ok t \<and> t_root_pane t \<in> set (map p_id (t_panes t)) \<and>
      (\<exists>ids1. validate_panes (t_id t # ids) [] (t_panes t) = Some ids1 \<and> validate_tabs ids1 ts = Some ids')"
    by (auto simp: root worktree_ok_def split: option.splits)
  show ?case
    unfolding step validate_panes_iff Cons.IH by (auto simp: tab_ids_def [of t])
qed auto

text \<open>What the check asks of one Workspace, its name and the identities across Workspaces aside.\<close>

definition workspace_ok :: "workspace \<Rightarrow> bool" where
  "workspace_ok w \<longleftrightarrow> \<not> bad_path (w_pinned_directory w) \<and> w_root_tab w \<in> set (map t_id (w_tabs w)) \<and>
     (\<forall>t\<in>set (w_tabs w). worktree_ok t \<and> t_root_pane t \<in> set (map p_id (t_panes t)) \<and>
        (\<forall>p\<in>set (t_panes t). pane_ok p) \<and> sources_precede [] (t_panes t))"

lemma validate_workspaces_iff:
  "validate_workspaces ids ws = Some ids' \<longleftrightarrow>
     (\<forall>w\<in>set ws. workspace_ok w \<and> valid_name (w_name w)) \<and>
     distinct (concat (map workspace_ids ws)) \<and> set (concat (map workspace_ids ws)) \<inter> (insert 0 (set ids)) = {} \<and>
     ids' = rev (concat (map workspace_ids ws)) @ ids"
proof (induction ws arbitrary: ids)
  case (Cons w ws)
  have root: "list_ex (\<lambda>t. t_id t = w_root_tab w) (w_tabs w) \<longleftrightarrow> w_root_tab w \<in> set (map t_id (w_tabs w))"
    by (auto simp: list_ex_iff intro: rev_image_eqI)
  have step: "validate_workspaces ids (w # ws) = Some ids' \<longleftrightarrow>
      w_id w \<noteq> 0 \<and> w_id w \<notin> set ids \<and> valid_name (w_name w) \<and> w_root_tab w \<in> set (map t_id (w_tabs w)) \<and>
      \<not> bad_path (w_pinned_directory w) \<and>
      (\<exists>ids1. validate_tabs (w_id w # ids) (w_tabs w) = Some ids1 \<and> validate_workspaces ids1 ws = Some ids')"
    by (auto simp: root valid_name_def not_less split: option.splits)
  show ?case
    unfolding step validate_tabs_iff Cons.IH
    by (auto simp: workspace_ok_def workspace_ids_def [of w])
qed auto

definition names_ok :: "workspace_name list \<Rightarrow> workspace list \<Rightarrow> bool" where
  "names_ok names ws \<longleftrightarrow> mset (map n_workspace names) = mset (map w_id ws) \<and>
     (\<forall>n\<in>set names. \<forall>c. n_custom n = Some c \<longrightarrow> valid_name c)"

lemma count_names: "count (mset (map f xs)) i = length (filter (\<lambda>x. f x = i) xs)"
  by (induction xs) auto

lemma names_matched:
  assumes "distinct (map w_id ws)"
  shows "mset (map n_workspace names) = mset (map w_id ws) \<longleftrightarrow>
    length names = length ws \<and> (\<forall>w\<in>set ws. length (filter (\<lambda>n. n_workspace n = w_id w) names) = 1) \<and>
    (\<forall>n\<in>set names. n_workspace n \<in> set (map w_id ws))"
proof
  assume eq: "mset (map n_workspace names) = mset (map w_id ws)"
  have "length names = length ws" using arg_cong [OF eq, of size] by simp
  moreover have "length (filter (\<lambda>n. n_workspace n = w_id w) names) = 1" if "w \<in> set ws" for w
    using that assms distinct_count_atmost_1 [of "map w_id ws"]
    by (metis count_names eq image_eqI list.set_map)
  moreover have "\<forall>n\<in>set names. n_workspace n \<in> set (map w_id ws)"
    using arg_cong [OF eq, of set_mset] by (metis image_eqI list.set_map set_mset_mset)
  ultimately show "length names = length ws \<and>
      (\<forall>w\<in>set ws. length (filter (\<lambda>n. n_workspace n = w_id w) names) = 1) \<and>
      (\<forall>n\<in>set names. n_workspace n \<in> set (map w_id ws))" by blast
next
  assume r: "length names = length ws \<and>
      (\<forall>w\<in>set ws. length (filter (\<lambda>n. n_workspace n = w_id w) names) = 1) \<and>
      (\<forall>n\<in>set names. n_workspace n \<in> set (map w_id ws))"
  show "mset (map n_workspace names) = mset (map w_id ws)"
  proof (rule multiset_eqI)
    fix i
    show "count (mset (map n_workspace names)) i = count (mset (map w_id ws)) i"
    proof (cases "i \<in> set (map w_id ws)")
      case True
      with r have "count (mset (map n_workspace names)) i = 1" unfolding count_names by auto
      moreover have "count (mset (map w_id ws)) i = 1"
        using True assms distinct_count_atmost_1 [of "map w_id ws"] by simp
      ultimately show ?thesis by simp
    next
      case False
      with r have "i \<notin> set (map n_workspace names)" by auto
      with False show ?thesis by (metis count_mset_0_iff)
    qed
  qed
qed

definition retained_ok :: "retained_outcome \<Rightarrow> bool" where
  "retained_ok r \<longleftrightarrow> (ro_outcome r = Pending \<longrightarrow> is_worktree_mutation (ro_mutation r)) \<and>
     is_bounded (ro_mutation r)"

text \<open>The retained outcomes of a device carry consecutive sequences from its retired one.\<close>

definition device_ok :: "device_outcomes \<Rightarrow> bool" where
  "device_ok d \<longleftrightarrow> d_retired d + length (d_pending d) < u64_max \<and>
     map ro_sequence (d_pending d) = [d_retired d + 1..<d_retired d + 1 + length (d_pending d)] \<and>
     (\<forall>r\<in>set (d_pending d). retained_ok r)"

lemma validate_outcomes_iff:
  "retired + index < u64_max \<Longrightarrow> validate_outcomes retired index rs \<longleftrightarrow>
     retired + index + length rs < u64_max \<and>
     map ro_sequence rs = [retired + index + 1..<retired + index + 1 + length rs] \<and> (\<forall>r\<in>set rs. retained_ok r)"
proof (induction rs arbitrary: index)
  case (Cons r rs)
  have upt: "[retired + index + 1..<retired + index + 1 + length (r # rs)] =
      (retired + index + 1) # [retired + Suc index + 1..<retired + Suc index + 1 + length rs]"
    by (subst upt_conv_Cons) simp_all
  show ?case
  proof (cases "retired + Suc index < u64_max")
    case True
    with Cons.IH [OF this] show ?thesis unfolding upt
      by (auto simp: retained_ok_def checked_add_def)
  next
    case False
    with Cons.prems show ?thesis by (auto simp: checked_add_def)
  qed
qed simp

lemma validate_devices_iff:
  "\<forall>d\<in>set ds. d_retired d \<le> u64_max \<Longrightarrow> validate_devices seen ds \<longleftrightarrow>
     distinct (map d_device ds) \<and> set (map d_device ds) \<inter> set seen = {} \<and> (\<forall>d\<in>set ds. device_ok d)"
proof (induction ds arbitrary: seen)
  case (Cons d ds)
  have "d_retired d \<noteq> u64_max \<and> validate_outcomes (d_retired d) 0 (d_pending d) \<longleftrightarrow> device_ok d"
    using Cons.prems validate_outcomes_iff [of "d_retired d" 0 "d_pending d"]
    by (cases "d_retired d = u64_max") (auto simp: device_ok_def)
  with Cons show ?case by auto
qed simp

section \<open>The invariant\<close>

definition rooted :: "workspace \<Rightarrow> bool" where
  "rooted w \<longleftrightarrow> w_root_tab w = t_id (hd (w_tabs w)) \<and> (\<forall>t\<in>set (w_tabs w). t_root_pane t = p_id (hd (t_panes t)))"

text \<open>A state that passes the check, in which Roots come first and every \<open>u64\<close> is one.\<close>

definition sound :: "state \<Rightarrow> bool" where
  "sound s \<longleftrightarrow> validate s \<and> (\<forall>w\<in>set (workspaces s). rooted w) \<and>
     st_sequence_floor s \<le> u64_max \<and> (\<forall>d\<in>set (st_devices s). d_retired d \<le> u64_max)"

definition intact :: "workspace \<Rightarrow> bool" where
  "intact w \<longleftrightarrow> w_tabs w \<noteq> [] \<and> w_root_tab w = t_id (hd (w_tabs w)) \<and> (\<forall>t\<in>set (w_tabs w). wf_tab t) \<and>
     \<not> bad_path (w_pinned_directory w) \<and> (\<forall>t\<in>set (w_tabs w). worktree_ok t) \<and>
     (\<forall>p\<in>set (workspace_panes w). pane_ok p)"

definition hierarchy_ok :: "workspace list \<Rightarrow> bool" where
  "hierarchy_ok ws \<longleftrightarrow> distinct (concat (map workspace_ids ws)) \<and> 0 \<notin> set (concat (map workspace_ids ws)) \<and>
     (\<forall>w\<in>set ws. intact w)"

definition within_limits :: "state \<Rightarrow> bool" where
  "within_limits s \<longleftrightarrow> length (workspaces s) \<le> MAX_WORKSPACES \<and> tab_count s \<le> MAX_TABS \<and> pane_count s \<le> MAX_PANES"

definition home_ok :: "state \<Rightarrow> bool" where
  "home_ok s \<longleftrightarrow> (st_home_directory s = None \<longrightarrow> workspaces s = []) \<and> \<not> bad_path (st_home_directory s)"

definition outcomes_ok :: "state \<Rightarrow> bool" where
  "outcomes_ok s \<longleftrightarrow> length (st_devices s) \<le> MAX_DEVICES \<and> st_sequence_floor s < u64_max \<and>
     sum_list (map (\<lambda>d. length (d_pending d)) (st_devices s)) \<le> MAX_OUTCOMES \<and>
     distinct (map d_device (st_devices s)) \<and> (\<forall>d\<in>set (st_devices s). device_ok d)"

lemma intact_iff: "intact w \<longleftrightarrow> workspace_ok w \<and> rooted w"
proof -
  have wf: "wf_tab t \<longleftrightarrow> t_root_pane t \<in> set (map p_id (t_panes t)) \<and> sources_precede [] (t_panes t) \<and>
      t_root_pane t = p_id (hd (t_panes t))" for t
    by (cases "t_panes t") (auto simp: wf_tab_def)
  have root: "w_tabs w \<noteq> [] \<and> w_root_tab w = t_id (hd (w_tabs w)) \<longleftrightarrow>
      w_root_tab w \<in> set (map t_id (w_tabs w)) \<and> w_root_tab w = t_id (hd (w_tabs w))"
    by (cases "w_tabs w") auto
  have panes: "(\<forall>p\<in>set (workspace_panes w). pane_ok p) \<longleftrightarrow> (\<forall>t\<in>set (w_tabs w). \<forall>p\<in>set (t_panes t). pane_ok p)"
    by (auto simp: workspace_panes_def)
  show ?thesis
    unfolding intact_def workspace_ok_def rooted_def wf panes using root by blast
qed

lemma distinct_w_ids: "distinct (concat (map workspace_ids ws)) \<Longrightarrow> distinct (map w_id ws)"
  by (induction ws) (auto simp: workspace_ids_def)

lemma validate_limits_iff:
  assumes "distinct (map w_id (workspaces s))" "st_sequence_floor s \<le> u64_max"
  shows "validate_limits s \<longleftrightarrow> names_ok (st_names s) (workspaces s) \<and> within_limits s \<and> home_ok s \<and>
    length (st_devices s) \<le> MAX_DEVICES \<and> st_sequence_floor s < u64_max \<and>
    sum_list (map (\<lambda>d. length (d_pending d)) (st_devices s)) \<le> MAX_OUTCOMES"
proof -
  have custom: "(case c of None \<Rightarrow> False
      | Some name \<Rightarrow> trim name = [] \<or> 256 < str_len name \<or> list_ex is_control name) \<longleftrightarrow>
      \<not> (\<forall>name. c = Some name \<longrightarrow> valid_name name)" for c
    by (auto simp: valid_name_def split: option.splits)
  have known: "list_ex (\<lambda>w. w_id w = i) ws \<longleftrightarrow> i \<in> set (map w_id ws)" for i ws
    by (auto simp: list_ex_iff)
  have "home_ok s \<longleftrightarrow> \<not> (workspaces s \<noteq> [] \<and> st_home_directory s = None) \<and>
      \<not> (case st_home_directory s of None \<Rightarrow> False | Some path \<Rightarrow> \<not> valid_path path)"
    by (auto simp: home_ok_def bad_path_def)
  moreover have "names_ok (st_names s) (workspaces s) \<longleftrightarrow> length (st_names s) = length (workspaces s) \<and>
      \<not> list_ex (\<lambda>w. length (filter (\<lambda>n. n_workspace n = w_id w) (st_names s)) \<noteq> 1) (workspaces s) \<and>
      \<not> list_ex (\<lambda>n. n_workspace n \<notin> set (map w_id (workspaces s)) \<or>
          \<not> (\<forall>name. n_custom n = Some name \<longrightarrow> valid_name name)) (st_names s)"
    unfolding names_ok_def names_matched [OF assms(1)] by (auto simp: list_ex_iff)
  ultimately show ?thesis
    unfolding validate_limits_def custom known within_limits_def using assms(2) by auto
qed

text \<open>The invariant as the proofs use it.\<close>

lemma sound_iff:
  "sound s \<longleftrightarrow> validate_ends s \<and> hierarchy_ok (workspaces s) \<and> (\<forall>w\<in>set (workspaces s). valid_name (w_name w)) \<and>
     names_ok (st_names s) (workspaces s) \<and> within_limits s \<and> home_ok s \<and> outcomes_ok s"
proof -
  have h: "validate_workspaces [] (workspaces s) \<noteq> None \<and> (\<forall>w\<in>set (workspaces s). rooted w) \<longleftrightarrow>
      hierarchy_ok (workspaces s) \<and> (\<forall>w\<in>set (workspaces s). valid_name (w_name w))"
    by (auto simp: validate_workspaces_iff hierarchy_ok_def intact_iff)
  have d: "distinct (map w_id (workspaces s))" if "hierarchy_ok (workspaces s)"
    using that distinct_w_ids by (simp add: hierarchy_ok_def)
  have typed: "outcomes_ok s \<Longrightarrow> st_sequence_floor s \<le> u64_max \<and> (\<forall>d\<in>set (st_devices s). d_retired d \<le> u64_max)"
    by (auto simp: outcomes_ok_def device_ok_def)
  show ?thesis
    unfolding sound_def validate_def using h d typed validate_limits_iff [of s] validate_devices_iff [of "st_devices s" "[]"]
    by (auto simp: outcomes_ok_def)
qed

lemmas validation_run [run_simps] = validate_ends_def validate_limits_def bad_path_def is_worktree_mutation_def
  validate_def rooted_def sound_def

end
