(* ===== verification/Preservation.thy ===== *)
theory Preservation
  imports Validation
begin

text \<open>
  The operations of \<open>State\<close> keep the invariant \<open>sound\<close>. \<open>structure_ok\<close> is the part of it about the
  hierarchy; \<open>pre_ok\<close> is the same before the names are recalculated, when a Workspace may still be
  waiting for its first name. The identities an operation draws are required to be new
  (\<open>fresh_ids\<close>), which the source relies on without checking.
\<close>

section \<open>The part about the hierarchy\<close>

definition structure_ok :: "state \<Rightarrow> bool" where
  "structure_ok s \<longleftrightarrow> hierarchy_ok (workspaces s) \<and> (\<forall>w\<in>set (workspaces s). valid_name (w_name w)) \<and>
     names_ok (st_names s) (workspaces s) \<and> within_limits s \<and> home_ok s"

definition pre_ok :: "state \<Rightarrow> bool" where
  "pre_ok s \<longleftrightarrow> hierarchy_ok (workspaces s) \<and>
     (\<forall>w\<in>set (workspaces s). valid_name (w_name w) \<or> awaits_name (st_names s) w) \<and>
     names_ok (st_names s) (workspaces s) \<and> within_limits s \<and> home_ok s"

definition state_ids :: "state \<Rightarrow> Id list" where
  "state_ids s = concat (map workspace_ids (workspaces s))"

definition fresh_ids :: "(nat \<Rightarrow> Id option) \<Rightarrow> state \<Rightarrow> bool" where
  "fresh_ids rnd s \<longleftrightarrow> (\<forall>k<3. case rnd k of None \<Rightarrow> True
     | Some i \<Rightarrow> i \<noteq> 0 \<and> i \<notin> set (state_ids s) \<and> (\<forall>m<3. m \<noteq> k \<longrightarrow> rnd m \<noteq> Some i))"

lemma sound_split: "sound s \<longleftrightarrow> validate_ends s \<and> structure_ok s \<and> outcomes_ok s"
  by (auto simp: sound_iff structure_ok_def)

lemma structure_pre: "structure_ok s \<Longrightarrow> pre_ok s"
  by (simp add: structure_ok_def pre_ok_def)

lemma fresh_ids_drawn:
  assumes "fresh_ids rnd s"
  shows "rnd 0 = Some i \<Longrightarrow> 0 \<notin> set [i] \<and> set [i] \<inter> set (state_ids s) = {}"
    and "rnd 0 = Some i \<Longrightarrow> rnd 1 = Some j \<Longrightarrow>
      distinct [i, j] \<and> 0 \<notin> set [i, j] \<and> set [i, j] \<inter> set (state_ids s) = {}"
    and "rnd 0 = Some i \<Longrightarrow> rnd 1 = Some j \<Longrightarrow> rnd 2 = Some k \<Longrightarrow>
      distinct [i, j, k] \<and> 0 \<notin> set [i, j, k] \<and> set [i, j, k] \<inter> set (state_ids s) = {}"
proof -
  have u: "(\<forall>k<3. P k) \<longleftrightarrow> P 0 \<and> P 1 \<and> P (2::nat)" for P
    by (auto simp: numeral_3_eq_3 numeral_2_eq_2 less_Suc_eq)
  show "rnd 0 = Some i \<Longrightarrow> 0 \<notin> set [i] \<and> set [i] \<inter> set (state_ids s) = {}"
    "rnd 0 = Some i \<Longrightarrow> rnd 1 = Some j \<Longrightarrow>
      distinct [i, j] \<and> 0 \<notin> set [i, j] \<and> set [i, j] \<inter> set (state_ids s) = {}"
    "rnd 0 = Some i \<Longrightarrow> rnd 1 = Some j \<Longrightarrow> rnd 2 = Some k \<Longrightarrow>
      distinct [i, j, k] \<and> 0 \<notin> set [i, j, k] \<and> set [i, j, k] \<inter> set (state_ids s) = {}"
    using assms unfolding fresh_ids_def u by auto
qed

text \<open>What identities and counts depend on.\<close>

definition shape :: "workspace \<Rightarrow> Id \<times> Id list list" where
  "shape w = (w_id w, map tab_ids (w_tabs w))"

lemma shape_same:
  assumes "map shape ws' = map shape ws"
  shows "map workspace_ids ws' = map workspace_ids ws" "map w_id ws' = map w_id ws"
    "map (\<lambda>w. length (w_tabs w)) ws' = map (\<lambda>w. length (w_tabs w)) ws"
    "map (\<lambda>w. length (workspace_panes w)) ws' = map (\<lambda>w. length (workspace_panes w)) ws"
    "length ws' = length ws"
proof -
  have ids: "workspace_ids w = fst (shape w) # concat (snd (shape w))" for w
    by (simp add: shape_def workspace_ids_def)
  have wid: "w_id w = fst (shape w)" for w by (simp add: shape_def)
  have tabs: "length (w_tabs w) = length (snd (shape w))" for w by (simp add: shape_def)
  have panes: "length (workspace_panes w) = sum_list (map (\<lambda>x. length x - 1) (snd (shape w)))" for w
    by (simp add: shape_def workspace_panes_def length_concat comp_def tab_ids_def)
  have "map (f \<circ> shape) ws' = map (f \<circ> shape) ws" for f :: "Id \<times> Id list list \<Rightarrow> 'a"
    using arg_cong [OF assms, of "map f"] by simp
  from this show "map workspace_ids ws' = map workspace_ids ws" "map w_id ws' = map w_id ws"
    "map (\<lambda>w. length (w_tabs w)) ws' = map (\<lambda>w. length (w_tabs w)) ws"
    "map (\<lambda>w. length (workspace_panes w)) ws' = map (\<lambda>w. length (workspace_panes w)) ws"
    unfolding ids wid tabs panes by (simp_all add: comp_def)
  show "length ws' = length ws" using arg_cong [OF assms, of length] by simp
qed

lemma counts:
  "tab_count s = sum_list (map (\<lambda>w. length (w_tabs w)) (workspaces s))"
  "pane_count s = sum_list (map (\<lambda>w. length (workspace_panes w)) (workspaces s))"
proof -
  show "tab_count s = sum_list (map (\<lambda>w. length (w_tabs w)) (workspaces s))" by (simp add: tab_count_def)
  have "sum_list (map (\<lambda>t. length (t_panes t)) (concat (map w_tabs ws))) =
      sum_list (map (\<lambda>w. length (workspace_panes w)) ws)" for ws
    by (induction ws) (auto simp: workspace_panes_def length_concat comp_def)
  then show "pane_count s = sum_list (map (\<lambda>w. length (workspace_panes w)) (workspaces s))"
    by (simp add: pane_count_def)
qed

lemma unnamed_shape: "unnamed w = unnamed w' \<Longrightarrow> shape w = shape w'"
  by (simp add: shape_def unnamed_fields [of w w'])

lemma unnamed_intact:
  assumes "unnamed w = unnamed w'"
  shows "intact w = intact w'"
  using unnamed_fields [OF assms] by (simp add: intact_def workspace_panes_def)

lemma recalculate_shape: "map shape (workspaces (recalculate_names s)) = map shape (workspaces s)"
  by (rule map_unnamed_fields [OF recalculate_names_keeps(1) unnamed_shape])

lemma shape_limits:
  assumes "map shape (workspaces s') = map shape (workspaces s)"
  shows "within_limits s' = within_limits s" "tab_count s' = tab_count s" "pane_count s' = pane_count s"
    "state_ids s' = state_ids s"
  using shape_same [OF assms] by (simp_all add: within_limits_def counts state_ids_def)

lemma names_ok_keys:
  assumes "map naming_key names' = map naming_key names" "map w_id ws' = map w_id ws"
  shows "names_ok names' ws' = names_ok names ws"
proof -
  have eq: "map n_workspace names' = map n_workspace names" "map n_custom names' = map n_custom names"
    using naming_key_eq [OF assms(1)] by simp_all
  have custom: "(\<forall>n\<in>set ns. \<forall>c. n_custom n = Some c \<longrightarrow> valid_name c) \<longleftrightarrow>
      (\<forall>x\<in>set (map n_custom ns). \<forall>c. x = Some c \<longrightarrow> valid_name c)" for ns by simp
  show ?thesis unfolding names_ok_def custom eq assms(2) ..
qed

lemma names_ok_length: "names_ok names ws \<Longrightarrow> length names = length ws"
  unfolding names_ok_def by (metis length_map size_mset)

lemma recalculate_structure:
  assumes "pre_ok s"
  shows "structure_ok (recalculate_names s)"
proof -
  note sh = shape_same [OF recalculate_shape [of s]]
  have d: "distinct (map w_id (workspaces s))"
    using assms distinct_w_ids by (simp add: pre_ok_def hierarchy_ok_def)
  have "map intact (workspaces (recalculate_names s)) = map intact (workspaces s)"
    by (rule map_unnamed_fields [OF recalculate_names_keeps(1) unnamed_intact])
  moreover have "\<forall>x\<in>set (map intact (workspaces s)). x" using assms by (simp add: pre_ok_def hierarchy_ok_def)
  ultimately have "\<forall>x\<in>set (map intact (workspaces (recalculate_names s))). x" by (simp only:)
  then have "\<forall>w\<in>set (workspaces (recalculate_names s)). intact w" by simp
  then have "hierarchy_ok (workspaces (recalculate_names s))"
    using assms sh(1) by (simp add: pre_ok_def hierarchy_ok_def)
  moreover have "length (st_names s) \<le> 98"
    using assms names_ok_length [of "st_names s" "workspaces s"]
    by (simp add: pre_ok_def within_limits_def MAX_WORKSPACES_def)
  then have "\<forall>w\<in>set (workspaces (recalculate_names s)). valid_name (w_name w)"
    using assms d by (intro recalculate_names_valid) (auto simp: pre_ok_def names_ok_def)
  moreover have "names_ok (st_names (recalculate_names s)) (workspaces (recalculate_names s))"
    using assms names_ok_keys [OF recalculate_names_keeps(2) sh(2)] by (simp add: pre_ok_def)
  moreover have "within_limits (recalculate_names s)"
    using assms shape_limits(1) [OF recalculate_shape] by (simp add: pre_ok_def)
  moreover have "home_ok (recalculate_names s)" using assms sh(5) by (auto simp: pre_ok_def home_ok_def)
  ultimately show ?thesis by (simp add: structure_ok_def)
qed

section \<open>Changing one Workspace\<close>

lemma put_workspace_split:
  assumes "find_workspace (st_inventory s) i = Some w"
  obtains ys zs where "workspaces s = ys @ w # zs" "w_id w = i"
    "\<And>f. put_workspace i f s = set_workspaces (ys @ f w # zs) s"
proof -
  from assms have "List.find (\<lambda>x. w_id x = i) (workspaces s) = Some w" by (simp add: find_workspace_def)
  then show ?thesis by (rule update_first_split) (metis put_workspace_def that)
qed

lemma put_workspace_pre_ok:
  assumes s: "structure_ok s" and w: "find_workspace (st_inventory s) i = Some w"
    and w': "w_id (f w) = i" "valid_name (w_name (f w))" "intact (f w)"
    and ids: "mset (workspace_ids (f w)) \<subseteq># mset (workspace_ids w) + mset fresh"
    and fresh: "distinct fresh" "0 \<notin> set fresh" "set fresh \<inter> set (state_ids s) = {}"
    and tabs: "tab_count s + length (w_tabs (f w)) \<le> MAX_TABS + length (w_tabs w)"
    and panes: "pane_count s + length (workspace_panes (f w)) \<le> MAX_PANES + length (workspace_panes w)"
  shows "pre_ok (put_workspace i f s)"
proof -
  obtain ys zs where ws: "workspaces s = ys @ w # zs" "w_id w = i"
    and put: "put_workspace i f s = set_workspaces (ys @ f w # zs) s"
    using w by (rule put_workspace_split) blast
  have sub: "mset (concat (map workspace_ids (ys @ f w # zs))) \<subseteq># mset (state_ids s @ fresh)"
    using ids by (simp add: state_ids_def ws ac_simps subset_mset.add_mono)
  have d: "distinct (state_ids s @ fresh)" and z: "0 \<notin> set (state_ids s @ fresh)"
    using s fresh by (auto simp: structure_ok_def hierarchy_ok_def state_ids_def)
  have "distinct (concat (map workspace_ids (ys @ f w # zs)))" "0 \<notin> set (concat (map workspace_ids (ys @ f w # zs)))"
    using distinct_submset [OF sub d] set_mset_mono [OF sub] z by (simp_all only: set_mset_mset) blast
  then have h: "hierarchy_ok (ys @ f w # zs)"
    using s w'(3) ws by (auto simp: structure_ok_def hierarchy_ok_def)
  have n: "names_ok (st_names s) (ys @ f w # zs)"
    using s w'(1) ws by (simp add: structure_ok_def names_ok_def)
  have "within_limits (put_workspace i f s)"
    using s tabs panes ws by (simp add: put structure_ok_def within_limits_def counts)
  then show ?thesis
    using h n s w'(2) ws by (auto simp: pre_ok_def put structure_ok_def home_ok_def)
qed

text \<open>Facts of a Workspace in a sound hierarchy.\<close>

lemma found_workspace:
  assumes "structure_ok s" "find_workspace (st_inventory s) i = Some w"
  shows "w \<in> set (workspaces s)" "w_id w = i" "intact w" "wf_workspace w" "valid_name (w_name w)"
    "set (workspace_ids w) \<subseteq> set (state_ids s)"
proof -
  obtain ys zs where ws: "workspaces s = ys @ w # zs" "w_id w = i" using assms(2) by (rule put_workspace_split)
  then show "w \<in> set (workspaces s)" "w_id w = i" by simp_all
  then show "intact w" "valid_name (w_name w)" "set (workspace_ids w) \<subseteq> set (state_ids s)"
    using assms(1) by (auto simp: structure_ok_def hierarchy_ok_def state_ids_def)
  then show "wf_workspace w"
    using assms(1) ws(1) by (simp add: structure_ok_def hierarchy_ok_def wf_workspace_def intact_def)
qed

lemma worktree_ok_cong:
  "t_worktree t = t_worktree u \<Longrightarrow> t_worktree_repository t = t_worktree_repository u \<Longrightarrow> worktree_ok t = worktree_ok u"
  by (simp add: worktree_ok_def)

lemma pane_ok_core: "pane_ok (pane_core p) = pane_ok p"
  by (simp add: pane_ok_def pane_core_def)

section \<open>Membership edits\<close>

context workspace_edit
begin

lemma keeps_intact:
  assumes "edit w = (Inr a, w')" "intact w" "wf_workspace w"
  shows "intact w'"
proof -
  have "\<forall>p\<in>set (workspace_panes w'). pane_ok p"
    using keeps_pane_facts [OF assms(1), of pane_ok] assms(2) by (simp add: intact_def pane_ok_core)
  moreover have "worktree_ok t" if t: "t \<in> set (w_tabs w')" for t
  proof -
    obtain u where "u \<in> set (w_tabs w)" "t_worktree t = t_worktree u"
      "t_worktree_repository t = t_worktree_repository u" using worktrees [OF assms(1) t] by blast
    then show ?thesis using assms(2) by (simp add: intact_def worktree_ok_cong [of t u])
  qed
  ultimately show ?thesis
    using rooted [OF assms(1,3)] assms(2) keeps_name(5) [OF assms(1)] by (simp add: intact_def)
qed

lemma keeps_state:
  assumes s: "structure_ok s" and w: "find_workspace (st_inventory s) i = Some w"
    and e: "edit w = (Inr a, w')"
    and fresh: "distinct fresh" "0 \<notin> set fresh" "set fresh \<inter> set (state_ids s) = {}"
    and room: "tab_count s + length fresh \<le> MAX_TABS"
  shows "pre_ok (put_workspace i (\<lambda>_. w') s)"
proof (rule put_workspace_pre_ok [OF s w])
  note f = found_workspace [OF s w]
  show "w_id w' = i" "valid_name (w_name w')" using f keeps_name [OF e] by simp_all
  show "intact w'" by (rule keeps_intact [OF e f(3,4)])
  show "mset (workspace_ids w') \<subseteq># mset (workspace_ids w) + mset fresh" by (rule identities [OF e])
  show "tab_count s + length (w_tabs w') \<le> MAX_TABS + length (w_tabs w)"
    using growth [OF e] room by simp
  show "pane_count s + length (workspace_panes w') \<le> MAX_PANES + length (workspace_panes w)"
    using keeps_pane_count [OF e] s by (simp add: structure_ok_def within_limits_def)
qed (use fresh in simp_all)

end

section \<open>Removing a Pane\<close>

lemma structure_cong:
  assumes "workspaces s' = workspaces s" "st_names s' = st_names s" "st_home_directory s' = st_home_directory s"
  shows "structure_ok s' = structure_ok s" "pre_ok s' = pre_ok s"
  using assms by (simp_all add: structure_ok_def pre_ok_def within_limits_def home_ok_def counts)

lemma bump_revision_simps [simp]:
  "workspaces (bump_revision s) = workspaces s" "st_names (bump_revision s) = st_names s"
  "st_home_directory (bump_revision s) = st_home_directory s" "st_devices (bump_revision s) = st_devices s"
  "st_sequence_floor (bump_revision s) = st_sequence_floor s" "st_creator_boot (bump_revision s) = st_creator_boot s"
  "st_session_ends (bump_revision s) = st_session_ends s"
  "inv_close (st_inventory (bump_revision s)) = inv_close (st_inventory s)"
  by (simp_all add: bump_revision_def)

lemma intact_without_pane:
  assumes "intact w" "wf_workspace w" "w_tabs (workspace_without_pane pid w) \<noteq> []"
  shows "intact (workspace_without_pane pid w)"
proof -
  have "map pane_ok (map pane_core (workspace_panes (workspace_without_pane pid w))) =
      map pane_ok (map pane_core (filter (\<lambda>p. p_id p \<noteq> pid) (workspace_panes w)))"
    by (simp only: workspace_without_pane_cores)
  then have "map pane_ok (workspace_panes (workspace_without_pane pid w)) =
      map pane_ok (filter (\<lambda>p. p_id p \<noteq> pid) (workspace_panes w))"
    by (simp add: comp_def pane_ok_core)
  moreover have "\<forall>x\<in>set (map pane_ok (filter (\<lambda>p. p_id p \<noteq> pid) (workspace_panes w))). x"
    using assms(1) by (simp add: intact_def)
  ultimately have "\<forall>x\<in>set (map pane_ok (workspace_panes (workspace_without_pane pid w))). x" by (simp only:)
  then have panes: "\<forall>p\<in>set (workspace_panes (workspace_without_pane pid w)). pane_ok p" by simp
  have "worktree_ok t" if t: "t \<in> set (w_tabs (workspace_without_pane pid w))" for t
  proof -
    obtain u where "u \<in> set (w_tabs w)" "t_worktree t = t_worktree u"
      "t_worktree_repository t = t_worktree_repository u" using workspace_without_pane_tabs [OF t] by blast
    then show ?thesis using assms(1) by (simp add: intact_def worktree_ok_cong [of t u])
  qed
  moreover have "w_pinned_directory (workspace_without_pane pid w) = w_pinned_directory w"
    by (simp add: workspace_without_pane_def promote_root_tab_def split: list.split)
  ultimately show ?thesis
    using panes wf_workspace_without_pane [OF assms(2,3)] assms(1) by (simp add: intact_def wf_workspace_def)
qed

lemma workspace_without_pane_simps [simp]:
  "w_id (workspace_without_pane pid w) = w_id w"
  "w_name (workspace_without_pane pid w) = w_name w"
  by (simp_all add: workspace_without_pane_def promote_root_tab_def split: list.split)

lemma workspace_without_pane_sizes:
  "length (w_tabs (workspace_without_pane pid w)) \<le> length (w_tabs w)"
  "length (workspace_panes (workspace_without_pane pid w)) \<le> length (workspace_panes w)"
proof -
  show "length (w_tabs (workspace_without_pane pid w)) \<le> length (w_tabs w)"
    using length_filter_le [of "\<lambda>t. t_panes t \<noteq> []" "map (tab_without_pane pid) (w_tabs w)"]
    by (simp add: workspace_without_pane_def)
  show "length (workspace_panes (workspace_without_pane pid w)) \<le> length (workspace_panes w)"
    using arg_cong [OF workspace_without_pane_cores, of length pid w] by (metis length_filter_le length_map)
qed

text \<open>The Workspaces that stay after a Pane is removed.\<close>

definition workspaces_without_pane :: "Id \<Rightarrow> workspace list \<Rightarrow> workspace list" where
  "workspaces_without_pane pid ws = filter (\<lambda>w. w_tabs w \<noteq> []) (map (workspace_without_pane pid) ws)"

lemma workspaces_without_pane_empty: "workspaces_without_pane pid [] = []"
  by (simp add: workspaces_without_pane_def)

lemma workspaces_without_pane_sums:
  "sum_list (map (\<lambda>w. length (w_tabs w)) (workspaces_without_pane pid ws)) \<le> sum_list (map (\<lambda>w. length (w_tabs w)) ws)"
  "sum_list (map (\<lambda>w. length (workspace_panes w)) (workspaces_without_pane pid ws)) \<le>
     sum_list (map (\<lambda>w. length (workspace_panes w)) ws)"
  "length (workspaces_without_pane pid ws) \<le> length ws"
  "mset (concat (map workspace_ids (workspaces_without_pane pid ws))) \<subseteq># mset (concat (map workspace_ids ws))"
proof (induction ws)
  case (Cons w ws)
  note sz = workspace_without_pane_sizes [of pid w]
  { case 1 show ?case using Cons(1) sz(1) by (simp add: workspaces_without_pane_def) }
  { case 2 show ?case using Cons(2) sz(2) by (simp add: workspaces_without_pane_def) }
  { case 3 show ?case using Cons(3) by (simp add: workspaces_without_pane_def le_SucI) }
  { case 4 show ?case
      using subset_mset.add_mono [OF workspace_without_pane_ids [of pid w] Cons(4)]
        subset_mset.order_trans [OF Cons(4) mset_subset_eq_add_right [of _ "mset (workspace_ids w)"]]
      by (simp add: workspaces_without_pane_def) }
qed (simp_all add: workspaces_without_pane_def)

lemma names_ok_filter:
  assumes "names_ok names ws" "distinct (map w_id ws)" "distinct (map w_id ws')" "set (map w_id ws') \<subseteq> set (map w_id ws)"
  shows "names_ok (filter (\<lambda>n. list_ex (\<lambda>w. w_id w = n_workspace n) ws') names) ws'"
proof -
  have known: "list_ex (\<lambda>w. w_id w = i) ws' \<longleftrightarrow> i \<in> set (map w_id ws')" for i by (auto simp: list_ex_iff)
  have "mset (map n_workspace (filter (\<lambda>n. n_workspace n \<in> set (map w_id ws')) names)) =
      filter_mset (\<lambda>i. i \<in> set (map w_id ws')) (mset (map n_workspace names))"
    by (induction names) auto
  also have "\<dots> = filter_mset (\<lambda>i. i \<in> set (map w_id ws')) (mset (map w_id ws))"
    using assms(1) by (simp add: names_ok_def)
  also have "\<dots> = mset (map w_id ws')"
  proof (rule multiset_eqI)
    fix i show "count {#i \<in># mset (map w_id ws). i \<in> set (map w_id ws')#} i = count (mset (map w_id ws')) i"
      using assms(2-4) distinct_count_atmost_1 [of "map w_id ws"] distinct_count_atmost_1 [of "map w_id ws'"]
      by (cases "i \<in> set (map w_id ws')") (auto simp del: set_map mset_map simp: subset_iff)
  qed
  finally show ?thesis using assms(1) by (auto simp: names_ok_def known)
qed

lemma remove_pane_alt:
  "remove_pane pid s = bump_revision (recalculate_names
     ((set_workspaces (workspaces_without_pane pid (workspaces s)) s)
       \<lparr>st_names := filter (\<lambda>n. list_ex (\<lambda>w. w_id w = n_workspace n) (workspaces_without_pane pid (workspaces s)))
          (st_names s)\<rparr>))"
  by (simp add: remove_pane_def workspaces_without_pane_def Let_def)

lemma remove_pane_structure:
  assumes "structure_ok s"
  shows "structure_ok (remove_pane pid s)"
proof -
  let ?ws = "workspaces_without_pane pid (workspaces s)"
  note sums = workspaces_without_pane_sums [of pid "workspaces s"]
  have h: "distinct (concat (map workspace_ids (workspaces s)))" "0 \<notin> set (concat (map workspace_ids (workspaces s)))"
    "\<forall>w\<in>set (workspaces s). intact w" using assms by (auto simp: structure_ok_def hierarchy_ok_def)
  have d: "distinct (concat (map workspace_ids ?ws))" by (rule distinct_submset [OF sums(4) h(1)])
  have "intact w" if "w \<in> set ?ws" for w
  proof -
    obtain v where v: "v \<in> set (workspaces s)" "w = workspace_without_pane pid v" "w_tabs w \<noteq> []"
      using \<open>w \<in> set ?ws\<close> by (auto simp: workspaces_without_pane_def)
    have "wf_workspace v"
      using h v(1) by (auto simp: wf_workspace_def intact_def dest: split_list)
    then show ?thesis using h(3) v by (auto intro: intact_without_pane)
  qed
  moreover have "0 \<notin> set (concat (map workspace_ids ?ws))"
    using set_mset_mono [OF sums(4)] h(2) by (simp only: set_mset_mset) blast
  ultimately have "hierarchy_ok ?ws" using d by (simp add: hierarchy_ok_def)
  moreover have "names_ok (filter (\<lambda>n. list_ex (\<lambda>w. w_id w = n_workspace n) ?ws) (st_names s)) ?ws"
    using assms distinct_w_ids [OF h(1)] distinct_w_ids [OF d]
    by (intro names_ok_filter [of _ "workspaces s"]) (auto simp: structure_ok_def workspaces_without_pane_def)
  moreover have "\<forall>w\<in>set ?ws. valid_name (w_name w)"
    using assms by (auto simp: structure_ok_def workspaces_without_pane_def)
  ultimately have "pre_ok ((set_workspaces ?ws s)\<lparr>st_names := filter (\<lambda>n. list_ex (\<lambda>w. w_id w = n_workspace n) ?ws) (st_names s)\<rparr>)"
    using assms sums workspaces_without_pane_empty [of pid]
    by (auto simp: pre_ok_def structure_ok_def within_limits_def counts home_ok_def)
  from recalculate_structure [OF this] show ?thesis
    by (subst structure_cong(1)) (simp_all add: remove_pane_alt)
qed

lemma remove_panes_structure: "structure_ok s \<Longrightarrow> structure_ok (fold remove_pane ids s)"
  by (induction ids arbitrary: s) (simp_all add: remove_pane_structure)

section \<open>The arms of an edit\<close>

text \<open>What an arm leaves: a state ready for its names, or the state it was given.\<close>

definition arm_ok :: "state \<Rightarrow> step \<times> state \<Rightarrow> bool" where
  "arm_ok s r \<longleftrightarrow> (case fst r of Target _ \<Rightarrow> pre_ok (snd r) | _ \<Rightarrow> snd r = s)"

lemma arm_okI [intro]: "pre_ok s' \<Longrightarrow> arm_ok s (Target i, s')" "arm_ok s (Return out, s)" "arm_ok s (Refuse e, s)"
  by (simp_all add: arm_ok_def)

lemma end_all_sessions_arm: "structure_ok s \<Longrightarrow> arm_ok s (end_all_sessions confirmation s)"
  by (auto simp: end_all_sessions_def arm_ok_def structure_cong(2) [of "s\<lparr>st_session_ends := x\<rparr>" s for x]
      dest: structure_pre split: option.split)

lemma edit_close_arm: "structure_ok s \<Longrightarrow> arm_ok s (edit_close device target confirmation s)"
  unfolding edit_close_def
  by (auto intro!: arm_okI structure_pre remove_panes_structure split: option.split)

lemma new_pane_ok: "valid_path start \<Longrightarrow> pane_ok (new_pane p src side start by)"
  by (simp add: pane_ok_def new_pane_def no_observers_def bad_path_def MAX_OBSERVER_NAMES_def)

lemma new_pane_simps [simp]:
  "p_id (new_pane p src side start by) = p" "p_source (new_pane p src side start by) = src"
  by (simp_all add: new_pane_def)

lemma valid_name_trim: "valid_name name \<Longrightarrow> valid_name (trim name)"
  using trim_trim_nonempty [of name] str_len_trim [of name] trim_subset [of name]
  by (auto simp: valid_name_def list_ex_iff)

lemma find_naming_append:
  "i \<notin> set (map n_workspace names) \<Longrightarrow> n_workspace n = i \<Longrightarrow> find_naming (names @ [n]) i = Some n"
  by (induction names) (auto simp: find_naming_def)

lemma create_workspace_arm:
  assumes "structure_ok s" "fresh_ids rnd s" "valid_path directory" "\<not> bad_path pin" "st_home_directory s \<noteq> None"
  shows "arm_ok s (create_workspace rnd validate_pin directory device name pin control s)"
proof -
  let ?by = "creator control device (st_inventory s)"
  let ?new = "\<lambda>i t p. \<lparr>w_id = i, w_name = trim name, w_name_version = 0, w_pin_version = 0,
      w_pinned_directory = pin, w_root_tab = t,
      w_tabs = [\<lparr>t_membership = Following, t_worktree = None, t_worktree_repository = None, t_id = t, t_root_pane = p,
        t_panes = [new_pane p None SideRight (case pin of Some d \<Rightarrow> d | None \<Rightarrow> directory) ?by]\<rparr>]\<rparr>"
  let ?naming = "\<lambda>i. \<lparr>n_workspace = i, n_custom = (if trim name \<noteq> [] then Some (trim name) else None), n_automatic_base = []\<rparr>"
  have "pre_ok ((set_workspaces (workspaces s @ [?new i t p]) s)\<lparr>st_names := st_names s @ [?naming i]\<rparr>)"
    if r: "rnd 0 = Some i" "rnd 1 = Some t" "rnd 2 = Some p"
      and name: "trim name = [] \<or> valid_name name"
      and room: "length (workspaces s) < MAX_WORKSPACES" "pane_count s < MAX_PANES" "tab_count s < MAX_TABS" for i t p
  proof -
    have new: "distinct [i, t, p]" "0 \<notin> {i, t, p}" "{i, t, p} \<inter> set (state_ids s) = {}"
      using fresh_ids_drawn(3) [OF assms(2) r] by auto
    have start: "valid_path (case pin of Some d \<Rightarrow> d | None \<Rightarrow> directory)"
      using assms(3,4) by (auto simp: bad_path_def split: option.splits)
    have "intact (?new i t p)"
      using new_pane_ok [OF start] assms(4) by (simp add: intact_def workspace_panes_def wf_tab_def worktree_ok_def bad_path_def)
    moreover have "workspace_ids (?new i t p) = [i, t, p]" by (simp add: workspace_ids_def tab_ids_def)
    ultimately have h: "hierarchy_ok (workspaces s @ [?new i t p])"
      using assms(1) new by (auto simp: structure_ok_def hierarchy_ok_def state_ids_def)
    have "i \<notin> set (map w_id (workspaces s))"
      using new(3) by (auto simp: state_ids_def workspace_ids_def)
    then have "i \<notin> set (map n_workspace (st_names s))"
      using assms(1) by (metis names_ok_def set_mset_mset structure_ok_def)
    from find_naming_append [OF this, of "?naming i"] have "awaits_name (st_names s @ [?naming i]) (?new i t p)"
      by (simp add: awaits_name_def)
    then have n: "\<forall>w\<in>set (workspaces s @ [?new i t p]). valid_name (w_name w) \<or> awaits_name (st_names s @ [?naming i]) w"
      using assms(1) by (auto simp: structure_ok_def)
    have "names_ok (st_names s @ [?naming i]) (workspaces s @ [?new i t p])"
      using assms(1) name valid_name_trim by (auto simp: structure_ok_def names_ok_def)
    with h n show ?thesis
      using assms(1,5) room by (simp add: pre_ok_def structure_ok_def within_limits_def counts home_ok_def workspace_panes_def)
  qed
  then show ?thesis
    unfolding create_workspace_def Let_def by (auto intro!: arm_okI split: option.split)
qed

lemma restored_directory_valid: "pane_ok p \<Longrightarrow> valid_path (restored_directory p)"
  by (auto simp: pane_ok_def restored_directory_def bad_path_def split: option.splits)

lemma root_pane_of_mem: "root_pane_of w = Some p \<Longrightarrow> p \<in> set (workspace_panes w)"
  by (auto simp: root_pane_of_def find_tab_def find_pane_def workspace_panes_def dest!: find_SomeD split: option.splits)

lemma intact_append_tab:
  assumes "intact w" "worktree_ok t" "t_panes t = [new_pane p None side start by]" "t_root_pane t = p" "valid_path start"
  shows "intact (w\<lparr>w_tabs := w_tabs w @ [t]\<rparr>)"
  using assms new_pane_ok [OF assms(5)] by (auto simp: intact_def workspace_panes_def wf_tab_def)

text \<open>A Tab with one new Pane at the end of a Workspace.\<close>

lemma append_tab_pre_ok:
  assumes s: "structure_ok s" and w: "find_workspace (st_inventory s) i = Some w"
    and t: "worktree_ok t" "t_panes t = [new_pane p None side start by]" "t_root_pane t = p" "valid_path start"
    and new: "distinct [t_id t, p]" "0 \<notin> set [t_id t, p]" "set [t_id t, p] \<inter> set (state_ids s) = {}"
    and room: "tab_count s < MAX_TABS" "pane_count s < MAX_PANES"
  shows "pre_ok (put_workspace i (\<lambda>w. w\<lparr>w_tabs := w_tabs w @ [t]\<rparr>) s)"
proof (rule put_workspace_pre_ok [OF s w _ _ _ _ new])
  note f = found_workspace [OF s w]
  show "intact (w\<lparr>w_tabs := w_tabs w @ [t]\<rparr>)" by (rule intact_append_tab [OF f(3) t])
  show "mset (workspace_ids (w\<lparr>w_tabs := w_tabs w @ [t]\<rparr>)) \<subseteq># mset (workspace_ids w) + mset [t_id t, p]"
    using t(2) by (simp add: workspace_ids_def tab_ids_def)
qed (use found_workspace [OF s w] t(2) room in \<open>simp_all add: workspace_panes_def\<close>)

lemma create_tab_arm:
  assumes s: "structure_ok s" and fresh: "fresh_ids rnd s"
  shows "arm_ok s (create_tab rnd validate_pin device workspace source control s)"
proof -
  have pin: "valid_path d"
    if "find_workspace (st_inventory s) workspace = Some w" "w_pinned_directory w = Some d" for w d
    using found_workspace(3) [OF s that(1)] that(2) by (simp add: intact_def bad_path_def)
  have src: "valid_path (restored_directory p)"
    if "find_workspace (st_inventory s) workspace = Some w" "p \<in> set (workspace_panes w)" for w p
    using found_workspace(3) [OF s that(1)] that(2) restored_directory_valid by (simp add: intact_def)
  have mem: "List.find (\<lambda>p. p_id p = i) (concat (map t_panes (w_tabs w))) = Some p \<Longrightarrow> p \<in> set (workspace_panes w)" for w i p
    by (auto simp: workspace_panes_def dest: find_SomeD)
  show ?thesis
    unfolding create_tab_def Let_def
    by (auto intro!: arm_okI append_tab_pre_ok [OF s] intro: pin src mem root_pane_of_mem
        simp: worktree_ok_def bad_path_def split: option.split dest: fresh_ids_drawn(2) [OF fresh, simplified])
qed

lemma split_pane_arm:
  assumes s: "structure_ok s" and fresh: "fresh_ids rnd s" and dir: "valid_path directory"
  shows "arm_ok s (split_pane rnd validate_pin directory device workspace tab source axis control s)"
proof -
  have put: "pre_ok (put_workspace workspace (\<lambda>w. w\<lparr>w_tabs := update_first (\<lambda>t. t_id t = tab)
       (\<lambda>t. t\<lparr>t_panes := t_panes t @ [new_pane i (Some source) (side_of_axis axis) start by]\<rparr>) (w_tabs w)\<rparr>) s)"
    if w: "find_workspace (st_inventory s) workspace = Some w" and t: "find_tab w tab = Some t"
      and p: "find_pane t source = Some p" and i: "rnd 0 = Some i" and room: "pane_count s < MAX_PANES"
      and start: "valid_path start" for w t p i start "by"
  proof -
    note f = found_workspace [OF s w] and new = fresh_ids_drawn(1) [OF fresh i]
    obtain ys zs where tabs: "w_tabs w = ys @ t # zs"
      and upd: "\<And>g. update_first (\<lambda>t. t_id t = tab) g (w_tabs w) = ys @ g t # zs"
      using t unfolding find_tab_def by (rule update_first_split) blast
    have src: "source \<in> set (map p_id (t_panes t))" using p by (auto simp: find_pane_def dest: find_SomeD)
    let ?p = "new_pane i (Some source) (side_of_axis axis) start by"
    have wf: "wf_tab t" using f(3) tabs by (simp add: intact_def)
    show ?thesis
    proof (rule put_workspace_pre_ok [OF s w, of _ "[i]"])
      show "intact (w\<lparr>w_tabs := update_first (\<lambda>t. t_id t = tab) (\<lambda>t. t\<lparr>t_panes := t_panes t @ [?p]\<rparr>) (w_tabs w)\<rparr>)"
        using f(3) wf_tab_append_pane [OF wf src, of ?p] new_pane_ok [OF start] unfolding upd
        by (auto simp: intact_def tabs workspace_panes_def worktree_ok_def hd_append split: list.splits)
      show "mset (workspace_ids (w\<lparr>w_tabs := update_first (\<lambda>t. t_id t = tab) (\<lambda>t. t\<lparr>t_panes := t_panes t @ [?p]\<rparr>) (w_tabs w)\<rparr>))
          \<subseteq># mset (workspace_ids w) + mset [i]"
        unfolding upd by (simp add: workspace_ids_def tab_ids_def tabs add_mset_commute)
    qed (use f new room s in \<open>simp_all add: upd [unfolded tabs] tabs workspace_panes_def structure_ok_def within_limits_def\<close>)
  qed
  have start: "pane_ok p \<and> \<not> bad_path (w_pinned_directory w)"
    if "find_workspace (st_inventory s) workspace = Some w" "find_tab w tab = Some t" "find_pane t source = Some p" for w t p
    using found_workspace(3) [OF s that(1)] that(2,3)
    by (auto simp: intact_def find_tab_def find_pane_def workspace_panes_def dest!: find_SomeD)
  have pin: "valid_path d" if "find_workspace (st_inventory s) workspace = Some w" "find_tab w tab = Some t"
      "find_pane t source = Some p" "w_pinned_directory w = Some d" for w t p d
    using start [OF that(1-3)] that(4) by (simp add: bad_path_def)
  have src: "valid_path (restored_directory p)" if "find_workspace (st_inventory s) workspace = Some w"
      "find_tab w tab = Some t" "find_pane t source = Some p" for w t p
    using start [OF that] by (simp add: restored_directory_valid)
  show ?thesis
    unfolding split_pane_def Let_def
    by (auto intro!: arm_okI intro: put pin src dir split: option.split simp: not_le)
qed

lemma put_workspace_same:
  assumes "find_workspace (st_inventory s) i = Some w"
  shows "put_workspace i (\<lambda>_. w) s = s"
proof -
  obtain ys zs where ws: "workspaces s = ys @ w # zs" "put_workspace i (\<lambda>_. w) s = set_workspaces (ys @ w # zs) s"
    using assms by (rule put_workspace_split) blast
  then show ?thesis by (simp add: set_workspaces_def flip: ws(1))
qed

context workspace_edit
begin

lemma keeps_arm:
  assumes s: "structure_ok s" and w: "find_workspace (st_inventory s) i = Some w"
    and e: "edit w = (r, w')"
    and fresh: "distinct fresh" "0 \<notin> set fresh" "set fresh \<inter> set (state_ids s) = {}"
    and room: "tab_count s + length fresh \<le> MAX_TABS"
  shows "pre_ok (put_workspace i (\<lambda>_. w') s)" "r = Inl out \<Longrightarrow> put_workspace i (\<lambda>_. w') s = s"
proof -
  have same: "put_workspace i (\<lambda>_. w') s = s" if "r = Inl out" for out
    using refusal [of w out w'] e that put_workspace_same [OF w] by simp
  then show "r = Inl out \<Longrightarrow> put_workspace i (\<lambda>_. w') s = s" .
  show "pre_ok (put_workspace i (\<lambda>_. w') s)"
  proof (cases r)
    case (Inl out)
    then show ?thesis using same structure_pre [OF s] by simp
  next
    case (Inr a)
    with e have e': "edit w = (Inr a, w')" by simp
    show ?thesis by (rule keeps_state [OF s w e' fresh room])
  qed
qed

end

lemma structure_room: "structure_ok s \<Longrightarrow> tab_count s + length ([] :: Id list) \<le> MAX_TABS"
  by (simp add: structure_ok_def within_limits_def)

lemma move_pane_arm:
  assumes s: "structure_ok s" and fresh: "fresh_ids rnd s"
  shows "arm_ok s (move_pane rnd workspace tab pane dest s)"
proof (cases "find_workspace (st_inventory s) workspace")
  case None
  then show ?thesis by (auto simp: move_pane_def intro: arm_okI)
next
  case (Some w)
  show ?thesis
  proof (cases dest)
    case NewTab
    have "arm_ok s (membership_step workspace i (move_pane_to_new_tab tab pane i w) s)"
      if i: "rnd 0 = Some i" and room: "tab_count s < MAX_TABS" for i
    proof -
      obtain r w' where e: "move_pane_to_new_tab tab pane i w = (r, w')" by fastforce
      note k = to_new_tab.keeps_arm [OF s Some e]
      show ?thesis using fresh_ids_drawn(1) [OF fresh i] room k
        by (cases r) (auto simp: membership_step_def e arm_ok_def)
    qed
    then show ?thesis using NewTab Some
      by (auto simp: move_pane_def not_le split: option.split intro: arm_okI)
  next
    case (Beside into beside side)
    obtain r w' where e: "move_pane_beside tab pane into beside side w = (r, w')" by fastforce
    note k = to_beside.keeps_arm [OF s Some e]
    show ?thesis using Beside Some structure_room [OF s] k
      by (cases r) (auto simp: move_pane_def membership_step_def e arm_ok_def)
  qed
qed

lemma merge_tabs_arm:
  assumes s: "structure_ok s"
  shows "arm_ok s (merge_tabs workspace tab into beside side s)"
proof (cases "find_workspace (st_inventory s) workspace")
  case None
  then show ?thesis by (auto simp: merge_tabs_def intro: arm_okI)
next
  case (Some w)
  obtain r w' where e: "merge_tab tab into beside side w = (r, w')" by fastforce
  note k = merging.keeps_arm [OF s Some e]
  show ?thesis using Some structure_room [OF s] k
    by (cases r) (auto simp: merge_tabs_def membership_step_def e arm_ok_def)
qed

lemma pin_workspace_arm:
  assumes s: "structure_ok s" and pin: "\<not> bad_path directory"
  shows "arm_ok s (pin_workspace validate_pin workspace version directory s)"
proof (cases "find_workspace (st_inventory s) workspace")
  case None
  then show ?thesis by (auto simp: pin_workspace_def intro: arm_okI)
next
  case (Some w)
  have "pre_ok (put_workspace workspace (\<lambda>w. w\<lparr>w_pinned_directory := directory, w_pin_version := wrapping_add (w_pin_version w) 1\<rparr>) s)"
    using found_workspace [OF s Some] pin s
    by (intro put_workspace_pre_ok [OF s Some, of _ "[]"])
      (simp_all add: intact_def workspace_panes_def workspace_ids_def structure_ok_def within_limits_def)
  then show ?thesis using Some by (auto simp: pin_workspace_def intro!: arm_okI split: option.split)
qed

lemma names_ok_custom:
  assumes "names_ok names ws" "valid_name name"
  shows "names_ok (update_first (\<lambda>n. n_workspace n = i) (\<lambda>n. n\<lparr>n_custom := Some name\<rparr>) names) ws"
proof -
  have "map n_workspace (update_first (\<lambda>n. n_workspace n = i) (\<lambda>n. n\<lparr>n_custom := Some name\<rparr>) names) = map n_workspace names"
    by (rule map_update_first) simp
  moreover have "\<forall>n\<in>set (update_first (\<lambda>n. n_workspace n = i) (\<lambda>n. n\<lparr>n_custom := Some name\<rparr>) names).
      \<forall>c. n_custom n = Some c \<longrightarrow> valid_name c"
    using assms set_update_first [of "\<lambda>n. n_workspace n = i" "\<lambda>n. n\<lparr>n_custom := Some name\<rparr>" names]
    by (fastforce simp: names_ok_def)
  ultimately show ?thesis using assms(1) by (simp only: names_ok_def)
qed

lemma rename_workspace_arm:
  assumes s: "structure_ok s"
  shows "arm_ok s (rename_workspace workspace version name s)"
proof (cases "find_workspace (st_inventory s) workspace")
  case None
  then show ?thesis by (auto simp: rename_workspace_def intro: arm_okI)
next
  case (Some w)
  let ?f = "\<lambda>w. w\<lparr>w_name_version := wrapping_add (w_name_version w) 1\<rparr>"
  let ?names = "update_first (\<lambda>n. n_workspace n = workspace) (\<lambda>n. n\<lparr>n_custom := Some (trim name)\<rparr>) (st_names s)"
  have p: "pre_ok (put_workspace workspace ?f s)"
    using found_workspace [OF s Some] s
    by (intro put_workspace_pre_ok [OF s Some, of _ "[]"])
      (simp_all add: intact_def workspace_panes_def workspace_ids_def structure_ok_def within_limits_def)
  obtain ys zs where put: "workspaces s = ys @ w # zs" "put_workspace workspace ?f s = set_workspaces (ys @ ?f w # zs) s"
    using Some by (rule put_workspace_split) blast
  have "\<forall>w\<in>set (workspaces (put_workspace workspace ?f s)). valid_name (w_name w)"
    using s put by (simp add: structure_ok_def)
  with p have "pre_ok ((put_workspace workspace ?f s)\<lparr>st_names := ?names\<rparr>)" if "valid_name name"
    using names_ok_custom [OF _ valid_name_trim [OF that], of "st_names s" "workspaces (put_workspace workspace ?f s)" workspace] put
    by (simp add: pre_ok_def within_limits_def counts home_ok_def)
  then show ?thesis using Some
    unfolding rename_workspace_def by (auto intro!: arm_okI split: option.split)
qed

section \<open>Edits\<close>

lemma edit_target_arm:
  assumes "structure_ok s" "fresh_ids rnd s" "valid_path directory" "is_bounded mutation" "st_home_directory s \<noteq> None"
  shows "arm_ok s (edit_target rnd validate_pin directory device mutation s)"
proof (cases mutation)
  case (CreateWorkspace name pin control)
  with assms have "\<not> bad_path pin" by (auto simp: bad_path_def split: option.splits)
  with CreateWorkspace assms show ?thesis by (simp add: create_workspace_arm)
next
  case (PinWorkspace w version pin)
  with assms have "\<not> bad_path pin" by (cases pin) (auto simp: bad_path_def)
  with PinWorkspace assms show ?thesis by (simp add: pin_workspace_arm)
qed (use assms in \<open>auto intro: end_all_sessions_arm edit_close_arm create_tab_arm split_pane_arm move_pane_arm
  merge_tabs_arm rename_workspace_arm arm_okI\<close>)

text \<open>What an edit never touches.\<close>

definition frame :: "state \<Rightarrow> device_outcomes list \<times> u64 \<times> Id option \<times> worktree_settings" where
  "frame s = (st_devices s, st_sequence_floor s, st_creator_boot s, st_worktree_settings s)"

lemma frame_simps [simp]:
  "frame (set_workspaces ws s) = frame s" "frame (set_revision r s) = frame s" "frame (bump_revision s) = frame s"
  "frame (s\<lparr>st_names := ns\<rparr>) = frame s" "frame (s\<lparr>st_session_ends := e\<rparr>) = frame s"
  "frame (s\<lparr>st_home_directory := h\<rparr>) = frame s" "frame (put_workspace i f s) = frame s"
  "frame (recalculate_names s) = frame s"
  by (simp_all add: frame_def bump_revision_def put_workspace_def set_workspaces_def set_revision_def)

lemma remove_pane_frame [simp]:
  "frame (remove_pane pid s) = frame s" "st_session_ends (remove_pane pid s) = st_session_ends s"
  by (simp_all add: remove_pane_alt)

lemma remove_panes_frame [simp]:
  "frame (fold remove_pane ids s) = frame s" "st_session_ends (fold remove_pane ids s) = st_session_ends s"
  by (induction ids arbitrary: s) simp_all

lemma edit_target_frame: "frame (snd (edit_target rnd validate_pin directory device mutation s)) = frame s"
  by (cases mutation)
    (auto simp: end_all_sessions_def edit_close_def create_workspace_def create_tab_def split_pane_def move_pane_def
      merge_tabs_def membership_step_def rename_workspace_def pin_workspace_def Let_def
      split: option.split pane_destination.split sum.split)

lemma put_workspace_ends [simp]: "st_session_ends (put_workspace i f s) = st_session_ends s"
  by (simp add: put_workspace_def)

lemma edit_target_ends:
  "st_session_ends (snd (edit_target rnd validate_pin directory device mutation s)) =
     (case mutation of EndAllSessions c \<Rightarrow>
        (case inv_close (st_inventory s) of
           Some live \<Rightarrow> if ci_boot live = ci_boot c \<and> ci_sessions live = ci_sessions c then Some c else st_session_ends s
         | None \<Rightarrow> st_session_ends s)
      | _ \<Rightarrow> st_session_ends s)"
  by (cases mutation)
    (auto simp: end_all_sessions_def edit_close_def create_workspace_def create_tab_def split_pane_def move_pane_def
      merge_tabs_def membership_step_def rename_workspace_def pin_workspace_def Let_def
      split: option.split pane_destination.split sum.split)

end
