(* ===== verification/Outcomes.thy ===== *)
theory Outcomes
  imports Preservation
begin

text \<open>
  The durable outcomes of edits (\<open>State::apply\<close>, \<open>acknowledge\<close>, \<open>finish_worktree\<close> and \<open>forget\<close> of
  \<open>hierarchy.rs\<close>). Each device numbers its edits; the state retains an outcome until the device
  acknowledges it, so an edit sent again is answered from the record. The devices are in the order of
  their last edit.
\<close>

section \<open>Operations\<close>

definition find_device :: "Id \<Rightarrow> state \<Rightarrow> device_outcomes option" where
  "find_device device s = List.find (\<lambda>d. d_device d = device) (st_devices s)"

definition outcome_of :: "state \<Rightarrow> Id \<Rightarrow> u64 \<Rightarrow> retained_outcome option" where
  "outcome_of s device sequence =
     (case find_device device s of
        None \<Rightarrow> None | Some d \<Rightarrow> List.find (\<lambda>r. ro_sequence r = sequence) (d_pending d))"

definition next_sequence :: "state \<Rightarrow> Id \<Rightarrow> u64" where
  "next_sequence s device =
     (case find_device device s of
        None \<Rightarrow> wrapping_add (st_sequence_floor s) 1
      | Some d \<Rightarrow> (if d_pending d = [] then wrapping_add (d_retired d) 1
                  else wrapping_add (ro_sequence (last (d_pending d))) 1))"

definition holds :: "state \<Rightarrow> Id \<Rightarrow> bool" where
  "holds s device = list_ex (\<lambda>d. d_device d = device \<and> d_pending d \<noteq> []) (st_devices s)"

definition forget :: "Id \<Rightarrow> state \<Rightarrow> bool \<times> state" where
  "forget device s =
     (if list_ex (\<lambda>d. d_device d = device \<and> list_ex (\<lambda>r. ro_outcome r = Pending) (d_pending d)) (st_devices s)
      then (False, s)
      else (True, s\<lparr>st_devices := filter (\<lambda>d. d_device d \<noteq> device) (st_devices s)\<rparr>))"

definition pending_worktrees :: "state \<Rightarrow> (Id \<times> retained_outcome) list" where
  "pending_worktrees s =
     concat (map (\<lambda>d. map (\<lambda>r. (d_device d, r)) (filter (\<lambda>r. ro_outcome r = Pending) (d_pending d))) (st_devices s))"

definition put_device :: "Id \<Rightarrow> (device_outcomes \<Rightarrow> device_outcomes) \<Rightarrow> state \<Rightarrow> state" where
  "put_device device f s = s\<lparr>st_devices := update_first (\<lambda>d. d_device d = device) f (st_devices s)\<rparr>"

definition finish_worktree :: "Id \<Rightarrow> u64 \<Rightarrow> outcome \<Rightarrow> state \<Rightarrow> (refusal + unit) \<times> state" where
  "finish_worktree device sequence out s =
     (case outcome_of s device sequence of
        None \<Rightarrow> (Inl RefusedMissing, s)
      | Some r \<Rightarrow>
          if ro_outcome r \<noteq> Pending \<or> \<not> is_worktree_mutation (ro_mutation r) \<or> out = Pending
          then (Inl RefusedStale, s)
          else (Inr (), put_device device (\<lambda>d. d\<lparr>d_pending :=
                  update_first (\<lambda>r. ro_sequence r = sequence) (\<lambda>r. r\<lparr>ro_outcome := out\<rparr>) (d_pending d)\<rparr>) s))"

text \<open>The record an edit of a device goes to, with the devices that stay before it and the new
  sequence floor; \<open>None\<close> where the table is full and every device still holds an outcome.\<close>

definition device_record :: "Id \<Rightarrow> u64 \<Rightarrow> state \<Rightarrow> (device_outcomes \<times> device_outcomes list \<times> u64) option" where
  "device_record device sequence s =
     (case position (\<lambda>d. d_device d = device) (st_devices s) of
        Some i \<Rightarrow> Some (st_devices s ! i, remove_at i (st_devices s), st_sequence_floor s)
      | None \<Rightarrow>
          let record = \<lparr>d_device = device, d_retired = sequence - 1, d_pending = []\<rparr>
          in if length (st_devices s) \<ge> MAX_DEVICES
             then case position (\<lambda>d. d_pending d = []) (st_devices s) of
                    None \<Rightarrow> None
                  | Some idle \<Rightarrow> Some (record, remove_at idle (st_devices s),
                      max (st_sequence_floor s) (d_retired (st_devices s ! idle)))
             else Some (record, st_devices s, st_sequence_floor s))"

definition push_outcome :: "retained_outcome \<Rightarrow> device_outcomes list \<Rightarrow> device_outcomes list" where
  "push_outcome r ds = (if ds = [] then ds else butlast ds @ [(last ds)\<lparr>d_pending := d_pending (last ds) @ [r]\<rparr>])"

definition apply_edit :: "(nat \<Rightarrow> Id option) \<Rightarrow> (path \<Rightarrow> bool) \<Rightarrow> path \<Rightarrow> Id \<Rightarrow> u64 \<Rightarrow> path_mutation \<Rightarrow> state \<Rightarrow>
    (refusal + outcome) \<times> state" where
  "apply_edit rnd validate_pin directory device sequence mutation s =
     (if \<not> is_bounded mutation then (Inl Unsupported, s)
      else case outcome_of s device sequence of
        Some old \<Rightarrow> (if mutation_eq (ro_mutation old) mutation then Inr (ro_outcome old) else Inl RefusedStale, s)
      | None \<Rightarrow>
          let expected = (if list_ex (\<lambda>d. d_device d = device) (st_devices s)
                          then sequence = next_sequence s device
                          else 1 \<le> sequence \<and> sequence \<le> next_sequence s device)
          in if \<not> expected \<or> sequence = u64_max then (Inl RefusedStale, s)
             else if sum_list (map (\<lambda>d. length (d_pending d)) (st_devices s)) \<ge> MAX_OUTCOMES
             then (Inl Capacity, s)
             else case device_record device sequence s of
               None \<Rightarrow> (Inl Capacity, s)
             | Some (record, others, floor) \<Rightarrow>
                 (case edit rnd validate_pin directory device mutation
                         (s\<lparr>st_devices := others @ [record], st_sequence_floor := floor\<rparr>) of
                    (Inl refusal, s') \<Rightarrow> (Inl refusal, s')
                  | (Inr out, s') \<Rightarrow>
                      if st_devices s' = [] then (Inl Failed, s')
                      else (Inr out, s'\<lparr>st_devices := push_outcome
                             \<lparr>ro_sequence = sequence, ro_mutation = mutation, ro_outcome = out\<rparr> (st_devices s')\<rparr>)))"

definition acknowledge :: "Id \<Rightarrow> u64 \<Rightarrow> state \<Rightarrow> (refusal + unit) \<times> state" where
  "acknowledge device sequence s =
     (case find_device device s of
        None \<Rightarrow> (Inr (), s)
      | Some d \<Rightarrow>
          let settled = length (takeWhile (\<lambda>r. ro_sequence r \<le> sequence) (d_pending d));
              drained = take settled (d_pending d)
          in if list_ex (\<lambda>r. ro_outcome r = Pending) drained then (Inl RefusedStale, s)
             else (Inr (), put_device device (\<lambda>d. d\<lparr>d_pending := drop settled (d_pending d),
                     d_retired := (if drained = [] then d_retired d
                                   else max (d_retired d) (ro_sequence (last drained)))\<rparr>) s))"

lemmas outcomes_run [run_simps] = find_device_def outcome_of_def next_sequence_def holds_def forget_def
  pending_worktrees_def put_device_def finish_worktree_def device_record_def push_outcome_def apply_edit_def
  acknowledge_def mutation_eq_def

section \<open>The retained outcomes of one device\<close>

lemma device_ok_sequences:
  assumes "device_ok d" "i < length (d_pending d)"
  shows "ro_sequence (d_pending d ! i) = d_retired d + 1 + i"
  using assms by (metis add_less_cancel_left device_ok_def length_map nth_map nth_upt)

lemma device_ok_last:
  assumes "device_ok d" "d_pending d \<noteq> []"
  shows "ro_sequence (last (d_pending d)) = d_retired d + length (d_pending d)"
  using assms device_ok_sequences [OF assms(1), of "length (d_pending d) - 1"]
  by (simp add: last_conv_nth Suc_diff_Suc)

lemma device_ok_find:
  assumes "device_ok d"
  shows "List.find (\<lambda>r. ro_sequence r = q) (d_pending d) =
    (if d_retired d < q \<and> q \<le> d_retired d + length (d_pending d) then Some (d_pending d ! (q - d_retired d - 1)) else None)"
proof -
  have d: "distinct (map ro_sequence (d_pending d))" using assms by (simp add: device_ok_def)
  show ?thesis
  proof (cases "d_retired d < q \<and> q \<le> d_retired d + length (d_pending d)")
    case True
    let ?i = "q - d_retired d - 1"
    have i: "?i < length (d_pending d)" using True by auto
    then have q: "ro_sequence (d_pending d ! ?i) = q" using device_ok_sequences [OF assms i] True by auto
    then show ?thesis using True find_key_unique [OF d, of "d_pending d ! ?i"] i by simp
  next
    case False
    have "\<forall>r\<in>set (d_pending d). ro_sequence r \<noteq> q"
    proof
      fix r assume "r \<in> set (d_pending d)"
      then obtain i where "i < length (d_pending d)" "r = d_pending d ! i" by (auto simp: in_set_conv_nth)
      then show "ro_sequence r \<noteq> q" using device_ok_sequences [OF assms, of i] False by auto
    qed
    then show ?thesis using False by (auto simp: find_None_iff)
  qed
qed

lemma find_key_iff:
  assumes "distinct (map k xs)"
  shows "List.find (\<lambda>x. k x = i) xs = Some x \<longleftrightarrow> x \<in> set xs \<and> k x = i"
proof
  assume "List.find (\<lambda>x. k x = i) xs = Some x"
  from find_SomeD [OF this] show "x \<in> set xs \<and> k x = i" by simp
next
  assume "x \<in> set xs \<and> k x = i"
  then show "List.find (\<lambda>x. k x = i) xs = Some x" using find_key_unique [OF assms, of x] by simp
qed

lemma find_device_iff: "outcomes_ok s \<Longrightarrow> find_device i s = Some d \<longleftrightarrow> d \<in> set (st_devices s) \<and> d_device d = i"
  by (simp add: find_device_def outcomes_ok_def find_key_iff)

lemma find_device_None: "find_device i s = None \<longleftrightarrow> i \<notin> set (map d_device (st_devices s))"
  by (auto simp: find_device_def find_None_iff)

lemma find_device_ok: "outcomes_ok s \<Longrightarrow> find_device i s = Some d \<Longrightarrow> device_ok d \<and> d_device d = i"
  using find_device_iff by (auto simp: outcomes_ok_def)

text \<open>The next sequence of a device, without the wrap-around, which a sound state never reaches.\<close>

lemma next_sequence_known:
  assumes "outcomes_ok s" "find_device i s = Some d"
  shows "next_sequence s i = d_retired d + length (d_pending d) + 1"
proof -
  have d: "device_ok d" using find_device_ok [OF assms] by simp
  then have "d_retired d + length (d_pending d) < u64_max" by (simp add: device_ok_def)
  then show ?thesis using device_ok_last [OF d] assms(2)
    by (auto simp: next_sequence_def wrapping_add_small)
qed

lemma next_sequence_unknown:
  "outcomes_ok s \<Longrightarrow> find_device i s = None \<Longrightarrow> next_sequence s i = st_sequence_floor s + 1"
  by (simp add: next_sequence_def outcomes_ok_def wrapping_add_small)

lemma outcome_of_iff:
  assumes "outcomes_ok s"
  shows "outcome_of s i q = Some r \<longleftrightarrow>
    (\<exists>d\<in>set (st_devices s). d_device d = i \<and> r \<in> set (d_pending d) \<and> ro_sequence r = q)"
proof -
  have key: "List.find (\<lambda>r. ro_sequence r = q) (d_pending d) = Some r \<longleftrightarrow> r \<in> set (d_pending d) \<and> ro_sequence r = q"
    if "d \<in> set (st_devices s)" for d
    using assms that by (intro find_key_iff) (simp add: outcomes_ok_def device_ok_def)
  have "outcome_of s i q = Some r \<longleftrightarrow>
      (\<exists>d. find_device i s = Some d \<and> List.find (\<lambda>r. ro_sequence r = q) (d_pending d) = Some r)"
    by (auto simp: outcome_of_def split: option.split)
  also have "\<dots> \<longleftrightarrow> (\<exists>d\<in>set (st_devices s). d_device d = i \<and> r \<in> set (d_pending d) \<and> ro_sequence r = q)"
    using find_device_iff [OF assms] key by blast
  finally show ?thesis .
qed

section \<open>The record of a device\<close>

lemma sum_list_remove_at:
  assumes "i < length xs"
  shows "sum_list (map f (remove_at i xs)) + f (xs ! i) = (sum_list (map f xs) :: nat)"
proof -
  have "sum_mset (image_mset f (mset xs)) = f (xs ! i) + sum_mset (image_mset f (mset (remove_at i xs)))"
    by (simp flip: mset_remove_at [OF assms])
  then show ?thesis by (simp add: sum_mset_sum_list flip: mset_map)
qed

lemma device_record_known:
  assumes ok: "outcomes_ok s" and i: "position (\<lambda>d. d_device d = device) (st_devices s) = Some i"
  shows "find_device device s = Some (st_devices s ! i)"
    "outcomes_ok (s\<lparr>st_devices := remove_at i (st_devices s) @ [st_devices s ! i]\<rparr>)"
    "sum_list (map (\<lambda>d. length (d_pending d)) (remove_at i (st_devices s) @ [st_devices s ! i])) =
       sum_list (map (\<lambda>d. length (d_pending d)) (st_devices s))"
proof -
  let ?r = "st_devices s ! i" and ?o = "remove_at i (st_devices s)"
  have l: "i < length (st_devices s)" "d_device ?r = device" using position_SomeD [OF i] by auto
  then show "find_device device s = Some ?r" using find_device_iff [OF ok] by simp
  show sum: "sum_list (map (\<lambda>d. length (d_pending d)) (?o @ [?r])) = sum_list (map (\<lambda>d. length (d_pending d)) (st_devices s))"
    using sum_list_remove_at [OF l(1), of "\<lambda>d. length (d_pending d)"] by simp
  have "mset (?o @ [?r]) = mset (st_devices s)" using mset_remove_at [OF l(1)] by simp
  then have "mset (map d_device (?o @ [?r])) = mset (map d_device (st_devices s))" by (metis mset_map)
  then have "distinct (map d_device (?o @ [?r]))" using ok by (metis mset_eq_imp_distinct_iff outcomes_ok_def)
  moreover have "set (?o @ [?r]) \<subseteq> set (st_devices s)" using set_remove_at [of i "st_devices s"] l(1) by auto
  moreover have "length (?o @ [?r]) = length (st_devices s)" using l(1) by (simp add: length_remove_at)
  ultimately show "outcomes_ok (s\<lparr>st_devices := ?o @ [?r]\<rparr>)"
    using ok sum unfolding outcomes_ok_def by auto
qed

text \<open>A device without a record replaces an idle one where the table is full.\<close>

lemma device_record_new:
  assumes ok: "outcomes_ok s" and new: "position (\<lambda>d. d_device d = device) (st_devices s) = None"
    and rec: "device_record device sequence s = Some (record, others, floor)"
    and seq: "1 \<le> sequence" "sequence < u64_max"
  shows "record = \<lparr>d_device = device, d_retired = sequence - 1, d_pending = []\<rparr>"
    "outcomes_ok (s\<lparr>st_devices := others @ [record], st_sequence_floor := floor\<rparr>)"
    "sum_list (map (\<lambda>d. length (d_pending d)) (others @ [record])) = sum_list (map (\<lambda>d. length (d_pending d)) (st_devices s))"
    "st_sequence_floor s \<le> floor"
    "set others \<subseteq> set (st_devices s)" "\<forall>d\<in>set (st_devices s). d_pending d \<noteq> [] \<longrightarrow> d \<in> set others"
    "\<forall>d\<in>set (st_devices s) - set others. d_retired d \<le> floor"
proof -
  show r: "record = \<lparr>d_device = device, d_retired = sequence - 1, d_pending = []\<rparr>"
    using rec new by (auto simp: device_record_def Let_def split: if_splits option.splits)
  have fresh: "device \<notin> set (map d_device (st_devices s))" using new by auto
  have all: "set others \<subseteq> set (st_devices s) \<and> (\<forall>d\<in>set (st_devices s). d_pending d \<noteq> [] \<longrightarrow> d \<in> set others) \<and>
    (\<forall>d\<in>set (st_devices s) - set others. d_retired d \<le> floor) \<and> length others < MAX_DEVICES \<and>
    distinct (map d_device others) \<and> floor < u64_max \<and> st_sequence_floor s \<le> floor \<and>
    sum_list (map (\<lambda>d. length (d_pending d)) others) = sum_list (map (\<lambda>d. length (d_pending d)) (st_devices s))"
  proof (cases "length (st_devices s) \<ge> MAX_DEVICES")
    case False
    then show ?thesis using rec new ok by (auto simp: device_record_def Let_def outcomes_ok_def)
  next
    case True
    then obtain i where idle: "position (\<lambda>d. d_pending d = []) (st_devices s) = Some i"
      and o: "others = remove_at i (st_devices s)" "floor = max (st_sequence_floor s) (d_retired (st_devices s ! i))"
      using rec new by (auto simp: device_record_def Let_def split: option.splits)
    have i: "i < length (st_devices s)" "d_pending (st_devices s ! i) = []" using position_SomeD [OF idle] by auto
    have "device_ok (st_devices s ! i)" using ok i(1) by (simp add: outcomes_ok_def)
    then have f: "floor < u64_max" using i(2) ok by (simp add: device_ok_def outcomes_ok_def o)
    have all: "set (st_devices s) = insert (st_devices s ! i) (set others)"
      using arg_cong [OF mset_remove_at [OF i(1)], of set_mset] by (simp add: o)
    have d: "distinct (map d_device others)"
      unfolding o map_remove_at using ok by (intro distinct_remove_at) (simp add: outcomes_ok_def)
    have "length others < MAX_DEVICES" using i(1) ok by (auto simp: o length_remove_at outcomes_ok_def)
    then show ?thesis
      using f d all i sum_list_remove_at [OF i(1), of "\<lambda>d. length (d_pending d)"] by (auto simp: o)
  qed
  then show "set others \<subseteq> set (st_devices s)" "\<forall>d\<in>set (st_devices s). d_pending d \<noteq> [] \<longrightarrow> d \<in> set others"
    "\<forall>d\<in>set (st_devices s) - set others. d_retired d \<le> floor" "st_sequence_floor s \<le> floor" by blast+
  show "sum_list (map (\<lambda>d. length (d_pending d)) (others @ [record])) = sum_list (map (\<lambda>d. length (d_pending d)) (st_devices s))"
    using all by (simp add: r)
  have "device_ok record" using seq by (simp add: r device_ok_def)
  then show "outcomes_ok (s\<lparr>st_devices := others @ [record], st_sequence_floor := floor\<rparr>)"
    using all ok fresh by (auto simp: outcomes_ok_def r)
qed

lemma expected_sequence:
  assumes ok: "outcomes_ok s" and rec: "device_record device sequence s = Some (record, others, floor)"
    and expected: "if list_ex (\<lambda>d. d_device d = device) (st_devices s) then sequence = next_sequence s device
      else 1 \<le> sequence \<and> sequence \<le> next_sequence s device"
    and seq: "sequence \<noteq> u64_max"
  shows "d_device record = device" "sequence = d_retired record + length (d_pending record) + 1" "sequence < u64_max"
    "outcomes_ok (s\<lparr>st_devices := others @ [record], st_sequence_floor := floor\<rparr>)"
    "sum_list (map (\<lambda>d. length (d_pending d)) (others @ [record])) = sum_list (map (\<lambda>d. length (d_pending d)) (st_devices s))"
    "\<forall>d\<in>set (st_devices s). d_pending d \<noteq> [] \<longrightarrow> d \<in> set (others @ [record])"
proof -
  have known: "list_ex (\<lambda>d. d_device d = device) (st_devices s) \<longleftrightarrow> find_device device s \<noteq> None"
    by (auto simp: find_device_def find_None_iff list_ex_iff)
  have "d_device record = device \<and> sequence = d_retired record + length (d_pending record) + 1 \<and> sequence < u64_max \<and>
    outcomes_ok (s\<lparr>st_devices := others @ [record], st_sequence_floor := floor\<rparr>) \<and>
    sum_list (map (\<lambda>d. length (d_pending d)) (others @ [record])) = sum_list (map (\<lambda>d. length (d_pending d)) (st_devices s)) \<and>
    (\<forall>d\<in>set (st_devices s). d_pending d \<noteq> [] \<longrightarrow> d \<in> set (others @ [record]))"
  proof (cases "position (\<lambda>d. d_device d = device) (st_devices s)")
    case (Some i)
    note k = device_record_known [OF ok Some]
    have r: "record = st_devices s ! i" "others = remove_at i (st_devices s)" "floor = st_sequence_floor s"
      using rec Some by (auto simp: device_record_def)
    have d: "device_ok record" "d_device record = device" using find_device_ok [OF ok k(1)] r by auto
    have q: "sequence = d_retired record + length (d_pending record) + 1"
      using expected next_sequence_known [OF ok k(1)] k(1) r by (simp add: known)
    have "set (st_devices s) = set (others @ [record])"
      using arg_cong [OF mset_remove_at [OF position_SomeD(1) [OF Some]], of set_mset] by (simp add: r)
    then show ?thesis using q d k(2,3) seq r by (auto simp: device_ok_def)
  next
    case None
    then have new: "find_device device s = None" by (auto simp: find_device_def find_None_iff)
    have q: "1 \<le> sequence" "sequence < u64_max"
      using expected next_sequence_unknown [OF ok new] new seq ok by (auto simp: known outcomes_ok_def)
    show ?thesis using device_record_new [OF ok None rec q] q by auto
  qed
  then show "d_device record = device" "sequence = d_retired record + length (d_pending record) + 1" "sequence < u64_max"
    "outcomes_ok (s\<lparr>st_devices := others @ [record], st_sequence_floor := floor\<rparr>)"
    "sum_list (map (\<lambda>d. length (d_pending d)) (others @ [record])) = sum_list (map (\<lambda>d. length (d_pending d)) (st_devices s))"
    "\<forall>d\<in>set (st_devices s). d_pending d \<noteq> [] \<longrightarrow> d \<in> set (others @ [record])" by simp_all
qed

section \<open>Edits keep the invariant\<close>

text \<open>The close inventory the server publishes with its live Sessions: of the current boot, with
  distinct identities.\<close>

definition live_close_ok :: "state \<Rightarrow> bool" where
  "live_close_ok s =
     (case inv_close (st_inventory s) of
        None \<Rightarrow> True
      | Some live \<Rightarrow> Some (ci_boot live) = st_creator_boot s \<and> distinct (map cp_id (ci_sessions live)) \<and>
          (\<forall>p\<in>set (ci_sessions live). cp_id p \<noteq> 0 \<and> cp_session p \<noteq> Some 0))"

lemma with_home_simps [simp]:
  "workspaces (with_home d s) = workspaces s" "st_names (with_home d s) = st_names s"
  "frame (with_home d s) = frame s" "st_session_ends (with_home d s) = st_session_ends s"
  "inv_close (st_inventory (with_home d s)) = inv_close (st_inventory s)"
  "st_home_directory (with_home d s) \<noteq> None"
  by (auto simp: with_home_def frame_def split: option.split)

lemma fresh_ids_cong: "workspaces s' = workspaces s \<Longrightarrow> fresh_ids rnd s' = fresh_ids rnd s"
  by (simp add: fresh_ids_def state_ids_def cong: option.case_cong)

lemma with_home_structure: "structure_ok s \<Longrightarrow> valid_path d \<Longrightarrow> structure_ok (with_home d s)"
  by (auto simp: structure_ok_def with_home_def within_limits_def counts home_ok_def bad_path_def split: option.split)

lemma validate_ends_same:
  "st_creator_boot s' = st_creator_boot s \<Longrightarrow> st_session_ends s' = st_session_ends s \<Longrightarrow> validate_ends s' = validate_ends s"
  by (simp add: validate_ends_def cong: option.case_cong)

lemma live_close_ok_same:
  "st_creator_boot s' = st_creator_boot s \<Longrightarrow> inv_close (st_inventory s') = inv_close (st_inventory s) \<Longrightarrow>
     live_close_ok s' = live_close_ok s"
  by (simp add: live_close_ok_def cong: option.case_cong)

lemma validate_ends_cong:
  "frame s' = frame s \<Longrightarrow> st_session_ends s' = st_session_ends s \<Longrightarrow> validate_ends s' = validate_ends s"
  by (simp add: validate_ends_def frame_def split: option.split)

lemma outcomes_ok_cong: "frame s' = frame s \<Longrightarrow> outcomes_ok s' = outcomes_ok s"
  by (simp add: outcomes_ok_def frame_def)

lemma finish_edit_facts:
  "frame (snd (finish_edit (r, s))) = frame s"
  "st_session_ends (snd (finish_edit (r, s))) = st_session_ends s"
  by (auto simp: finish_edit_def Let_def split: step.split option.split)

lemma edit_frame: "frame (snd (edit rnd validate_pin directory device mutation s)) = frame s"
  using finish_edit_facts(1) [of "fst (edit_target rnd validate_pin directory device mutation (with_home directory s))"
      "snd (edit_target rnd validate_pin directory device mutation (with_home directory s))"]
    edit_target_frame [of rnd validate_pin directory device mutation "with_home directory s"]
  by (simp add: edit_def)

lemma edit_structure:
  assumes "structure_ok s" "fresh_ids rnd s" "valid_path directory" "is_bounded mutation"
    "edit rnd validate_pin directory device mutation s = (Inr out, s')"
  shows "structure_ok s'"
proof -
  let ?s = "with_home directory s"
  obtain r t where rt: "edit_target rnd validate_pin directory device mutation ?s = (r, t)" by fastforce
  have ok: "structure_ok ?s" by (rule with_home_structure [OF assms(1,3)])
  have "fresh_ids rnd ?s" using fresh_ids_cong [of ?s s] assms(2) by simp
  then have "arm_ok ?s (r, t)"
    using edit_target_arm [OF ok _ assms(3,4), of rnd validate_pin device] by (simp add: rt)
  then show ?thesis
    using assms(5) ok recalculate_structure [of t]
    by (auto simp: edit_def rt finish_edit_def arm_ok_def Let_def structure_cong(1) [of "set_revision x u" u for x u]
        split: step.splits option.splits)
qed

lemma edit_ends:
  assumes "validate_ends s" "live_close_ok s" "is_bounded mutation"
    "edit rnd validate_pin directory device mutation s = (Inr out, s')"
  shows "validate_ends s'"
proof -
  define t where "t = snd (edit_target rnd validate_pin directory device mutation (with_home directory s))"
  note ends = edit_target_ends [of rnd validate_pin directory device mutation "with_home directory s", folded t_def]
  have f: "frame s' = frame s" using edit_frame [of rnd validate_pin directory device mutation s] assms(4) by simp
  have e: "st_session_ends s' = st_session_ends t"
    using finish_edit_facts(2) [of "fst (edit_target rnd validate_pin directory device mutation (with_home directory s))" t] assms(4)
    by (simp add: edit_def t_def)
  show ?thesis
  proof (cases "st_session_ends t = st_session_ends s")
    case True
    then show ?thesis using validate_ends_cong [OF f] e assms(1) by simp
  next
    case False
    then obtain c live where m: "mutation = EndAllSessions c" "inv_close (st_inventory s) = Some live"
      "ci_boot live = ci_boot c" "ci_sessions live = ci_sessions c" "st_session_ends t = Some c"
      using ends by (auto split: mutation.splits option.splits if_splits)
    moreover have "st_creator_boot s' = st_creator_boot s" using f by (simp add: frame_def)
    ultimately show ?thesis using assms(2,3) e
      by (auto simp: validate_ends_def live_close_ok_def distinct_remdups_id list_ex_iff)
  qed
qed

section \<open>Applying an edit\<close>

lemma push_outcome_last: "push_outcome r (ds @ [d]) = ds @ [d\<lparr>d_pending := d_pending d @ [r]\<rparr>]"
  by (simp add: push_outcome_def)

lemma edit_devices: "edit rnd validate_pin directory device mutation s = (x, s') \<Longrightarrow> st_devices s' = st_devices s"
  using edit_frame [of rnd validate_pin directory device mutation s] by (simp add: frame_def)

lemma edit_floor: "edit rnd validate_pin directory device mutation s = (x, s') \<Longrightarrow> st_sequence_floor s' = st_sequence_floor s"
  using edit_frame [of rnd validate_pin directory device mutation s] by (simp add: frame_def)

lemma apply_edit_cases:
  assumes "apply_edit rnd validate_pin directory device sequence mutation s = (Inr out, s')"
  obtains (replay) old where "outcome_of s device sequence = Some old" "mutation_eq (ro_mutation old) mutation"
      "out = ro_outcome old" "s' = s"
  | (applied) rec others floor s1 where "is_bounded mutation" "outcome_of s device sequence = None"
      "if list_ex (\<lambda>d. d_device d = device) (st_devices s) then sequence = next_sequence s device
         else 1 \<le> sequence \<and> sequence \<le> next_sequence s device"
      "sequence \<noteq> u64_max" "sum_list (map (\<lambda>d. length (d_pending d)) (st_devices s)) < MAX_OUTCOMES"
      "device_record device sequence s = Some (rec, others, floor)"
      "edit rnd validate_pin directory device mutation
         (s\<lparr>st_devices := others @ [rec], st_sequence_floor := floor\<rparr>) = (Inr out, s1)"
      "s' = s1\<lparr>st_devices := others @ [rec\<lparr>d_pending := d_pending rec @
         [\<lparr>ro_sequence = sequence, ro_mutation = mutation, ro_outcome = out\<rparr>]\<rparr>]\<rparr>"
proof (cases "outcome_of s device sequence")
  case (Some old)
  with assms show ?thesis by (intro replay) (auto simp: apply_edit_def split: if_splits)
next
  case None
  with assms obtain rec others floor s1 where *: "is_bounded mutation"
      "if list_ex (\<lambda>d. d_device d = device) (st_devices s) then sequence = next_sequence s device
         else 1 \<le> sequence \<and> sequence \<le> next_sequence s device"
      "sequence \<noteq> u64_max" "sum_list (map (\<lambda>d. length (d_pending d)) (st_devices s)) < MAX_OUTCOMES"
      "device_record device sequence s = Some (rec, others, floor)"
      "edit rnd validate_pin directory device mutation
         (s\<lparr>st_devices := others @ [rec], st_sequence_floor := floor\<rparr>) = (Inr out, s1)"
      "s' = s1\<lparr>st_devices := push_outcome \<lparr>ro_sequence = sequence, ro_mutation = mutation, ro_outcome = out\<rparr>
         (st_devices s1)\<rparr>"
    by (auto simp: apply_edit_def Let_def not_le split: if_splits option.splits prod.splits sum.splits)
  have "st_devices s1 = others @ [rec]" using edit_devices [OF *(6)] by simp
  with * None show ?thesis by (intro applied) (simp_all add: push_outcome_last)
qed

lemma edit_pending:
  assumes "edit rnd validate_pin directory device mutation s = (Inr Pending, s')"
  shows "is_worktree_mutation mutation"
proof -
  have ws: "move_pane_to_new_tab t p n w \<noteq> (Inl Pending, w')" "move_pane_beside t p i b sd w \<noteq> (Inl Pending, w')"
    "merge_tab t i b sd w \<noteq> (Inl Pending, w')" for t p n w w' i b sd
    by (auto simp: move_pane_to_new_tab_def move_pane_beside_def merge_tab_def take_pane_def destination_def Let_def
        split: option.splits sum.splits prod.splits if_splits)
  have "fst (edit_target rnd validate_pin directory device mutation (with_home directory s)) = Return Pending"
    using assms by (auto simp: edit_def finish_edit_def Let_def split: step.splits option.splits)
  then show ?thesis using ws
    by (cases mutation; auto simp: is_worktree_mutation_def end_all_sessions_def edit_close_def create_workspace_def
        create_tab_def split_pane_def move_pane_def merge_tabs_def membership_step_def rename_workspace_def pin_workspace_def
        Let_def split: option.splits pane_destination.splits sum.splits if_splits; metis prod.collapse)
qed

lemma device_ok_push:
  assumes "device_ok d" "ro_sequence r = d_retired d + length (d_pending d) + 1" "ro_sequence r < u64_max" "retained_ok r"
  shows "device_ok (d\<lparr>d_pending := d_pending d @ [r]\<rparr>)"
  using assms by (simp add: device_ok_def)

lemma apply_edit_outcomes:
  assumes ok: "outcomes_ok s" and a: "apply_edit rnd validate_pin directory device sequence mutation s = (Inr out, s')"
  shows "outcomes_ok s'"
  using a
proof (cases rule: apply_edit_cases)
  case replay
  then show ?thesis using ok by simp
next
  case (applied rec others floor s1)
  note q = expected_sequence [OF ok applied(6,3,4)]
  let ?r = "\<lparr>ro_sequence = sequence, ro_mutation = mutation, ro_outcome = out\<rparr>"
  let ?d = "rec\<lparr>d_pending := d_pending rec @ [?r]\<rparr>"
  have "retained_ok ?r" using applied(1,7) edit_pending by (auto simp: retained_ok_def)
  moreover have "device_ok rec" using q(4) by (simp add: outcomes_ok_def)
  ultimately have d: "device_ok ?d" using q(2,3) by (intro device_ok_push) simp_all
  have "st_sequence_floor s1 = floor" using edit_floor [OF applied(7)] by simp
  then show ?thesis using q(4-5) d applied(5) by (auto simp: outcomes_ok_def applied(8))
qed

section \<open>Acknowledging and finishing\<close>

lemma put_device_split:
  assumes "find_device i s = Some d"
  obtains ys zs where "st_devices s = ys @ d # zs" "d_device d = i"
    "\<And>f. put_device i f s = s\<lparr>st_devices := ys @ f d # zs\<rparr>"
proof -
  from assms have "List.find (\<lambda>x. d_device x = i) (st_devices s) = Some d" by (simp add: find_device_def)
  then show ?thesis by (rule update_first_split) (metis put_device_def that)
qed

lemma put_device_outcomes:
  assumes "outcomes_ok s" "find_device i s = Some d" "d_device (f d) = i" "device_ok (f d)"
    "length (d_pending (f d)) \<le> length (d_pending d)"
  shows "outcomes_ok (put_device i f s)"
proof -
  obtain ys zs where "st_devices s = ys @ d # zs" "d_device d = i" "put_device i f s = s\<lparr>st_devices := ys @ f d # zs\<rparr>"
    using assms(2) by (rule put_device_split) blast
  then show ?thesis using assms by (auto simp: outcomes_ok_def)
qed

text \<open>What acknowledging makes of the record of a device: the outcomes up to the sequence go, the
  others stay.\<close>

definition acknowledged :: "u64 \<Rightarrow> device_outcomes \<Rightarrow> device_outcomes" where
  "acknowledged sequence d =
     (let settled = length (takeWhile (\<lambda>r. ro_sequence r \<le> sequence) (d_pending d)); drained = take settled (d_pending d)
      in d\<lparr>d_pending := drop settled (d_pending d),
           d_retired := (if drained = [] then d_retired d else max (d_retired d) (ro_sequence (last drained)))\<rparr>)"

lemma takeWhile_upt:
  "map f xs = [a..<a + length xs] \<Longrightarrow> length (takeWhile (\<lambda>x. f x \<le> q) xs) = min (length xs) (q + 1 - a)" for q :: nat
proof (induction xs arbitrary: a)
  case (Cons x xs)
  have "[a..<a + length (x # xs)] = a # [Suc a..<Suc a + length xs]" by (subst upt_conv_Cons) simp_all
  with Cons.prems have x: "f x = a" and xs: "map f xs = [Suc a..<Suc a + length xs]" by simp_all
  show ?case using Cons.IH [OF xs] x by (auto simp: min_def)
qed simp

lemma acknowledged_alt:
  assumes "device_ok d"
  shows "acknowledged q d = d\<lparr>d_pending := drop (q - d_retired d) (d_pending d),
    d_retired := d_retired d + min (length (d_pending d)) (q - d_retired d)\<rparr>"
proof -
  define n where "n = min (length (d_pending d)) (q - d_retired d)"
  have "map ro_sequence (d_pending d) = [d_retired d + 1..<d_retired d + 1 + length (d_pending d)]"
    using assms by (simp only: device_ok_def)
  from takeWhile_upt [OF this, of q] have n: "length (takeWhile (\<lambda>r. ro_sequence r \<le> q) (d_pending d)) = n"
    by (simp add: n_def)
  have "drop n (d_pending d) = drop (q - d_retired d) (d_pending d)" by (simp add: n_def min_def)
  moreover have "ro_sequence (last (take n (d_pending d))) = d_retired d + n" if "take n (d_pending d) \<noteq> []"
  proof -
    have "0 < n" "n \<le> length (d_pending d)" using that by (auto simp: n_def)
    then show ?thesis using device_ok_sequences [OF assms, of "n - 1"] that
      by (simp add: last_conv_nth min_def)
  qed
  moreover have "n = 0" if "take n (d_pending d) = []" using that by (auto simp: n_def)
  ultimately show ?thesis by (auto simp: acknowledged_def n Let_def simp flip: n_def)
qed

lemma acknowledged_ok: "device_ok d \<Longrightarrow> device_ok (acknowledged q d)"
proof -
  assume d: "device_ok d"
  let ?k = "q - d_retired d"
  have "map ro_sequence (drop ?k (d_pending d)) = drop ?k [d_retired d + 1..<d_retired d + 1 + length (d_pending d)]"
    using d by (simp only: device_ok_def flip: drop_map)
  then show ?thesis using d
    by (auto simp: acknowledged_alt [OF d] device_ok_def min_def dest: in_set_dropD)
qed

lemma acknowledge_alt:
  "acknowledge device q s =
     (case find_device device s of
        None \<Rightarrow> (Inr (), s)
      | Some d \<Rightarrow>
          if list_ex (\<lambda>r. ro_outcome r = Pending) (take (length (takeWhile (\<lambda>r. ro_sequence r \<le> q) (d_pending d))) (d_pending d))
          then (Inl RefusedStale, s) else (Inr (), put_device device (\<lambda>_. acknowledged q d) s))"
proof (cases "find_device device s")
  case (Some d)
  obtain ys zs where "\<And>f. put_device device f s = s\<lparr>st_devices := ys @ f d # zs\<rparr>"
    using Some by (rule put_device_split) blast
  then show ?thesis by (simp add: acknowledge_def Some acknowledged_def Let_def)
qed (simp add: acknowledge_def)

lemma acknowledge_outcomes:
  assumes "outcomes_ok s" "acknowledge device q s = (x, s')"
  shows "outcomes_ok s'"
proof (cases "find_device device s")
  case None
  then show ?thesis using assms by (simp add: acknowledge_alt)
next
  case (Some d)
  note d = find_device_ok [OF assms(1) Some]
  have "outcomes_ok (put_device device (\<lambda>_. acknowledged q d) s)"
    using d acknowledged_ok by (intro put_device_outcomes [OF assms(1) Some]) (auto simp: acknowledged_def Let_def)
  then show ?thesis using assms Some by (auto simp: acknowledge_alt split: if_splits)
qed

lemma finish_worktree_outcomes:
  assumes ok: "outcomes_ok s" and f: "finish_worktree device q out s = (x, s')"
  shows "outcomes_ok s'"
proof (cases "find_device device s")
  case None
  then show ?thesis using assms by (auto simp: finish_worktree_def outcome_of_def split: option.splits)
next
  case (Some d)
  let ?f = "\<lambda>d. d\<lparr>d_pending := update_first (\<lambda>r. ro_sequence r = q) (\<lambda>r. r\<lparr>ro_outcome := out\<rparr>) (d_pending d)\<rparr>"
  note d = find_device_ok [OF ok Some]
  have "map ro_sequence (d_pending (?f d)) = map ro_sequence (d_pending d)" by (simp add: map_update_first)
  moreover have "\<forall>r\<in>set (d_pending (?f d)). retained_ok r" if "out \<noteq> Pending"
    using d that set_update_first [of "\<lambda>r. ro_sequence r = q" "\<lambda>r. r\<lparr>ro_outcome := out\<rparr>" "d_pending d"]
    by (fastforce simp: device_ok_def retained_ok_def)
  ultimately have "outcomes_ok (put_device device ?f s)" if "out \<noteq> Pending"
    using d that by (intro put_device_outcomes [OF ok Some]) (auto simp: device_ok_def length_update_first)
  then show ?thesis using assms by (auto simp: finish_worktree_def split: option.splits if_splits)
qed

lemma sum_list_filter_le: "sum_list (map f (filter P xs)) \<le> (sum_list (map f xs) :: nat)"
  by (induction xs) auto

lemma forget_outcomes: "outcomes_ok s \<Longrightarrow> outcomes_ok (snd (forget device s))"
  using sum_list_filter_le [of "\<lambda>d. length (d_pending d)" "\<lambda>d. d_device d \<noteq> device" "st_devices s"]
  by (auto simp: forget_def outcomes_ok_def distinct_map_filter intro: le_trans [OF length_filter_le])

section \<open>Soundness\<close>

lemma sound_devices:
  assumes "sound s" "outcomes_ok (s\<lparr>st_devices := ds\<rparr>)"
  shows "sound (s\<lparr>st_devices := ds\<rparr>)"
proof -
  have "structure_ok (s\<lparr>st_devices := ds\<rparr>)" using assms(1) structure_cong(1) [of "s\<lparr>st_devices := ds\<rparr>" s] by (simp add: sound_split)
  moreover have "validate_ends (s\<lparr>st_devices := ds\<rparr>)"
    using assms(1) validate_ends_same [of "s\<lparr>st_devices := ds\<rparr>" s] by (simp add: sound_split)
  ultimately show ?thesis using assms(2) by (simp add: sound_split)
qed

lemma apply_edit_sound:
  assumes "sound s" "fresh_ids rnd s" "valid_path directory" "live_close_ok s"
    "apply_edit rnd validate_pin directory device sequence mutation s = (Inr out, s')"
  shows "sound s'"
  using assms(5)
proof (cases rule: apply_edit_cases)
  case replay
  then show ?thesis using assms(1) by simp
next
  case (applied rec others floor s1)
  let ?s = "s\<lparr>st_devices := others @ [rec], st_sequence_floor := floor\<rparr>"
  have ok: "outcomes_ok s" using assms(1) by (simp add: sound_split)
  have st: "structure_ok ?s" using assms(1) structure_cong(1) [of ?s s] by (simp add: sound_split)
  have fr: "fresh_ids rnd ?s" using assms(2) fresh_ids_cong [of ?s s] by simp
  have en: "validate_ends ?s" "live_close_ok ?s"
    using assms(1,4) validate_ends_same [of ?s s] live_close_ok_same [of ?s s] by (simp_all add: sound_split)
  have "structure_ok s1" by (rule edit_structure [OF st fr assms(3) applied(1,7)])
  moreover have "validate_ends s1" by (rule edit_ends [OF en applied(1,7)])
  moreover have "outcomes_ok s1"
    using expected_sequence(4) [OF ok applied(6,3,4)] outcomes_ok_cong [of s1 ?s] edit_frame [of rnd validate_pin directory device mutation ?s] applied(7)
    by simp
  ultimately have "sound s1" by (simp add: sound_split)
  then show ?thesis
    using apply_edit_outcomes [OF ok assms(5)] by (simp add: applied(8) sound_devices)
qed

lemma put_device_sound: "sound s \<Longrightarrow> outcomes_ok (put_device i f s) \<Longrightarrow> sound (put_device i f s)"
  unfolding put_device_def by (rule sound_devices)

lemma acknowledge_sound:
  assumes "sound s" "acknowledge device q s = (x, s')"
  shows "sound s'"
proof -
  have "outcomes_ok s'" using acknowledge_outcomes [OF _ assms(2)] assms(1) by (simp add: sound_split)
  then show ?thesis using assms put_device_sound by (auto simp: acknowledge_alt split: option.splits if_splits)
qed

lemma finish_worktree_sound:
  assumes "sound s" "finish_worktree device q out s = (x, s')"
  shows "sound s'"
proof -
  have "outcomes_ok s'" using finish_worktree_outcomes [OF _ assms(2)] assms(1) by (simp add: sound_split)
  then show ?thesis using assms put_device_sound by (auto simp: finish_worktree_def split: option.splits if_splits)
qed

lemma forget_sound: "sound s \<Longrightarrow> sound (snd (forget device s))"
  using forget_outcomes [of s device] sound_devices [of s] by (auto simp: forget_def sound_split)

section \<open>A concrete run\<close>

text \<open>A server at its first state, the identities its randomness yields, and the state after device
  7 opened a Tab with its first edit.\<close>

definition demo_state :: state where
  "demo_state = first_state 1 2 3 (lit ''/home/dev'')"

definition demo_ids :: "nat \<Rightarrow> Id option" where
  "demo_ids k = Some (10 + of_nat k)"

definition demo_edit :: path_mutation where
  "demo_edit = CreateTab 1 None Creator"

definition demo_next :: state where
  "demo_next = snd (apply_edit demo_ids (\<lambda>_. True) (lit ''/home/dev'') 7 1 demo_edit demo_state)"

lemma demo_sound: "sound demo_state"
  by (simp add: demo_state_def run_simps)

lemma demo_fresh: "fresh_ids demo_ids demo_state"
  by (simp add: demo_state_def demo_ids_def fresh_ids_def state_ids_def workspace_ids_def tab_ids_def
      numeral_3_eq_3 All_less_Suc run_simps)

lemma demo_apply:
  "apply_edit demo_ids (\<lambda>_. True) (lit ''/home/dev'') 7 1 demo_edit demo_state = (Inr (Accepted 10), demo_next)"
  by (simp add: demo_next_def demo_state_def demo_ids_def demo_edit_def run_simps)

lemma demo_next_sound: "sound demo_next"
  by (rule apply_edit_sound [OF demo_sound demo_fresh _ _ demo_apply])
    (simp_all add: demo_state_def live_close_ok_def run_simps)

lemma demo_outcome:
  "outcome_of demo_next 7 1 = Some \<lparr>ro_sequence = 1, ro_mutation = demo_edit, ro_outcome = Accepted 10\<rparr>"
  "find_device 7 demo_next = Some \<lparr>d_device = 7, d_retired = 0,
     d_pending = [\<lparr>ro_sequence = 1, ro_mutation = demo_edit, ro_outcome = Accepted 10\<rparr>]\<rparr>"
  by (simp_all add: demo_next_def demo_state_def demo_ids_def demo_edit_def run_simps)

section \<open>What is retained\<close>

lemma mutation_eq_trans: "mutation_eq a b \<Longrightarrow> mutation_eq b c \<Longrightarrow> mutation_eq a c"
  by (simp add: mutation_eq_def)

lemma apply_edit_recorded:
  assumes ok: "outcomes_ok s" and a: "apply_edit rnd validate_pin directory device sequence mutation s = (Inr out, s')"
  obtains r where "outcome_of s' device sequence = Some r" "mutation_eq (ro_mutation r) mutation" "ro_outcome r = out"
  using a
proof (cases rule: apply_edit_cases)
  case (replay old)
  then show ?thesis using that by simp
next
  case (applied rec others floor s1)
  let ?r = "\<lparr>ro_sequence = sequence, ro_mutation = mutation, ro_outcome = out\<rparr>"
  have "outcome_of s' device sequence = Some ?r"
    using outcome_of_iff [OF apply_edit_outcomes [OF ok a]] expected_sequence(1) [OF ok applied(6,3,4)]
    by (auto simp: applied(8))
  then show ?thesis by (rule that) simp_all
qed

lemma apply_edit_bounded: "apply_edit rnd validate_pin directory device q m s = (Inr out, s') \<Longrightarrow> is_bounded m"
  by (auto simp: apply_edit_def split: if_splits)

text \<open>C1. An edit is carried out once: sent again with the same sequence, whatever the server's
  directory, its check of directories and its randomness are by then, it is answered with the outcome
  of the first time and changes nothing; a different edit under that sequence is refused.\<close>

theorem apply_edit_replay:
  assumes "sound s" "apply_edit rnd validate_pin directory device sequence mutation s = (Inr out, s')"
  shows "apply_edit rnd' validate_pin' directory' device sequence mutation s' = (Inr out, s') \<and>
    (is_bounded other \<and> \<not> mutation_eq mutation other \<longrightarrow>
     apply_edit rnd' validate_pin' directory' device sequence other s' = (Inl RefusedStale, s'))"
proof -
  have "outcomes_ok s" using assms(1) by (simp add: sound_split)
  then obtain r where r: "outcome_of s' device sequence = Some r" "mutation_eq (ro_mutation r) mutation" "ro_outcome r = out"
    using assms(2) by (rule apply_edit_recorded)
  moreover have "\<not> mutation_eq (ro_mutation r) other" if "\<not> mutation_eq mutation other"
    using that r(2) by (simp add: mutation_eq_def)
  ultimately show ?thesis using apply_edit_bounded [OF assms(2)] by (simp add: apply_edit_def)
qed

theorem apply_edit_replay_witness:
  "apply_edit (\<lambda>_. None) (\<lambda>_. False) [47] 7 1 demo_edit demo_next = (Inr (Accepted 10), demo_next) \<and>
   apply_edit (\<lambda>_. None) (\<lambda>_. False) [47] 7 1 (RenameWorkspace 1 0 [65]) demo_next = (Inl RefusedStale, demo_next)"
  using apply_edit_replay [OF demo_sound demo_apply, of "\<lambda>_. None" "\<lambda>_. False" "[47]" "RenameWorkspace 1 0 [65]"]
  by (simp add: demo_edit_def run_simps)

text \<open>C2. A retained outcome survives every other edit, also one that replaces a device in a full
  table: only its own device's acknowledgement or revocation ends it.\<close>

theorem apply_edit_retains:
  assumes "sound s" "apply_edit rnd validate_pin directory device sequence mutation s = (Inr out, s')"
    "outcome_of s other q = Some r"
  shows "outcome_of s' other q = Some r"
  using assms(2)
proof (cases rule: apply_edit_cases)
  case replay
  then show ?thesis using assms(3) by simp
next
  case (applied rec others floor s1)
  have ok: "outcomes_ok s" using assms(1) by (simp add: sound_split)
  note e = expected_sequence [OF ok applied(6,3,4)]
  obtain d where d: "d \<in> set (st_devices s)" "d_device d = other" "r \<in> set (d_pending d)" "ro_sequence r = q"
    using assms(3) outcome_of_iff [OF ok] by blast
  then have "d \<in> set (others @ [rec])" using e(6) by auto
  then show ?thesis
    using d outcome_of_iff [OF apply_edit_outcomes [OF ok assms(2)]] by (auto simp: applied(8))
qed

theorem apply_edit_retains_witness:
  "\<exists>s'. apply_edit (\<lambda>_. Some 20) (\<lambda>_. True) [47] 8 1 (SplitPane 1 2 3 AxisDown Unclaimed) demo_next = (Inr (Accepted 20), s') \<and>
     outcome_of s' 7 1 = Some \<lparr>ro_sequence = 1, ro_mutation = demo_edit, ro_outcome = Accepted 10\<rparr>"
proof -
  let ?a = "apply_edit (\<lambda>_. Some 20) (\<lambda>_. True) [47] 8 1 (SplitPane 1 2 3 AxisDown Unclaimed) demo_next"
  have "fst ?a = Inr (Accepted 20)"
    by (simp add: demo_next_def demo_state_def demo_ids_def demo_edit_def run_simps)
  then have "?a = (Inr (Accepted 20), snd ?a)" by (metis prod.collapse)
  with apply_edit_retains [OF demo_next_sound this demo_outcome(1)] show ?thesis by blast
qed

text \<open>C5. A sequence a device has acknowledged is never applied again while its record is there: the
  edit is refused as stale and nothing changes.\<close>

theorem apply_edit_retired:
  assumes "sound s" "find_device device s = Some d" "sequence \<le> d_retired d" "is_bounded mutation"
  shows "apply_edit rnd validate_pin directory device sequence mutation s = (Inl RefusedStale, s)"
proof -
  have ok: "outcomes_ok s" using assms(1) by (simp add: sound_split)
  have "outcome_of s device sequence = None"
    using assms(2,3) device_ok_find [of d sequence] find_device_ok [OF ok assms(2)] by (simp add: outcome_of_def)
  moreover have "list_ex (\<lambda>d. d_device d = device) (st_devices s)"
    using find_device_iff [OF ok] assms(2) by (auto simp: list_ex_iff)
  ultimately show ?thesis
    using assms(3,4) next_sequence_known [OF ok assms(2)] by (simp add: apply_edit_def)
qed

lemma demo_acknowledged: "sound (snd (acknowledge 7 1 demo_next))"
  using acknowledge_sound [OF demo_next_sound] by (metis prod.collapse)

theorem apply_edit_retired_witness:
  "apply_edit demo_ids (\<lambda>_. True) [47] 7 1 demo_edit (snd (acknowledge 7 1 demo_next)) =
     (Inl RefusedStale, snd (acknowledge 7 1 demo_next))"
proof (rule apply_edit_retired [OF demo_acknowledged])
  show "find_device 7 (snd (acknowledge 7 1 demo_next)) = Some \<lparr>d_device = 7, d_retired = 1, d_pending = []\<rparr>"
    by (simp add: demo_next_def demo_state_def demo_ids_def demo_edit_def run_simps)
qed (simp_all add: demo_edit_def)

end
