(* ===== verification/Outcome_Laws.thy ===== *)
theory Outcome_Laws
  imports Outcomes
begin

text \<open>
  The laws of the retained outcomes that clients and the Worktree writer rely on: acknowledging is
  cumulative and ends nothing else, a Worktree write is finished once, a refused edit leaves the
  hierarchy alone, and an accepted close removes exactly the Panes the client confirmed.
\<close>

section \<open>Acknowledging\<close>

lemma find_append:
  "List.find P (as @ bs) = (case List.find P as of None \<Rightarrow> List.find P bs | Some x \<Rightarrow> Some x)"
  by (induction as) auto

lemma put_device_find:
  assumes "outcomes_ok s" "find_device i s = Some d" "d_device d' = i"
  shows "find_device j (put_device i (\<lambda>_. d') s) = (if j = i then Some d' else find_device j s)"
proof -
  obtain ys zs where split: "st_devices s = ys @ d # zs" "d_device d = i"
    "put_device i (\<lambda>_. d') s = s\<lparr>st_devices := ys @ d' # zs\<rparr>"
    using assms(2) by (rule put_device_split) blast
  then have "i \<notin> d_device ` set ys" using assms(1) by (auto simp: outcomes_ok_def)
  then have "List.find (\<lambda>x. d_device x = i) ys = None" by (auto simp: find_None_iff)
  then show ?thesis using assms(3) split by (simp add: find_device_def find_append split: option.split)
qed

lemma acknowledged_outcome:
  assumes "device_ok d"
  shows "List.find (\<lambda>r. ro_sequence r = p) (d_pending (acknowledged q d)) =
    (if p \<le> q then None else List.find (\<lambda>r. ro_sequence r = p) (d_pending d))"
  unfolding device_ok_find [OF assms] device_ok_find [OF acknowledged_ok [OF assms]]
  by (auto simp: acknowledged_alt [OF assms] min_def)

lemma acknowledged_simps:
  assumes "device_ok d"
  shows "d_device (acknowledged q d) = d_device d"
    "d_retired (acknowledged q d) + length (d_pending (acknowledged q d)) = d_retired d + length (d_pending d)"
  by (auto simp: acknowledged_alt [OF assms])

text \<open>C4. Acknowledgements are cumulative: one that succeeds ends exactly the device's outcomes up to
  its sequence, also those of earlier acknowledgements that were lost, and leaves the sequence of the
  device's next edit as it was.\<close>

theorem acknowledge_cumulative:
  assumes "sound s" "acknowledge device q s = (Inr (), s')"
  shows "outcome_of s' other p = (if other = device \<and> p \<le> q then None else outcome_of s other p) \<and>
    next_sequence s' device = next_sequence s device"
proof (cases "find_device device s")
  case None
  then show ?thesis using assms by (auto simp: acknowledge_alt outcome_of_def)
next
  case (Some d)
  have ok: "outcomes_ok s" using assms(1) by (simp add: sound_split)
  note d = find_device_ok [OF ok Some] and dev = acknowledged_simps [of d q]
  have s': "s' = put_device device (\<lambda>_. acknowledged q d) s"
    using assms(2) Some by (auto simp: acknowledge_alt split: if_splits)
  have find: "find_device j s' = (if j = device then Some (acknowledged q d) else find_device j s)" for j
    using put_device_find [OF ok Some] d dev(1) by (simp add: s')
  have ok': "outcomes_ok s'" by (rule acknowledge_outcomes [OF ok assms(2)])
  show ?thesis
    using d dev acknowledged_outcome [of d p q] next_sequence_known [OF ok Some]
      next_sequence_known [OF ok', of device "acknowledged q d"] Some
    by (simp add: outcome_of_def find)
qed

theorem acknowledge_cumulative_witness:
  "outcome_of (snd (acknowledge 7 5 demo_next)) 7 1 = None \<and>
   next_sequence (snd (acknowledge 7 5 demo_next)) 7 = 2"
proof -
  have "fst (acknowledge 7 5 demo_next) = Inr ()" "next_sequence demo_next 7 = 2"
    by (simp_all add: demo_next_def demo_state_def demo_ids_def demo_edit_def run_simps)
  then show ?thesis
    using acknowledge_cumulative [OF demo_next_sound, of 7 5 "snd (acknowledge 7 5 demo_next)" 7 1]
    by (metis (full_types) eval_nat_numeral(3) le_add2 numeral_One one_le_numeral prod.collapse)
qed

section \<open>Worktree writes\<close>

lemma put_outcome:
  assumes ok: "outcomes_ok s" and d: "find_device device s = Some d"
    and r: "List.find (\<lambda>r. ro_sequence r = q) (d_pending d) = Some r"
  shows "outcome_of (put_device device (\<lambda>d. d\<lparr>d_pending :=
       update_first (\<lambda>r. ro_sequence r = q) (\<lambda>r. r\<lparr>ro_outcome := out\<rparr>) (d_pending d)\<rparr>) s) other p =
    (if other = device \<and> p = q then Some (r\<lparr>ro_outcome := out\<rparr>) else outcome_of s other p)"
proof -
  let ?f = "\<lambda>d. d\<lparr>d_pending := update_first (\<lambda>r. ro_sequence r = q) (\<lambda>r. r\<lparr>ro_outcome := out\<rparr>) (d_pending d)\<rparr>"
  obtain ys zs where split: "\<And>f. put_device device f s = s\<lparr>st_devices := ys @ f d # zs\<rparr>"
    using d by (rule put_device_split) blast
  have find: "find_device j (put_device device ?f s) = (if j = device then Some (?f d) else find_device j s)" for j
    using put_device_find [OF ok d, of "?f d" j] find_device_ok [OF ok d] by (simp add: split)
  have upd: "List.find (\<lambda>r. ro_sequence r = p) (update_first (\<lambda>r. ro_sequence r = q) (\<lambda>r. r\<lparr>ro_outcome := out\<rparr>) rs) =
      (if p = q then map_option (\<lambda>r. r\<lparr>ro_outcome := out\<rparr>) (List.find (\<lambda>r. ro_sequence r = q) rs)
       else List.find (\<lambda>r. ro_sequence r = p) rs)" for rs p
    by (induction rs) auto
  show ?thesis using r d by (simp add: outcome_of_def find upd)
qed

text \<open>C6. A Worktree write is finished once: finishing a pending one records the outcome under its
  sequence and touches no other record, and finishing it again is refused and changes nothing.\<close>

theorem finish_worktree_once:
  assumes "sound s" "finish_worktree device q out s = (Inr (), s')"
  shows "(\<exists>r. outcome_of s device q = Some r \<and> ro_outcome r = Pending \<and>
      outcome_of s' device q = Some (r\<lparr>ro_outcome := out\<rparr>)) \<and>
    (\<forall>other p. (other, p) \<noteq> (device, q) \<longrightarrow> outcome_of s' other p = outcome_of s other p) \<and>
    finish_worktree device q out' s' = (Inl RefusedStale, s')"
proof -
  have ok: "outcomes_ok s" using assms(1) by (simp add: sound_split)
  from assms(2) obtain r where r: "outcome_of s device q = Some r" "ro_outcome r = Pending" "out \<noteq> Pending"
    and s': "s' = put_device device (\<lambda>d. d\<lparr>d_pending :=
       update_first (\<lambda>r. ro_sequence r = q) (\<lambda>r. r\<lparr>ro_outcome := out\<rparr>) (d_pending d)\<rparr>) s"
    by (auto simp: finish_worktree_def split: option.splits if_splits)
  then obtain d where d: "find_device device s = Some d" "List.find (\<lambda>r. ro_sequence r = q) (d_pending d) = Some r"
    by (auto simp: outcome_of_def split: option.splits)
  have "outcome_of s' other p = (if other = device \<and> p = q then Some (r\<lparr>ro_outcome := out\<rparr>) else outcome_of s other p)" for other p
    using put_outcome [OF ok d] s' by simp
  then show ?thesis using r by (auto simp: finish_worktree_def)
qed

definition demo_writing :: state where
  "demo_writing = snd (apply_edit demo_ids (\<lambda>_. True) (lit ''/home/dev'') 7 1 (Worktree (SetLocation 0 [126])) demo_state)"

lemma demo_writing_sound: "sound demo_writing"
proof -
  let ?a = "apply_edit demo_ids (\<lambda>_. True) (lit ''/home/dev'') 7 1 (Worktree (SetLocation 0 [126])) demo_state"
  have "fst ?a = Inr Pending" by (simp add: demo_state_def run_simps)
  then have "?a = (Inr Pending, demo_writing)" unfolding demo_writing_def by (metis prod.collapse)
  then show ?thesis
    by (rule apply_edit_sound [OF demo_sound demo_fresh, rotated 2])
      (simp_all add: demo_state_def live_close_ok_def run_simps)
qed

theorem finish_worktree_once_witness:
  "finish_worktree 7 1 (Accepted 1) (snd (finish_worktree 7 1 (WorktreeFailed Changed) demo_writing)) =
     (Inl RefusedStale, snd (finish_worktree 7 1 (WorktreeFailed Changed) demo_writing))"
proof -
  have "fst (finish_worktree 7 1 (WorktreeFailed Changed) demo_writing) = Inr ()"
    by (simp add: demo_writing_def demo_state_def run_simps)
  then have "finish_worktree 7 1 (WorktreeFailed Changed) demo_writing =
      (Inr (), snd (finish_worktree 7 1 (WorktreeFailed Changed) demo_writing))" by (metis prod.collapse)
  from finish_worktree_once [OF demo_writing_sound this, of "Accepted 1"] show ?thesis by blast
qed

section \<open>Refused edits\<close>

lemma put_workspace_keeps [simp]:
  "st_names (put_workspace i f s) = st_names s" "inv_revision (st_inventory (put_workspace i f s)) = inv_revision (st_inventory s)"
  by (simp_all add: put_workspace_def)

lemma edit_target_return:
  assumes "edit_target rnd validate_pin directory device mutation s = (Return out, s')"
  shows "s' = s"
proof (cases mutation)
  case (MovePane workspace tab pane dest)
  then show ?thesis using assms put_workspace_same to_new_tab.refusal to_beside.refusal
    by (auto simp: move_pane_def membership_step_def Let_def split: if_splits option.splits pane_destination.splits sum.splits)
      (metis prod.collapse)+
next
  case (MergeTab workspace tab into beside side)
  then show ?thesis using assms put_workspace_same merging.refusal
    by (auto simp: merge_tabs_def membership_step_def Let_def split: option.splits sum.splits) (metis prod.collapse)
qed (use assms in \<open>auto simp: end_all_sessions_def edit_close_def create_workspace_def create_tab_def split_pane_def
  rename_workspace_def pin_workspace_def Let_def split: if_splits option.splits\<close>)

text \<open>C7. An edit that is answered with anything but \<open>Accepted\<close>, be it a conflict, a missing target, an
  invalid argument, a limit, a stale confirmation or a Worktree write still to come, leaves the
  Workspaces, their names and the revision as they were; only the outcome is recorded.\<close>

theorem apply_edit_refused:
  assumes "apply_edit rnd validate_pin directory device sequence mutation s = (Inr out, s')"
    "\<forall>target. out \<noteq> Accepted target"
  shows "st_inventory s' = st_inventory s \<and> st_names s' = st_names s \<and> st_session_ends s' = st_session_ends s"
  using assms(1)
proof (cases rule: apply_edit_cases)
  case (applied rec others floor s1)
  let ?s = "s\<lparr>st_devices := others @ [rec], st_sequence_floor := floor\<rparr>"
  obtain r t where rt: "edit_target rnd validate_pin directory device mutation (with_home directory ?s) = (r, t)" by fastforce
  have "r = Return out \<and> s1 = t"
    using applied(7) assms(2) by (auto simp: edit_def rt finish_edit_def Let_def split: step.splits option.splits)
  with edit_target_return [of rnd validate_pin directory device mutation "with_home directory ?s" out t] rt
  have "s1 = with_home directory ?s" by simp
  then show ?thesis by (auto simp: applied(8) with_home_def split: option.split)
qed simp

theorem apply_edit_refused_witness:
  "fst (apply_edit demo_ids (\<lambda>_. True) [47] 7 1 (RenameWorkspace 1 9 [65]) demo_state) = Inr Conflict \<and>
   st_inventory (snd (apply_edit demo_ids (\<lambda>_. True) [47] 7 1 (RenameWorkspace 1 9 [65]) demo_state)) = st_inventory demo_state"
proof -
  let ?a = "apply_edit demo_ids (\<lambda>_. True) [47] 7 1 (RenameWorkspace 1 9 [65]) demo_state"
  have f: "fst ?a = Inr Conflict" by (simp add: demo_state_def run_simps)
  then have "?a = (Inr Conflict, snd ?a)" by (metis prod.collapse)
  from apply_edit_refused [OF this] f show ?thesis by simp
qed

section \<open>Closing\<close>

definition hierarchy_panes :: "state \<Rightarrow> pane list" where
  "hierarchy_panes s = concat (map workspace_panes (workspaces s))"

lemma hierarchy_panes_unnamed:
  "map unnamed (workspaces s') = map unnamed (workspaces s) \<Longrightarrow> hierarchy_panes s' = hierarchy_panes s"
proof -
  assume "map unnamed (workspaces s') = map unnamed (workspaces s)"
  moreover have "workspace_panes w = workspace_panes w'" if "unnamed w = unnamed w'" for w w'
    using unnamed_fields(2) [OF that] by (simp add: workspace_panes_def)
  ultimately have "map workspace_panes (workspaces s') = map workspace_panes (workspaces s)"
    by (rule map_unnamed_fields)
  then show ?thesis by (simp add: hierarchy_panes_def)
qed

lemma remove_pane_panes:
  "map pane_core (hierarchy_panes (remove_pane pid s)) = filter (\<lambda>p. p_id p \<noteq> pid) (map pane_core (hierarchy_panes s))"
proof -
  have core: "p_id (pane_core p) = p_id p" for p by (simp add: pane_core_def)
  have "map pane_core (concat (map workspace_panes (workspaces_without_pane pid ws))) =
      filter (\<lambda>p. p_id p \<noteq> pid) (map pane_core (concat (map workspace_panes ws)))" for ws
  proof (induction ws)
    case (Cons w ws)
    have "workspace_panes v = []" if "w_tabs v = []" for v using that by (simp add: workspace_panes_def)
    then have "map pane_core (concat (map workspace_panes (workspaces_without_pane pid (w # ws)))) =
        map pane_core (workspace_panes (workspace_without_pane pid w)) @
        map pane_core (concat (map workspace_panes (workspaces_without_pane pid ws)))"
      by (simp add: workspaces_without_pane_def)
    then show ?case by (simp add: Cons.IH workspace_without_pane_cores filter_map comp_def core)
  qed (simp add: workspaces_without_pane_def)
  moreover have "hierarchy_panes (remove_pane pid s) = concat (map workspace_panes (workspaces_without_pane pid (workspaces s)))"
    using hierarchy_panes_unnamed [OF recalculate_names_keeps(1)] by (simp add: remove_pane_alt hierarchy_panes_def)
  ultimately show ?thesis by (simp add: hierarchy_panes_def)
qed

lemma remove_panes_panes:
  "map pane_core (hierarchy_panes (fold remove_pane ids s)) =
     filter (\<lambda>p. p_id p \<notin> set ids) (map pane_core (hierarchy_panes s))"
proof (induction ids arbitrary: s)
  case (Cons i ids)
  show ?case by (simp only: fold_simps comp_apply Cons.IH remove_pane_panes filter_filter) (rule filter_cong, auto)
qed simp

lemma close_confirmation_panes:
  assumes "close_panes iv target = Some ids" "close_confirmation_of iv target = Some c"
  shows "map cp_id (cf_panes c) = ids"
proof -
  obtain live :: close_inventory where "collect_options (map (\<lambda>pid. List.find (\<lambda>p. cp_id p = pid) (ci_sessions live)) ids) = Some (cf_panes c)"
    using assms by (auto simp: close_confirmation_of_def split: option.splits)
  then have eq: "map (\<lambda>pid. List.find (\<lambda>p. cp_id p = pid) (ci_sessions live)) ids = map Some (cf_panes c)"
    by (simp add: collect_options_Some_iff)
  show ?thesis
  proof (rule nth_equalityI)
    show len: "length (map cp_id (cf_panes c)) = length ids" using arg_cong [OF eq, of length] by simp
    fix i assume i: "i < length (map cp_id (cf_panes c))"
    have "List.find (\<lambda>p. cp_id p = ids ! i) (ci_sessions live) = Some (cf_panes c ! i)"
      using arg_cong [OF eq, of "\<lambda>xs. xs ! i"] i len by simp
    then show "map cp_id (cf_panes c) ! i = ids ! i" using i by (auto dest: find_SomeD)
  qed
qed

text \<open>C3. An accepted close removes exactly the Panes of its confirmation, which are the ones the target
  holds at that moment, and keeps every other Pane in place. Where the confirmation carries the controls
  the client reviewed, the requesting device controls every Pane that goes, in the Session it confirmed.\<close>

theorem close_removes_confirmed:
  assumes "edit rnd validate_pin directory device (Close target confirmation) s = (Inr (Accepted t), s')"
  shows "close_panes (st_inventory s) target = Some (map cp_id (cf_panes confirmation)) \<and>
    map pane_core (hierarchy_panes s') =
      filter (\<lambda>p. p_id p \<notin> set (map cp_id (cf_panes confirmation))) (map pane_core (hierarchy_panes s)) \<and>
    (cf_own_controls confirmation \<noteq> None \<longrightarrow>
      (\<forall>p\<in>set (cf_panes confirmation). \<exists>live c. inv_close (st_inventory s) = Some live \<and> c \<in> set (ci_controls live) \<and>
         cc_pane c = cp_id p \<and> cc_session c = cp_session p \<and> cc_owner c = device))"
proof -
  let ?s = "with_home directory s"
  have inv: "st_inventory ?s = st_inventory s" by (simp add: with_home_def split: option.split)
  obtain r u where ru: "edit_close device target confirmation ?s = (r, u)" by fastforce
  have "r \<noteq> Return (Accepted t)" using ru by (auto simp: edit_close_def split: option.splits if_splits)
  then have r: "r = Target t" and s': "map unnamed (workspaces s') = map unnamed (workspaces u)"
    using assms recalculate_names_keeps(1) [of u]
    by (auto simp: edit_def ru finish_edit_def Let_def split: step.splits option.splits)
  from ru r obtain ids current where ids: "close_panes (st_inventory s) target = Some ids"
    and cur: "close_confirmation_of (st_inventory s) target = Some current" "same_targets current confirmation"
    and own: "own_controls_current device confirmation (st_inventory s)" and u: "u = fold remove_pane ids ?s"
    by (auto simp: edit_close_def inv split: option.splits if_splits)
  have eq: "map cp_id (cf_panes confirmation) = ids"
    using close_confirmation_panes [OF ids cur(1)] cur(2) by (simp add: same_targets_def)
  have "map pane_core (hierarchy_panes s') = filter (\<lambda>p. p_id p \<notin> set ids) (map pane_core (hierarchy_panes s))"
    using hierarchy_panes_unnamed [OF s'] remove_panes_panes [of ids ?s] by (simp add: u hierarchy_panes_def)
  moreover have "\<exists>live c. inv_close (st_inventory s) = Some live \<and> c \<in> set (ci_controls live) \<and>
      cc_pane c = cp_id p \<and> cc_session c = cp_session p \<and> cc_owner c = device"
    if p: "p \<in> set (cf_panes confirmation)" and some: "cf_own_controls confirmation = Some reviewed" for p reviewed
  proof -
    let ?P = "\<lambda>c. cc_pane c = cp_id p \<and> cc_session c = cp_session p \<and> cc_owner c = device \<and>
      (case inv_close (st_inventory s) of None \<Rightarrow> False | Some live \<Rightarrow> c \<in> set (ci_controls live))"
    have "length (filter ?P reviewed) = 1" using own p some by (auto simp: own_controls_current_def list_ex_iff)
    then obtain c where "c \<in> set (filter ?P reviewed)" by (cases "filter ?P reviewed") (auto simp del: set_filter)
    then show ?thesis by (auto split: option.splits)
  qed
  ultimately show ?thesis using ids eq by auto
qed

text \<open>The run above with the live Sessions published, and a close of the Tab it opened.\<close>

definition demo_live :: close_inventory where
  "demo_live = \<lparr>ci_boot = 9, ci_sessions = [\<lparr>cp_id = 3, cp_session = Some 30\<rparr>, \<lparr>cp_id = 11, cp_session = Some 31\<rparr>],
     ci_controls = [\<lparr>cc_pane = 11, cc_session = Some 31, cc_owner = 7, cc_epoch = 1\<rparr>]\<rparr>"

definition demo_confirmation :: close_confirmation where
  "demo_confirmation = \<lparr>cf_boot = 9, cf_panes = [\<lparr>cp_id = 11, cp_session = Some 31\<rparr>], cf_removes_tab = True,
     cf_removes_workspace = False, cf_own_controls = Some (ci_controls demo_live)\<rparr>"

definition demo_open :: state where
  "demo_open = demo_next\<lparr>st_inventory := (st_inventory demo_next)\<lparr>inv_close := Some demo_live\<rparr>\<rparr>"

theorem close_removes_confirmed_witness:
  "\<exists>s'. edit demo_ids (\<lambda>_. True) [47] 7 (Close (CloseTab 1 10) demo_confirmation) demo_open = (Inr (Accepted 10), s') \<and>
     map p_id (hierarchy_panes demo_open) = [3, 11] \<and> map p_id (hierarchy_panes s') = [3]"
proof -
  let ?a = "edit demo_ids (\<lambda>_. True) [47] 7 (Close (CloseTab 1 10) demo_confirmation) demo_open"
  have "fst ?a = Inr (Accepted 10)"
    by (simp add: demo_open_def demo_confirmation_def demo_live_def demo_next_def demo_state_def demo_ids_def demo_edit_def run_simps)
  then have a: "?a = (Inr (Accepted 10), snd ?a)" by (metis prod.collapse)
  have before: "map p_id (hierarchy_panes demo_open) = [3, 11]"
    by (simp add: hierarchy_panes_def workspace_panes_def demo_open_def demo_next_def demo_state_def demo_ids_def demo_edit_def run_simps)
  have ids: "map p_id xs = map p_id (map pane_core xs)" for xs by (simp add: pane_core_def)
  have "map p_id (hierarchy_panes (snd ?a)) = filter (\<lambda>i. i \<notin> {11}) (map p_id (hierarchy_panes demo_open))"
    using close_removes_confirmed [OF a] by (subst ids) (simp add: demo_confirmation_def filter_map comp_def pane_core_def)
  then show ?thesis using a before by auto
qed

end
