(* ===== verification/Upkeep.thy ===== *)
theory Upkeep
  imports Outcome_Laws
begin

text \<open>
  Every operation of \<open>State\<close> keeps the invariant \<open>sound\<close>: a change of one Tab or of Panes keeps it
  when it keeps what the check reads, and each operation is such a change followed by naming.
\<close>

section \<open>Changing the Tab of a Pane\<close>

text \<open>What a change of one Tab has to keep: identities, Worktree membership and well-formedness.\<close>

definition keeps_tab :: "(tab \<Rightarrow> tab) \<Rightarrow> bool" where
  "keeps_tab g \<longleftrightarrow> (\<forall>t. tab_ids (g t) = tab_ids t \<and> t_worktree (g t) = t_worktree t \<and>
     t_worktree_repository (g t) = t_worktree_repository t \<and> (wf_tab t \<longrightarrow> wf_tab (g t)) \<and>
     ((\<forall>p\<in>set (t_panes t). pane_ok p) \<longrightarrow> (\<forall>p\<in>set (t_panes (g t)). pane_ok p)))"

lemma keeps_tabD:
  assumes "keeps_tab g"
  shows "tab_ids (g t) = tab_ids t" "t_worktree (g t) = t_worktree t"
    "t_worktree_repository (g t) = t_worktree_repository t" "wf_tab t \<Longrightarrow> wf_tab (g t)"
    "\<forall>p\<in>set (t_panes t). pane_ok p \<Longrightarrow> p \<in> set (t_panes (g t)) \<Longrightarrow> pane_ok p" "t_id (g t) = t_id t"
proof -
  have all: "tab_ids (g t) = tab_ids t \<and> t_worktree (g t) = t_worktree t \<and>
     t_worktree_repository (g t) = t_worktree_repository t \<and> (wf_tab t \<longrightarrow> wf_tab (g t)) \<and>
     ((\<forall>p\<in>set (t_panes t). pane_ok p) \<longrightarrow> (\<forall>p\<in>set (t_panes (g t)). pane_ok p))"
    using assms unfolding keeps_tab_def by blast
  then show "tab_ids (g t) = tab_ids t" "t_worktree (g t) = t_worktree t"
    "t_worktree_repository (g t) = t_worktree_repository t" "wf_tab t \<Longrightarrow> wf_tab (g t)"
    "\<forall>p\<in>set (t_panes t). pane_ok p \<Longrightarrow> p \<in> set (t_panes (g t)) \<Longrightarrow> pane_ok p" by blast+
  from all show "t_id (g t) = t_id t" by (simp add: tab_ids_def)
qed

lemma intact_tabs:
  assumes "keeps_tab g" "intact w"
  shows "intact (w\<lparr>w_tabs := update_first P g (w_tabs w)\<rparr>)"
    "shape (w\<lparr>w_tabs := update_first P g (w_tabs w)\<rparr>) = shape w"
proof -
  note k = keeps_tabD [OF assms(1)]
  have ids: "map tab_ids (update_first P g ts) = map tab_ids ts" "map t_id (update_first P g ts) = map t_id ts" for ts
    by (simp_all add: map_update_first k(1,6))
  then show "shape (w\<lparr>w_tabs := update_first P g (w_tabs w)\<rparr>) = shape w" by (simp add: shape_def)
  have ne: "w_tabs w \<noteq> []" using assms(2) by (simp add: intact_def)
  have "update_first P g (w_tabs w) \<noteq> [] \<and> t_id (hd (update_first P g (w_tabs w))) = t_id (hd (w_tabs w))"
    using map_eq_hd [OF ids(2) ne] .
  moreover have "wf_tab t \<and> worktree_ok t \<and> (\<forall>p\<in>set (t_panes t). pane_ok p)"
    if t: "t \<in> set (update_first P g (w_tabs w))" for t
  proof -
    from t obtain u where u: "u \<in> set (w_tabs w)" "t = u \<or> t = g u"
      using set_update_first [of P g "w_tabs w"] by auto
    have "wf_tab u \<and> worktree_ok u \<and> (\<forall>p\<in>set (t_panes u). pane_ok p)"
      using assms(2) u(1) by (auto simp: intact_def workspace_panes_def)
    then show ?thesis using u(2) k(2-5) [of u] by (auto simp: worktree_ok_def)
  qed
  ultimately show "intact (w\<lparr>w_tabs := update_first P g (w_tabs w)\<rparr>)"
    using assms(2) by (auto simp: intact_def workspace_panes_def)
qed

lemma hierarchy_ok_shape:
  assumes "hierarchy_ok ws" "map shape ws' = map shape ws" "\<forall>w\<in>set ws'. intact w"
  shows "hierarchy_ok ws'"
  using assms shape_same(1) [OF assms(2)] by (simp add: hierarchy_ok_def)

lemma put_tab_of_pane_structure:
  assumes s: "structure_ok s" and g: "keeps_tab g"
  shows "structure_ok (put_tab_of_pane pid g s)"
proof -
  let ?f = "\<lambda>w. w\<lparr>w_tabs := update_first (\<lambda>t. holds_pane t pid) g (w_tabs w)\<rparr>"
  let ?ws = "update_first (\<lambda>w. list_ex (\<lambda>t. holds_pane t pid) (w_tabs w)) ?f (workspaces s)"
  have i: "intact w" if "w \<in> set (workspaces s)" for w
    using s that by (simp add: structure_ok_def hierarchy_ok_def)
  have sh: "map shape ?ws = map shape (workspaces s)"
    using intact_tabs(2) [OF g] i by (intro map_update_first_on) auto
  have "\<forall>w\<in>set ?ws. intact w \<and> valid_name (w_name w)"
    using set_update_first [of "\<lambda>w. list_ex (\<lambda>t. holds_pane t pid) (w_tabs w)" ?f "workspaces s"]
      intact_tabs(1) [OF g] i s by (fastforce simp: structure_ok_def)
  moreover have "names_ok (st_names s) ?ws"
    using names_ok_keys [OF refl shape_same(2) [OF sh]] s by (simp add: structure_ok_def)
  moreover have "within_limits (put_tab_of_pane pid g s)"
    using shape_limits(1) [of "put_tab_of_pane pid g s" s] sh s by (simp add: put_tab_of_pane_def structure_ok_def)
  ultimately show ?thesis
    using s hierarchy_ok_shape [OF _ sh] shape_same(5) [OF sh]
    by (auto simp: structure_ok_def put_tab_of_pane_def home_ok_def)
qed

text \<open>A change of Panes that keeps identities, places and what the check asks for.\<close>

definition keeps_pane :: "(pane \<Rightarrow> pane) \<Rightarrow> bool" where
  "keeps_pane f \<longleftrightarrow> (\<forall>p. p_id (f p) = p_id p \<and> p_source (f p) = p_source p \<and> (pane_ok p \<longrightarrow> pane_ok (f p)))"

lemma sources_precede_keys:
  "map p_id ps' = map p_id ps \<Longrightarrow> map p_source ps' = map p_source ps \<Longrightarrow> sources_precede seen ps' = sources_precede seen ps"
proof (induction ps arbitrary: ps' seen)
  case (Cons p ps)
  then obtain q qs where "ps' = q # qs" "p_id q = p_id p" "p_source q = p_source p"
    "map p_id qs = map p_id ps" "map p_source qs = map p_source ps" by (auto simp: Cons_eq_map_conv map_eq_Cons_conv)
  then show ?case using Cons.IH [of qs] by simp
qed simp

lemma keeps_pane_tab:
  assumes "keeps_pane f" "\<And>ps. map p_id (F ps) = map p_id ps" "\<And>ps. map p_source (F ps) = map p_source ps"
    "\<And>ps. set (F ps) \<subseteq> set ps \<union> f ` set ps"
  shows "keeps_tab (\<lambda>t. t\<lparr>t_panes := F (t_panes t)\<rparr>)"
proof -
  have hd: "F ps \<noteq> [] \<and> p_id (hd (F ps)) = p_id (hd ps)" if "ps \<noteq> []" for ps
    using map_eq_hd [OF assms(2) that] .
  have "wf_tab (t\<lparr>t_panes := F (t_panes t)\<rparr>)" if "wf_tab t" for t
    using that hd [of "t_panes t"] sources_precede_keys [OF assms(2,3), of "[]" "t_panes t"] by (simp add: wf_tab_def)
  moreover have "\<forall>p\<in>set (F ps). pane_ok p" if "\<forall>p\<in>set ps. pane_ok p" for ps
    using that assms(1) assms(4) [of ps] by (auto simp: keeps_pane_def)
  ultimately show ?thesis by (simp add: keeps_tab_def tab_ids_def assms(2))
qed

lemma keeps_pane_first:
  assumes "keeps_pane f"
  shows "keeps_tab (\<lambda>t. t\<lparr>t_panes := update_first P f (t_panes t)\<rparr>)"
proof (rule keeps_pane_tab [OF assms])
  show "map p_id (update_first P f ps) = map p_id ps" "map p_source (update_first P f ps) = map p_source ps" for ps
    using assms by (simp_all add: map_update_first keeps_pane_def)
  show "set (update_first P f ps) \<subseteq> set ps \<union> f ` set ps" for ps using set_update_first [of P f ps] by auto
qed

lemma put_pane_structure: "structure_ok s \<Longrightarrow> keeps_pane f \<Longrightarrow> structure_ok (put_pane pid f s)"
  unfolding put_pane_def by (intro put_tab_of_pane_structure keeps_pane_first)

text \<open>A change of every Workspace that keeps identities and names.\<close>

lemma map_workspaces_structure:
  assumes s: "structure_ok s"
    and F: "\<And>w. w \<in> set (workspaces s) \<Longrightarrow> intact w \<Longrightarrow> intact (F w) \<and> shape (F w) = shape w \<and> w_name (F w) = w_name w"
  shows "structure_ok (set_workspaces (map F (workspaces s)) s)"
proof -
  let ?ws = "map F (workspaces s)"
  have i: "\<forall>w\<in>set (workspaces s). intact w" using s by (simp add: structure_ok_def hierarchy_ok_def)
  then have sh: "map shape ?ws = map shape (workspaces s)" using F by simp
  have "\<forall>w\<in>set ?ws. intact w \<and> valid_name (w_name w)" using F i s by (auto simp: structure_ok_def)
  moreover have "names_ok (st_names s) ?ws"
    using names_ok_keys [OF refl shape_same(2) [OF sh]] s by (simp add: structure_ok_def)
  moreover have "within_limits (set_workspaces ?ws s)"
    using shape_limits(1) [of "set_workspaces ?ws s" s] sh s by (simp add: structure_ok_def)
  ultimately show ?thesis
    using s hierarchy_ok_shape [OF _ sh] by (auto simp: structure_ok_def home_ok_def)
qed

lemma map_tabs_intact:
  assumes "intact w"
    and g: "\<And>t. t \<in> set (w_tabs w) \<Longrightarrow> tab_ids (g t) = tab_ids t \<and> (wf_tab t \<longrightarrow> wf_tab (g t)) \<and>
      (worktree_ok t \<longrightarrow> worktree_ok (g t)) \<and> ((\<forall>p\<in>set (t_panes t). pane_ok p) \<longrightarrow> (\<forall>p\<in>set (t_panes (g t)). pane_ok p))"
  shows "intact (w\<lparr>w_tabs := map g (w_tabs w)\<rparr>) \<and> shape (w\<lparr>w_tabs := map g (w_tabs w)\<rparr>) = shape w"
proof -
  have ne: "w_tabs w \<noteq> []" using assms(1) by (simp add: intact_def)
  have ids: "t_id (g t) = t_id t" if "t \<in> set (w_tabs w)" for t using g [OF that] by (simp add: tab_ids_def)
  have "wf_tab (g t) \<and> worktree_ok (g t) \<and> (\<forall>p\<in>set (t_panes (g t)). pane_ok p)" if "t \<in> set (w_tabs w)" for t
    using that assms(1) g [OF that] by (auto simp: intact_def workspace_panes_def)
  then show ?thesis
    using assms(1) ne ids g by (auto simp: intact_def shape_def workspace_panes_def hd_map)
qed

lemma map_panes_structure:
  assumes s: "structure_ok s" and f: "keeps_pane f"
  shows "structure_ok (set_workspaces (map_panes f (workspaces s)) s)"
proof -
  let ?g = "\<lambda>t. t\<lparr>t_panes := map f (t_panes t)\<rparr>"
  have g: "keeps_tab ?g" by (rule keeps_pane_tab [OF f]) (use f in \<open>auto simp: keeps_pane_def\<close>)
  have "intact (w\<lparr>w_tabs := map ?g (w_tabs w)\<rparr>) \<and> shape (w\<lparr>w_tabs := map ?g (w_tabs w)\<rparr>) = shape w" if "intact w" for w
  proof (rule map_tabs_intact [OF that], intro conjI impI)
    fix t
    show "worktree_ok t \<Longrightarrow> worktree_ok (?g t)" by (simp add: worktree_ok_def)
    show "\<forall>p\<in>set (t_panes t). pane_ok p \<Longrightarrow> \<forall>p\<in>set (t_panes (?g t)). pane_ok p"
      using keeps_tabD(5) [OF g, of t] by blast
  qed (use keeps_tabD(1,4) [OF g] in blast)+
  then show ?thesis
    unfolding map_panes_def by (intro map_workspaces_structure [OF s]) simp
qed

section \<open>Each operation\<close>

lemma put_tab_of_pane_frame [simp]:
  "frame (put_tab_of_pane pid g s) = frame s" "st_session_ends (put_tab_of_pane pid g s) = st_session_ends s"
  by (simp_all add: put_tab_of_pane_def)

lemma put_pane_frame [simp]: "frame (put_pane pid f s) = frame s" "st_session_ends (put_pane pid f s) = st_session_ends s"
  by (simp_all add: put_pane_def)

lemma sound_frame:
  assumes "sound s" "structure_ok s'" "frame s' = frame s" "st_session_ends s' = st_session_ends s"
  shows "sound s'"
  using assms validate_ends_cong [OF assms(3,4)] outcomes_ok_cong [OF assms(3)] by (simp add: sound_split)

lemma renamed_structure:
  "structure_ok s \<Longrightarrow> structure_ok (bump_revision (recalculate_names s))"
  "structure_ok s \<Longrightarrow> structure_ok (set_revision r (recalculate_names s))"
  using recalculate_structure [OF structure_pre, of s] structure_cong(1) [of "bump_revision (recalculate_names s)" "recalculate_names s"]
    structure_cong(1) [of "set_revision r (recalculate_names s)" "recalculate_names s"] by simp_all

lemma keeps_panes [simp]:
  "keeps_pane (\<lambda>p. p\<lparr>p_current_directory := d\<rparr>)"
  "keeps_pane (\<lambda>p. p\<lparr>p_repository_directory := d\<rparr>)"
  "valid_path path \<Longrightarrow> keeps_pane (\<lambda>p. p\<lparr>p_confirmed_directory := Some path\<rparr>)"
  "(case snap of None \<Rightarrow> True | Some x \<Rightarrow> snapshot_valid x) \<Longrightarrow> keeps_pane (\<lambda>p. p\<lparr>p_presentation := snap\<rparr>)"
  by (auto simp: keeps_pane_def pane_ok_def bad_path_def)

lemma remove_pane_sound: "sound s \<Longrightarrow> sound (remove_pane pid s)"
  by (rule sound_frame [of s]) (simp_all add: sound_split remove_pane_structure)

lemma confirm_directory_sound: "sound s \<Longrightarrow> valid_path path \<Longrightarrow> sound (confirm_directory pid path s)"
  by (rule sound_frame [of s])
    (auto simp: confirm_directory_def sound_split intro!: renamed_structure put_pane_structure split: option.split)

lemma present_directory_sound: "sound s \<Longrightarrow> sound (present_directory pid path s)"
  by (rule sound_frame [of s])
    (auto simp: present_directory_def sound_split intro!: renamed_structure put_pane_structure split: option.split)

lemma present_presentation_sound:
  "sound s \<Longrightarrow> (case snap of None \<Rightarrow> True | Some x \<Rightarrow> snapshot_valid x) \<Longrightarrow> sound (present_presentation pid snap s)"
  by (rule sound_frame [of s]) (auto simp: present_presentation_def sound_split intro!: put_pane_structure)

lemma present_repository_directory_sound: "sound s \<Longrightarrow> sound (present_repository_directory pid path s)"
  by (rule sound_frame [of s])
    (auto simp: present_repository_directory_def sound_split structure_cong(1) [of "bump_revision x" x for x]
      intro!: put_pane_structure split: option.split)

lemma keeps_tab_repair:
  assumes "valid_path path"
  shows "keeps_tab (\<lambda>t. t\<lparr>t_panes := update_first P (\<lambda>p. p\<lparr>p_confirmed_directory := Some path\<rparr>) (t_panes t),
    t_membership := Repaired\<rparr>)"
  using keeps_pane_first [OF keeps_panes(3) [OF assms], of P]
  by (simp add: keeps_tab_def tab_ids_def wf_tab_def)

lemma repair_directory_sound:
  assumes "sound s" "valid_path path" "repair_directory pid path s = (Inr (), s')"
  shows "sound s'"
proof -
  let ?g = "\<lambda>t. t\<lparr>t_panes := update_first (\<lambda>p. p_id p = pid) (\<lambda>p. p\<lparr>p_confirmed_directory := Some path\<rparr>) (t_panes t),
     t_membership := Repaired\<rparr>"
  obtain r where s': "s' = set_revision r (recalculate_names (put_tab_of_pane pid ?g s))"
    using assms(3) by (auto simp: repair_directory_def Let_def split: option.splits)
  have "structure_ok (put_tab_of_pane pid ?g s)"
    using assms(1,2) by (intro put_tab_of_pane_structure keeps_tab_repair) (simp_all add: sound_split)
  then show ?thesis
    using assms(1) renamed_structure(2) by (intro sound_frame [OF assms(1)]) (simp_all add: s')
qed

lemma add_worktree_tab_sound:
  assumes "sound s" "fresh_ids rnd s" "valid_path root" "valid_path path" "valid_path start"
    "add_worktree_tab rnd by w root path start s = (Inr i, s')"
  shows "sound s'"
proof -
  let ?t = "\<lambda>i p. \<lparr>t_membership = Opened, t_worktree = Some path, t_worktree_repository = Some root, t_id = i,
    t_root_pane = p, t_panes = [new_pane p None SideRight start by]\<rparr>"
  obtain v p r where room: "tab_count s < MAX_TABS" "pane_count s < MAX_PANES"
    and v: "find_workspace (st_inventory s) w = Some v" and ids: "rnd 0 = Some i" "rnd 1 = Some p"
    and s': "s' = set_revision r (put_workspace w (\<lambda>w. w\<lparr>w_tabs := w_tabs w @ [?t i p]\<rparr>) s)"
    using assms(6) by (auto simp: add_worktree_tab_def Let_def not_le split: if_splits option.splits)
  note new = fresh_ids_drawn(2) [OF assms(2) ids]
  have st: "structure_ok s" using assms(1) by (simp add: sound_split)
  have pre: "pre_ok (put_workspace w (\<lambda>w. w\<lparr>w_tabs := w_tabs w @ [?t i p]\<rparr>) s)"
    using new room assms(3-5) by (intro append_tab_pre_ok [OF st v, of "?t i p" p SideRight start "by"]) (auto simp: worktree_ok_def bad_path_def)
  obtain ys zs where ws: "workspaces s = ys @ v # zs"
    "put_workspace w (\<lambda>w. w\<lparr>w_tabs := w_tabs w @ [?t i p]\<rparr>) s = set_workspaces (ys @ v\<lparr>w_tabs := w_tabs v @ [?t i p]\<rparr> # zs) s"
    using v by (rule put_workspace_split) blast
  have "structure_ok (put_workspace w (\<lambda>w. w\<lparr>w_tabs := w_tabs w @ [?t i p]\<rparr>) s)"
    using pre st ws by (auto simp: structure_ok_def pre_ok_def)
  then show ?thesis
    by (intro sound_frame [OF assms(1)])
      (simp_all add: s' structure_cong(1) [of "set_revision x y" y for x y])
qed

section \<open>Initial states, boots and what the server retains\<close>

lemma empty_state_sound: "sound empty_state"
  by (simp add: sound_split validate_ends_def structure_ok_def hierarchy_ok_def names_ok_def within_limits_def home_ok_def
      bad_path_def outcomes_ok_def tab_count_def pane_count_def empty_state_def u64_max_def)

lemma first_state_sound:
  assumes "distinct [wid, tid, pid]" "0 \<notin> {wid, tid, pid}" "valid_path directory"
  shows "sound (first_state wid tid pid directory)"
proof -
  let ?s = "first_state wid tid pid directory"
  have "hierarchy_ok (workspaces ?s)"
    using assms by (simp add: hierarchy_ok_def intact_def first_state_def first_workspace_def new_pane_def workspace_ids_def
        workspace_panes_def wf_tab_def worktree_ok_def bad_path_def pane_ok_def no_observers_def tab_ids_def)
  moreover have "valid_name (lit ''Default'')" by (simp add: valid_name_def run_simps)
  ultimately have "structure_ok ?s"
    using assms(3) by (simp add: structure_ok_def names_ok_def within_limits_def home_ok_def bad_path_def tab_count_def
        pane_count_def first_state_def first_workspace_def MAX_WORKSPACES_def MAX_TABS_def MAX_PANES_def)
  then show ?thesis
    by (simp add: sound_split validate_ends_def outcomes_ok_def first_state_def u64_max_def)
qed

lemma keeps_pane_live [simp]:
  "keeps_pane (\<lambda>p. p\<lparr>p_creator := None, p_current_directory := None, p_repository_directory := None,
     p_presentation := None, p_observers := no_observers\<rparr>)"
  "keeps_pane (\<lambda>p. p\<lparr>p_current_directory := None, p_repository_directory := None,
     p_presentation := None, p_observers := no_observers\<rparr>)"
  by (simp_all add: keeps_pane_def pane_ok_def no_observers_def)

lemma begin_boot_sound:
  assumes "sound s"
  shows "sound (begin_boot boot s)"
proof (cases "st_creator_boot s = Some boot")
  case False
  let ?s = "set_workspaces (map_panes (\<lambda>p. p\<lparr>p_creator := None, p_current_directory := None, p_repository_directory := None,
     p_presentation := None, p_observers := no_observers\<rparr>) (workspaces s)) s"
  have st: "structure_ok ?s" using assms by (intro map_panes_structure) (simp_all add: sound_split)
  moreover have "outcomes_ok (?s\<lparr>st_session_ends := None, st_creator_boot := Some boot\<rparr>)"
    using assms by (simp add: sound_split outcomes_ok_def)
  ultimately show ?thesis
    using False structure_cong(1) [of "?s\<lparr>st_session_ends := None, st_creator_boot := Some boot\<rparr>" ?s]
    by (simp add: sound_split begin_boot_def validate_ends_def)
qed (simp add: assms begin_boot_def)

lemma cleared_sound:
  "sound (s\<lparr>st_inventory := (st_inventory s)\<lparr>inv_repositories := r, inv_close := c\<rparr>\<rparr>) = sound s" (is "sound ?s = _")
proof -
  have "structure_ok ?s = structure_ok s" by (rule structure_cong) simp_all
  moreover have "frame ?s = frame s" "st_session_ends ?s = st_session_ends s" by (simp_all add: frame_def)
  ultimately show ?thesis
    using sound_frame [of s ?s] sound_frame [of ?s s] by (metis sound_split)
qed

lemma envelope_sound: "sound s \<Longrightarrow> sound (envelope s)"
  unfolding envelope_def Let_def cleared_sound
  by (rule sound_frame [of s]) (simp_all add: map_panes_structure sound_split)

end
