(* ===== verification/Reconcile.thy ===== *)
theory Reconcile
  imports Upkeep
begin

text \<open>
  Which Worktree a Tab belongs to (\<open>core_host/repositories.rs\<close>): the server compares every Tab with the
  git facts it last read. Only the Root Tab of an unpinned Workspace follows its directory; every
  other saved membership stays, gains at most the locator of its repository, and a second comparison
  with the same facts changes nothing.
\<close>

section \<open>The comparison\<close>

definition root_pane_directory :: "tab \<Rightarrow> path option" where
  "root_pane_directory t = map_option repository_directory (find_pane t (t_root_pane t))"

definition workspace_directory :: "workspace \<Rightarrow> path option" where
  "workspace_directory w =
     (case w_pinned_directory w of
        Some d \<Rightarrow> Some d
      | None \<Rightarrow> Option.bind (find_tab w (w_root_tab w)) root_pane_directory)"

definition current_worktree :: "repositories \<Rightarrow> path \<Rightarrow> (path \<times> path) option" where
  "current_worktree snapshot directory =
     (case List.find (\<lambda>f. path_eq (df_directory f) directory \<and> df_failure f = None) (rs_directories snapshot) of
        None \<Rightarrow> None
      | Some facts \<Rightarrow>
     (case df_worktrees facts of
        None \<Rightarrow> None
      | Some list \<Rightarrow>
     (case wi_current list of
        None \<Rightarrow> None
      | Some index \<Rightarrow>
     (if length (wi_worktrees list) \<le> index then None
      else let r = wi_worktrees list ! index in
        if \<not> wr_missing r \<and> wr_head r \<noteq> Bare then Some (wr_root r, wi_main_root list) else None))))"

text \<open>A successful read found no repository at the directory.\<close>

definition outside_repository :: "repositories \<Rightarrow> path \<Rightarrow> bool" where
  "outside_repository snapshot directory \<longleftrightarrow>
     list_ex (\<lambda>f. path_eq (df_directory f) directory \<and> df_failure f = None \<and> df_repository f = None)
       (rs_directories snapshot)"

text \<open>The repository whose list of Worktrees names the Tab's.\<close>

definition repository_locator :: "repositories \<Rightarrow> path option \<Rightarrow> path option" where
  "repository_locator snapshot worktree =
     find_map (\<lambda>f. case (if df_failure f = None then df_worktrees f else None) of
          None \<Rightarrow> None
        | Some list \<Rightarrow>
            if list_ex (\<lambda>r. opt_path_eq (Some (wr_root r)) worktree) (wi_worktrees list)
            then Some (wi_main_root list) else None)
       (rs_directories snapshot)"

text \<open>The three cases of the loop body: the Root Tab left its repository, the membership is saved, or
  the Tab follows. Each returns whether it changed the Tab.\<close>

definition left_repository :: "tab \<Rightarrow> bool \<times> tab" where
  "left_repository t =
     (t_worktree t \<noteq> None \<or> t_worktree_repository t \<noteq> None \<or> t_membership t \<noteq> Following,
      t\<lparr>t_worktree := None, t_worktree_repository := None, t_membership := Following\<rparr>)"

definition saved_membership :: "repositories \<Rightarrow> tab \<Rightarrow> bool \<times> tab" where
  "saved_membership snapshot t =
     (case repository_locator snapshot (t_worktree t) of
        Some main \<Rightarrow>
          if \<not> opt_path_eq (t_worktree_repository t) (Some main)
          then (True, t\<lparr>t_worktree_repository := Some main\<rparr>) else (False, t)
      | None \<Rightarrow> (False, t))"

definition followed_membership :: "(path \<times> path) option \<Rightarrow> tab \<Rightarrow> bool \<times> tab" where
  "followed_membership current t =
     (case current of
        None \<Rightarrow> (False, t)
      | Some (root, main) \<Rightarrow>
          let moved = \<not> opt_path_eq (t_worktree t) (Some root);
              t = (if moved then t\<lparr>t_worktree := Some root\<rparr> else t);
              relocated = \<not> opt_path_eq (t_worktree_repository t) (Some main);
              t = (if relocated then t\<lparr>t_worktree_repository := Some main\<rparr> else t)
          in (moved \<or> relocated, t))"

definition tab_current :: "repositories \<Rightarrow> (path \<times> path) option \<Rightarrow> tab \<Rightarrow> (path \<times> path) option" where
  "tab_current snapshot workspace_current t =
     (case Option.bind (root_pane_directory t) (current_worktree snapshot) of
        Some c \<Rightarrow> Some c
      | None \<Rightarrow> if t_worktree t = None then workspace_current else None)"

definition reconcile_tab :: "repositories \<Rightarrow> bool \<Rightarrow> (path \<times> path) option \<Rightarrow> tab \<Rightarrow> bool \<times> tab" where
  "reconcile_tab snapshot follows workspace_current t =
     (if follows \<and> (case root_pane_directory t of None \<Rightarrow> False | Some d \<Rightarrow> outside_repository snapshot d)
      then left_repository t
      else if t_membership t \<noteq> Following \<or> (t_worktree t \<noteq> None \<and> \<not> follows)
      then saved_membership snapshot t
      else followed_membership (tab_current snapshot workspace_current t) t)"

definition tab_follows :: "workspace \<Rightarrow> tab \<Rightarrow> bool" where
  "tab_follows w t \<longleftrightarrow> w_pinned_directory w = None \<and> t_id t = w_root_tab w"

definition workspace_current :: "repositories \<Rightarrow> workspace \<Rightarrow> (path \<times> path) option" where
  "workspace_current snapshot w = Option.bind (workspace_directory w) (current_worktree snapshot)"

definition reconcile_workspace :: "repositories \<Rightarrow> workspace \<Rightarrow> bool \<times> workspace" where
  "reconcile_workspace snapshot w =
     (let rs = map (\<lambda>t. reconcile_tab snapshot (tab_follows w t) (workspace_current snapshot w) t) (w_tabs w)
      in (list_ex fst rs, w\<lparr>w_tabs := map snd rs\<rparr>))"

definition reconcile_membership :: "repositories \<Rightarrow> state \<Rightarrow> bool \<times> state" where
  "reconcile_membership snapshot s =
     (let rs = map (reconcile_workspace snapshot) (workspaces s);
          changed = list_ex fst rs;
          s' = set_workspaces (map snd rs) s
      in (changed, if changed then set_revision (saturating_add (inv_revision (st_inventory s')) 1) s' else s'))"

lemmas reconcile_run [run_simps] = workspace_directory_def current_worktree_def outside_repository_def
  repository_locator_def root_pane_directory_def left_repository_def saved_membership_def
  followed_membership_def tab_current_def reconcile_tab_def tab_follows_def workspace_current_def
  reconcile_workspace_def reconcile_membership_def

section \<open>What it keeps\<close>

lemmas reconcile_cases = left_repository_def saved_membership_def followed_membership_def

lemma reconcile_tab_fields [simp]:
  "t_id (snd (reconcile_tab snapshot follows c t)) = t_id t"
  "t_root_pane (snd (reconcile_tab snapshot follows c t)) = t_root_pane t"
  "t_panes (snd (reconcile_tab snapshot follows c t)) = t_panes t"
  by (simp_all add: reconcile_tab_def reconcile_cases Let_def split: option.split)

lemma reconcile_tab_ids [simp]: "tab_ids (snd (reconcile_tab snapshot follows c t)) = tab_ids t"
  by (simp add: tab_ids_def)

lemma root_pane_directory_reconcile [simp]:
  "root_pane_directory (snd (reconcile_tab snapshot follows c t)) = root_pane_directory t"
  by (simp add: root_pane_directory_def find_pane_def)

text \<open>Every path git reported is one the server can retain.\<close>

definition snapshot_paths_ok :: "repositories \<Rightarrow> bool" where
  "snapshot_paths_ok snapshot \<longleftrightarrow> list_all (\<lambda>f. case df_worktrees f of None \<Rightarrow> True
     | Some list \<Rightarrow> valid_path (wi_main_root list) \<and> list_all (\<lambda>r. valid_path (wr_root r)) (wi_worktrees list))
     (rs_directories snapshot)"

text \<open>The Worktrees that successful reads list, each with its repository.\<close>

definition listed :: "repositories \<Rightarrow> (path \<times> path) set" where
  "listed snapshot = {(wr_root r, wi_main_root list) | f list r. f \<in> set (rs_directories snapshot) \<and>
     df_failure f = None \<and> df_worktrees f = Some list \<and> r \<in> set (wi_worktrees list)}"

lemma listed_valid: "snapshot_paths_ok snapshot \<Longrightarrow> (root, main) \<in> listed snapshot \<Longrightarrow> valid_path root \<and> valid_path main"
  by (fastforce simp: listed_def snapshot_paths_ok_def list_all_iff)

lemma current_worktree_listed:
  assumes "current_worktree snapshot d = Some (root, main)"
  shows "(root, main) \<in> listed snapshot"
proof -
  obtain f list i where f: "List.find (\<lambda>f. path_eq (df_directory f) d \<and> df_failure f = None) (rs_directories snapshot) = Some f"
    and l: "df_worktrees f = Some list" "i < length (wi_worktrees list)" "root = wr_root (wi_worktrees list ! i)" "main = wi_main_root list"
    using assms by (auto simp: current_worktree_def Let_def not_le split: option.splits if_splits)
  have "f \<in> set (rs_directories snapshot) \<and> df_failure f = None" using f by (auto simp: find_Some_iff)
  then show ?thesis using l nth_mem [OF l(2)] unfolding listed_def by blast
qed

lemma repository_locator_listed:
  assumes "repository_locator snapshot wt = Some main"
  shows "\<exists>root. (root, main) \<in> listed snapshot \<and> opt_path_eq (Some root) wt"
proof -
  obtain f list where "f \<in> set (rs_directories snapshot)" "df_failure f = None" "df_worktrees f = Some list"
    "list_ex (\<lambda>r. opt_path_eq (Some (wr_root r)) wt) (wi_worktrees list)" "main = wi_main_root list"
    using find_map_Some [OF assms [unfolded repository_locator_def]] by (auto split: option.splits if_splits)
  then show ?thesis unfolding listed_def list_ex_iff by blast
qed

lemma repository_locator_None [simp]: "repository_locator snapshot None = None"
  using repository_locator_listed [of snapshot None] by (cases "repository_locator snapshot None") (auto simp: opt_path_eq_def)

lemma tab_current_listed:
  "tab_current snapshot (workspace_current snapshot w) t = Some (root, main) \<Longrightarrow> (root, main) \<in> listed snapshot"
  by (auto simp: tab_current_def workspace_current_def bind_eq_Some_conv intro: current_worktree_listed
      split: option.splits if_splits)

lemma reconcile_tab_worktree_ok:
  assumes "snapshot_paths_ok snapshot" "worktree_ok t"
  shows "worktree_ok (snd (reconcile_tab snapshot follows (workspace_current snapshot w) t))"
proof -
  have "worktree_ok (snd (saved_membership snapshot t))"
    using assms repository_locator_listed [of snapshot "t_worktree t"] listed_valid [OF assms(1)]
    by (cases "t_worktree t") (auto simp: saved_membership_def worktree_ok_def bad_path_def split: option.splits)
  moreover have "worktree_ok (snd (followed_membership (tab_current snapshot (workspace_current snapshot w) t) t))"
    using assms tab_current_listed [of snapshot w t] listed_valid [OF assms(1)]
    by (auto simp: followed_membership_def worktree_ok_def bad_path_def opt_path_eq_def Let_def split: option.splits)
  moreover have "worktree_ok (snd (left_repository t))"
    by (simp add: left_repository_def worktree_ok_def bad_path_def)
  ultimately show ?thesis by (simp add: reconcile_tab_def)
qed

lemma reconcile_workspace_intact:
  assumes "snapshot_paths_ok snapshot" "intact w"
  shows "intact (snd (reconcile_workspace snapshot w)) \<and> shape (snd (reconcile_workspace snapshot w)) = shape w \<and>
    w_name (snd (reconcile_workspace snapshot w)) = w_name w"
proof -
  let ?g = "\<lambda>t. snd (reconcile_tab snapshot (tab_follows w t) (workspace_current snapshot w) t)"
  have "intact (w\<lparr>w_tabs := map ?g (w_tabs w)\<rparr>) \<and> shape (w\<lparr>w_tabs := map ?g (w_tabs w)\<rparr>) = shape w"
    by (rule map_tabs_intact [OF assms(2)]) (simp add: reconcile_tab_worktree_ok [OF assms(1)] wf_tab_def)
  then show ?thesis by (simp add: reconcile_workspace_def Let_def comp_def)
qed

lemma reconcile_membership_sound:
  assumes "sound s" "snapshot_paths_ok snapshot"
  shows "sound (snd (reconcile_membership snapshot s))"
proof -
  let ?s = "set_workspaces (map (snd \<circ> reconcile_workspace snapshot) (workspaces s)) s"
  have "structure_ok ?s"
    using assms(1) reconcile_workspace_intact [OF assms(2)] by (intro map_workspaces_structure) (simp_all add: sound_split)
  then have "sound ?s" by (intro sound_frame [OF assms(1)]) (simp_all add: frame_def)
  moreover have "sound (set_revision r ?s)" for r using \<open>structure_ok ?s\<close> structure_cong(1) [of "set_revision r ?s" ?s]
    by (intro sound_frame [OF assms(1)]) simp_all
  ultimately show ?thesis by (simp add: reconcile_membership_def Let_def comp_def)
qed

section \<open>Comparing again\<close>

text \<open>One repository names one main root, from whichever of its directories it was read.\<close>

definition main_roots_agree :: "repositories \<Rightarrow> bool" where
  "main_roots_agree snapshot \<longleftrightarrow>
     (\<forall>(root, main)\<in>listed snapshot. \<forall>(root', main')\<in>listed snapshot. path_eq root root' \<longrightarrow> path_eq main main')"

lemma main_roots_agreeD:
  assumes "main_roots_agree snapshot" "(root, main) \<in> listed snapshot" "(root', main') \<in> listed snapshot"
    "path_eq root root'"
  shows "path_eq main main'"
  using assms unfolding main_roots_agree_def by fast

lemma followed_fields:
  assumes "followed_membership (Some (root, main)) t = (changed, t')"
  shows "opt_path_eq (t_worktree t') (Some root)" "opt_path_eq (t_worktree_repository t') (Some main)"
    "t_membership t' = t_membership t" "t_worktree t' \<noteq> None"
  using assms by (auto simp: followed_membership_def Let_def opt_path_eq_def split: if_splits)

lemma followed_again:
  assumes "opt_path_eq (t_worktree t) (Some root)" "opt_path_eq (t_worktree_repository t) (Some main)"
  shows "followed_membership (Some (root, main)) t = (False, t)"
  using assms by (simp add: followed_membership_def Let_def)

lemma saved_again: "saved_membership snapshot (snd (saved_membership snapshot t)) = (False, snd (saved_membership snapshot t))"
  by (auto simp: saved_membership_def split: option.split)

lemma saved_located:
  assumes "main_roots_agree snapshot" "(root, main) \<in> listed snapshot" "opt_path_eq (t_worktree t) (Some root)"
    "opt_path_eq (t_worktree_repository t) (Some main)"
  shows "saved_membership snapshot t = (False, t)"
proof (cases "repository_locator snapshot (t_worktree t)")
  case (Some main')
  then obtain root' where r: "(root', main') \<in> listed snapshot" "opt_path_eq (Some root') (t_worktree t)"
    using repository_locator_listed by blast
  then have "path_eq main main'"
    using assms main_roots_agreeD [OF assms(1,2) r(1)] by (auto simp: opt_path_eq_def path_eq_def)
  then show ?thesis using Some assms(4) by (simp add: saved_membership_def opt_path_eq_def path_eq_def)
qed (simp add: saved_membership_def)

lemma reconcile_tab_again:
  assumes agree: "main_roots_agree snapshot"
    and t': "t' = snd (reconcile_tab snapshot follows (workspace_current snapshot w) t)"
  shows "reconcile_tab snapshot follows (workspace_current snapshot w) t' = (False, t')"
proof -
  let ?wc = "workspace_current snapshot w"
  have dir: "root_pane_directory t' = root_pane_directory t" using t' by simp
  define out where "out = (follows \<and> (case root_pane_directory t of None \<Rightarrow> False | Some d \<Rightarrow> outside_repository snapshot d))"
  define saved where "saved u = (t_membership u \<noteq> Following \<or> (t_worktree u \<noteq> None \<and> \<not> follows))" for u :: tab
  have step: "reconcile_tab snapshot follows ?wc u = (if out then left_repository u
      else if saved u then saved_membership snapshot u else followed_membership (tab_current snapshot ?wc u) u)"
    if "root_pane_directory u = root_pane_directory t" for u
    using that by (simp only: reconcile_tab_def out_def saved_def)
  note here = step [OF refl] step [OF dir]
  consider (out) out | (saved) "\<not> out" "saved t" | (none) "\<not> out" "\<not> saved t" "tab_current snapshot ?wc t = None"
    | (follow) root main where "\<not> out" "\<not> saved t" "tab_current snapshot ?wc t = Some (root, main)"
    by (cases "tab_current snapshot ?wc t") fastforce+
  then show ?thesis
  proof cases
    case out
    then have "t' = snd (left_repository t)" using t' by (simp add: here)
    then show ?thesis using out unfolding here(2) by (simp add: left_repository_def)
  next
    case saved
    then have e: "t' = snd (saved_membership snapshot t)" using t' by (simp add: here)
    then have "saved t'" using saved(2) by (auto simp: saved_membership_def saved_def split: option.split)
    then show ?thesis using saved(1) saved_again [of snapshot t] unfolding here(2) by (simp add: e)
  next
    case none
    then have "t' = t" using t' by (simp add: here followed_membership_def)
    then show ?thesis using none unfolding here(2) by (simp add: followed_membership_def)
  next
    case follow
    then have "followed_membership (Some (root, main)) t = (fst (followed_membership (Some (root, main)) t), t')"
      using t' by (simp add: here)
    note f = followed_fields [OF this]
    have "tab_current snapshot ?wc t' \<in> {None, Some (root, main)}"
      using follow(3) f(4) dir by (auto simp: tab_current_def split: option.splits)
    then have "followed_membership (tab_current snapshot ?wc t') t' = (False, t')"
      using followed_again [OF f(1,2)] by (auto simp: followed_membership_def)
    moreover have "saved_membership snapshot t' = (False, t')"
      using saved_located [OF agree tab_current_listed [OF follow(3)] f(1,2)] .
    ultimately show ?thesis using follow(1) unfolding here(2) by simp
  qed
qed

lemma find_tab_map:
  assumes "\<And>t. t_id (g t) = t_id t" "\<And>t. root_pane_directory (g t) = root_pane_directory t"
  shows "Option.bind (find_tab (w\<lparr>w_tabs := map g (w_tabs w)\<rparr>) i) root_pane_directory =
    Option.bind (find_tab w i) root_pane_directory"
proof -
  have "Option.bind (List.find (\<lambda>t. t_id t = i) (map g ts)) root_pane_directory =
    Option.bind (List.find (\<lambda>t. t_id t = i) ts) root_pane_directory" for ts
    by (induction ts) (simp_all add: assms)
  then show ?thesis by (simp add: find_tab_def)
qed

lemma reconcile_workspace_again:
  assumes "main_roots_agree snapshot"
  shows "reconcile_workspace snapshot (snd (reconcile_workspace snapshot w)) = (False, snd (reconcile_workspace snapshot w))"
proof -
  let ?g = "\<lambda>t. snd (reconcile_tab snapshot (tab_follows w t) (workspace_current snapshot w) t)"
  let ?w = "w\<lparr>w_tabs := map ?g (w_tabs w)\<rparr>"
  have w: "snd (reconcile_workspace snapshot w) = ?w" by (simp add: reconcile_workspace_def Let_def comp_def)
  have "workspace_directory ?w = workspace_directory w"
    using find_tab_map [of ?g w "w_root_tab w"] by (simp add: workspace_directory_def split: option.split)
  then have wc: "workspace_current snapshot ?w = workspace_current snapshot w" by (simp add: workspace_current_def)
  have fw: "tab_follows ?w (?g t) = tab_follows w t" for t by (simp add: tab_follows_def)
  have "reconcile_tab snapshot (tab_follows ?w (?g t)) (workspace_current snapshot ?w) (?g t) = (False, ?g t)" for t
    using reconcile_tab_again [OF assms refl, of "tab_follows w t" w t] unfolding wc fw .
  then show ?thesis
    unfolding w by (simp add: reconcile_workspace_def [of snapshot ?w] Let_def comp_def list_ex_iff)
qed

lemma unchanged_tab: "reconcile_tab snapshot follows c t = (False, t') \<Longrightarrow> t' = t"
  by (auto simp: reconcile_tab_def reconcile_cases Let_def split: option.splits if_splits)

lemma unchanged_workspace:
  assumes "\<not> fst (reconcile_workspace snapshot w)" shows "snd (reconcile_workspace snapshot w) = w"
proof -
  let ?g = "\<lambda>t. reconcile_tab snapshot (tab_follows w t) (workspace_current snapshot w) t"
  have "\<not> fst (?g t)" if "t \<in> set (w_tabs w)" for t using assms that by (auto simp: reconcile_workspace_def Let_def list_ex_iff)
  then have "snd (?g t) = t" if "t \<in> set (w_tabs w)" for t using that unchanged_tab by (metis (full_types) prod.collapse)
  then have "map (snd \<circ> ?g) (w_tabs w) = w_tabs w" by (intro map_idI) simp
  then show ?thesis by (simp add: reconcile_workspace_def Let_def comp_def)
qed

lemma unchanged_membership: "reconcile_membership snapshot s = (False, s') \<Longrightarrow> s' = s"
proof -
  assume s': "reconcile_membership snapshot s = (False, s')"
  then have "\<not> fst (reconcile_workspace snapshot w)" if "w \<in> set (workspaces s)" for w
    using that by (auto simp: reconcile_membership_def Let_def list_ex_iff split: if_splits)
  then have "map (snd \<circ> reconcile_workspace snapshot) (workspaces s) = workspaces s" by (intro map_idI) (simp add: unchanged_workspace)
  then show "s' = s" using s' by (auto simp: reconcile_membership_def Let_def set_workspaces_def split: if_splits)
qed

text \<open>C13. A comparison of the hierarchy with git facts that changes a Tab advances the revision by one, and stays
  at the largest revision; one that reports no change leaves the state as it was. As long as the facts name
  one main root for each repository, comparing with the same facts a second time reports no change.\<close>

theorem reconcile_membership_idempotent:
  assumes "main_roots_agree snapshot" "reconcile_membership snapshot s = (changed, s')"
  shows "reconcile_membership snapshot s' = (False, s') \<and>
    inv_revision (st_inventory s') = (if changed then min (inv_revision (st_inventory s) + 1) u64_max else inv_revision (st_inventory s)) \<and>
    (\<not> changed \<longrightarrow> s' = s)"
proof -
  have ws: "workspaces s' = map (snd \<circ> reconcile_workspace snapshot) (workspaces s)"
    using assms(2) by (auto simp: reconcile_membership_def Let_def comp_def split: if_splits)
  have each: "reconcile_workspace snapshot w = (False, w)" if "w \<in> set (workspaces s')" for w
    using that reconcile_workspace_again [OF assms(1)] by (auto simp: ws)
  then have "map (\<lambda>w. snd (reconcile_workspace snapshot w)) (workspaces s') = workspaces s'"
    by (intro map_idI) simp
  then have "reconcile_membership snapshot s' = (False, set_workspaces (workspaces s') s')"
    using each by (auto simp: reconcile_membership_def Let_def list_ex_iff comp_def)
  moreover have "s' = s" if "\<not> changed" using assms(2) that by (intro unchanged_membership [of snapshot s s']) simp
  moreover have "changed \<longrightarrow> inv_revision (st_inventory s') = min (inv_revision (st_inventory s) + 1) u64_max"
    using assms(2) by (auto simp: reconcile_membership_def Let_def saturating_add_def set_workspaces_def set_revision_def)
  ultimately show ?thesis by (auto simp: set_workspaces_def)
qed

text \<open>Facts of a directory that is the main Worktree of its repository.\<close>

definition demo_facts :: repositories where
  "demo_facts = \<lparr>rs_boot = 9, rs_revision = 1, rs_git = GitUnknown,
     rs_directories = [\<lparr>df_directory = lit ''/home/dev'',
       df_repository = Some \<lparr>repo_root = lit ''/home/dev'', repo_head = HeadBranch (lit ''main''), repo_commit = None,
         repo_upstream = None, repo_operation = None, repo_changes = Inl TimedOut, repo_counting = None,
         repo_pull_request = None\<rparr>,
       df_worktrees = Some \<lparr>wi_main_root = lit ''/home/dev'', wi_current = Some 0,
         wi_worktrees = [\<lparr>wr_root = lit ''/home/dev'', wr_head = WtBranch (lit ''main''), wr_locked = False,
           wr_missing = False\<rparr>]\<rparr>,
       df_failure = None\<rparr>],
     rs_pinned_worktrees = [], rs_pin_check = PinReady\<rparr>"

lemma demo_facts_agree: "main_roots_agree demo_facts"
  by (auto simp: main_roots_agree_def listed_def demo_facts_def)

text \<open>The Root Tab of the first Workspace follows it into the repository, and then stays.\<close>

theorem reconcile_membership_idempotent_witness:
  "let (changed, s) = reconcile_membership demo_facts demo_state
   in changed \<and> map t_worktree (concat (map w_tabs (workspaces s))) = [Some (lit ''/home/dev'')] \<and>
      reconcile_membership demo_facts s = (False, s)"
  using reconcile_membership_idempotent [OF demo_facts_agree, of demo_state]
  by (auto simp: demo_facts_def demo_state_def run_simps split: prod.split)

text \<open>What a comparison makes of one Tab, by the Workspace it is in.\<close>

lemma reconciled_tab:
  assumes "reconcile_membership snapshot s = (changed, s')" "w \<in> set (workspaces s)" "t \<in> set (w_tabs w)"
  obtains w' where "w' \<in> set (workspaces s')" "w_id w' = w_id w"
    "snd (reconcile_tab snapshot (tab_follows w t) (workspace_current snapshot w) t) \<in> set (w_tabs w')"
proof -
  let ?w = "snd (reconcile_workspace snapshot w)"
  have "?w \<in> set (workspaces s')" using assms(1,2) by (auto simp: reconcile_membership_def Let_def comp_def split: if_splits)
  moreover have "w_id ?w = w_id w" "snd (reconcile_tab snapshot (tab_follows w t) (workspace_current snapshot w) t) \<in> set (w_tabs ?w)"
    using assms(3) by (simp_all add: reconcile_workspace_def Let_def)
  ultimately show ?thesis by (rule that)
qed

lemma saved_tab_kept:
  assumes "t_worktree t \<noteq> None"
  shows "(snd (reconcile_tab snapshot False c t))\<lparr>t_worktree_repository := t_worktree_repository t\<rparr> = t"
  using assms by (auto simp: reconcile_tab_def saved_membership_def split: option.split)

lemma following_tab:
  assumes "root_pane_directory t = Some d" "t' = snd (reconcile_tab snapshot True c t)"
  shows "outside_repository snapshot d \<Longrightarrow> t_worktree t' = None \<and> t_membership t' = Following"
    "\<not> outside_repository snapshot d \<Longrightarrow> t_membership t = Following \<Longrightarrow> current_worktree snapshot d = Some (root, main) \<Longrightarrow>
       opt_path_eq (t_worktree t') (Some root) \<and> opt_path_eq (t_worktree_repository t') (Some main)"
proof -
  show "t_worktree t' = None \<and> t_membership t' = Following" if "outside_repository snapshot d"
    using assms that by (simp add: reconcile_tab_def left_repository_def)
  show "opt_path_eq (t_worktree t') (Some root) \<and> opt_path_eq (t_worktree_repository t') (Some main)"
    if "\<not> outside_repository snapshot d" "t_membership t = Following" "current_worktree snapshot d = Some (root, main)"
    using assms that followed_fields(1,2) [of root main t, OF prod.collapse [symmetric]] by (simp add: reconcile_tab_def tab_current_def)
qed

text \<open>Which membership a Tab has after a comparison, stated without the code's own test for the Tab that follows.\<close>

definition expected_membership :: "repositories \<Rightarrow> workspace \<Rightarrow> tab \<Rightarrow> tab \<Rightarrow> bool" where
  "expected_membership snapshot w t t' \<longleftrightarrow>
     (t_worktree t \<noteq> None \<and> (w_pinned_directory w \<noteq> None \<or> t_id t \<noteq> w_root_tab w) \<longrightarrow>
        t'\<lparr>t_worktree_repository := t_worktree_repository t\<rparr> = t) \<and>
     (\<forall>d. w_pinned_directory w = None \<and> t_id t = w_root_tab w \<and> root_pane_directory t = Some d \<longrightarrow>
        (outside_repository snapshot d \<longrightarrow> t_worktree t' = None \<and> t_membership t' = Following) \<and>
        (\<forall>root main. \<not> outside_repository snapshot d \<and> t_membership t = Following \<and> current_worktree snapshot d = Some (root, main) \<longrightarrow>
           opt_path_eq (t_worktree t') (Some root) \<and> opt_path_eq (t_worktree_repository t') (Some main)))"

lemma reconcile_tab_expected:
  "expected_membership snapshot w t (snd (reconcile_tab snapshot (tab_follows w t) (workspace_current snapshot w) t))"
  (is "expected_membership snapshot w t ?t")
proof -
  have "?t\<lparr>t_worktree_repository := t_worktree_repository t\<rparr> = t"
    if "t_worktree t \<noteq> None" "w_pinned_directory w \<noteq> None \<or> t_id t \<noteq> w_root_tab w"
  proof -
    have "tab_follows w t = False" using that(2) by (auto simp: tab_follows_def)
    then show ?thesis using saved_tab_kept [OF that(1)] by simp
  qed
  moreover have "tab_follows w t = True" if "w_pinned_directory w = None" "t_id t = w_root_tab w" using that by (simp add: tab_follows_def)
  ultimately show ?thesis using following_tab [of t _ ?t snapshot "workspace_current snapshot w"] by (simp add: expected_membership_def)
qed

text \<open>C14. Exactly the Root Tab of an unpinned Workspace follows its directory. In a pinned Workspace, and for every
  other Tab, a comparison changes nothing of a Tab with a saved Worktree but the locator of its repository.
  The Root Tab of an unpinned Workspace gives up its Worktree once a read found no repository at its
  directory; otherwise, while its membership follows, it takes the Worktree its directory is in.\<close>

theorem reconcile_keeps_saved:
  assumes "reconcile_membership snapshot s = (changed, s')" "w \<in> set (workspaces s)" "t \<in> set (w_tabs w)"
  shows "\<exists>w'\<in>set (workspaces s'). w_id w' = w_id w \<and>
    (\<exists>t'\<in>set (w_tabs w'). t_id t' = t_id t \<and> t_panes t' = t_panes t \<and> expected_membership snapshot w t t')"
proof -
  let ?t = "snd (reconcile_tab snapshot (tab_follows w t) (workspace_current snapshot w) t)"
  obtain w' where "w' \<in> set (workspaces s')" "w_id w' = w_id w" "?t \<in> set (w_tabs w')" using reconciled_tab [OF assms] .
  moreover have "t_id ?t = t_id t" "t_panes ?t = t_panes t" by simp_all
  ultimately show ?thesis using reconcile_tab_expected [of snapshot w t] by blast
qed

text \<open>The Root Tab of a pinned Workspace keeps its Worktree although its directory is in no repository.\<close>

definition demo_left :: repositories where
  "demo_left = demo_facts\<lparr>rs_directories := [\<lparr>df_directory = lit ''/tmp'', df_repository = None, df_worktrees = None, df_failure = None\<rparr>]\<rparr>"

definition demo_opened :: tab where
  "demo_opened = \<lparr>t_membership = Opened, t_worktree = Some (lit ''/home/dev/''), t_worktree_repository = None,
     t_id = 5, t_root_pane = 6, t_panes = [new_pane 6 None SideRight (lit ''/tmp'') None]\<rparr>"

definition demo_pinned :: "path option \<Rightarrow> state" where
  "demo_pinned pin = set_workspaces (map (\<lambda>w. w\<lparr>w_pinned_directory := pin, w_root_tab := 5, w_tabs := [demo_opened]\<rparr>) (workspaces demo_state)) demo_state"

theorem reconcile_keeps_saved_witness:
  "(\<exists>w'\<in>set (workspaces (snd (reconcile_membership demo_left (demo_pinned (Some (lit ''/home/dev'')))))). \<exists>t'\<in>set (w_tabs w').
     t_id t' = 5 \<and> t_worktree t' = Some (lit ''/home/dev/'') \<and> t_membership t' = Opened) \<and>
   (\<exists>w'\<in>set (workspaces (snd (reconcile_membership demo_left (demo_pinned None)))). \<exists>t'\<in>set (w_tabs w').
     t_id t' = 5 \<and> t_worktree t' = None \<and> t_membership t' = Following)"
proof -
  let ?w = "\<lambda>pin. hd (workspaces (demo_pinned pin))"
  have mem: "?w pin \<in> set (workspaces (demo_pinned pin))" "demo_opened \<in> set (w_tabs (?w pin))"
    and w: "w_pinned_directory (?w pin) = pin" "w_root_tab (?w pin) = 5" for pin
    by (simp_all add: demo_pinned_def demo_state_def first_state_def first_workspace_def)
  have t: "t_worktree demo_opened = Some (lit ''/home/dev/'')" "t_id demo_opened = 5" "t_membership demo_opened = Opened"
    by (simp_all add: demo_opened_def)
  have d: "root_pane_directory demo_opened = Some (lit ''/tmp'')" "outside_repository demo_left (lit ''/tmp'')"
    by (simp_all add: demo_opened_def demo_left_def run_simps)
  have after: "\<exists>w'\<in>set (workspaces (snd (reconcile_membership demo_left (demo_pinned pin)))). \<exists>t'\<in>set (w_tabs w').
      t_id t' = 5 \<and> expected_membership demo_left (?w pin) demo_opened t'" for pin
    using reconcile_keeps_saved [OF prod.collapse [symmetric] mem, of demo_left pin] unfolding t by blast
  have "t_worktree t' = Some (lit ''/home/dev/'') \<and> t_membership t' = Opened"
    if "expected_membership demo_left (?w (Some (lit ''/home/dev''))) demo_opened t'" for t'
  proof -
    have "t'\<lparr>t_worktree_repository := t_worktree_repository demo_opened\<rparr> = demo_opened"
      using that unfolding expected_membership_def w t by simp
    then show ?thesis using t by (metis tab.select_convs(1,2) tab.surjective tab.update_convs(3))
  qed
  moreover have "t_worktree t' = None \<and> t_membership t' = Following" if "expected_membership demo_left (?w None) demo_opened t'" for t'
    using that d unfolding expected_membership_def w t by simp
  ultimately show ?thesis using after by meson
qed

end
