(* ===== verification/Live.thy ===== *)
theory Live
  imports Upkeep
begin

text \<open>
  The live facts the core host publishes with the hierarchy (\<open>WorkspaceHost::inventory\<close>): observers, the
  Session of every Pane and who controls it. A Pane without a host still has an entry, so a close or
  a removal can confirm every Pane there is. \<open>places\<close> says where every Pane is.
\<close>

section \<open>Live facts\<close>

record live_pane =
  lp_device :: "Id option"
  lp_control_epoch :: u64
  lp_session :: Id

record dormant_pane =
  dp_device :: "Id option"
  dp_control_epoch :: u64

text \<open>What the host keeps of one Pane: its running Session, its control after a Session ended, the
  metadata of the Session (directory and repository directory) and, while its identity is known, the
  directory that identity confirmed.\<close>

record pane_host =
  ph_pane :: "live_pane option"
  ph_dormant :: "dormant_pane option"
  ph_metadata :: "(path \<times> path) option"
  ph_identity :: "path option option"

type_synonym hosts = "Id \<Rightarrow> pane_host option"

definition live_of :: "hosts \<Rightarrow> Id \<Rightarrow> live_pane option" where
  "live_of hosts pid = Option.bind (hosts pid) ph_pane"

definition u32_max :: nat where
  "u32_max = 4294967295"

definition shown_observers :: "hosts \<Rightarrow> (Id \<Rightarrow> Id list option) \<Rightarrow> client_names \<Rightarrow> pane \<Rightarrow> pane" where
  "shown_observers hosts observers names p =
     (let found = Option.bind (live_of hosts (p_id p)) (\<lambda>live. observers (lp_session live))
      in p\<lparr>p_observers := (case found of
             None \<Rightarrow> no_observers
           | Some clients \<Rightarrow>
               let shown = map (name_of names) (take MAX_OBSERVER_NAMES clients)
               in \<lparr>po_names = shown, po_others = min (length clients - length shown) u32_max\<rparr>)\<rparr>)"

definition confirmed_session :: "hosts \<Rightarrow> pane \<Rightarrow> confirmed_pane" where
  "confirmed_session hosts p =
     \<lparr>cp_id = p_id p, cp_session = map_option lp_session (live_of hosts (p_id p))\<rparr>"

definition pane_control :: "hosts \<Rightarrow> pane \<Rightarrow> confirmed_control option" where
  "pane_control hosts p =
     (let (owner, epoch, session) =
        (case live_of hosts (p_id p) of
           Some live \<Rightarrow> (lp_device live, lp_control_epoch live, Some (lp_session live))
         | None \<Rightarrow>
             (case Option.bind (hosts (p_id p)) ph_dormant of
                Some dormant \<Rightarrow> (dp_device dormant, dp_control_epoch dormant, None)
              | None \<Rightarrow> (p_creator p, 0, None)))
      in map_option (\<lambda>owner. \<lparr>cc_pane = p_id p, cc_session = session, cc_owner = owner, cc_epoch = epoch\<rparr>) owner)"

definition all_panes :: "inventory \<Rightarrow> pane list" where
  "all_panes iv = concat (map workspace_panes (inv_workspaces iv))"

definition live_inventory :: "Id \<Rightarrow> hosts \<Rightarrow> (Id \<Rightarrow> Id list option) \<Rightarrow> client_names \<Rightarrow> repositories \<Rightarrow> inventory \<Rightarrow> inventory" where
  "live_inventory boot hosts observers names snapshot iv =
     (let iv = iv\<lparr>inv_workspaces := map_panes (shown_observers hosts observers names) (inv_workspaces iv)\<rparr>
      in iv\<lparr>inv_repositories := Some snapshot,
            inv_close := Some \<lparr>ci_boot = boot, ci_sessions = map (confirmed_session hosts) (all_panes iv),
              ci_controls = List.map_filter (pane_control hosts) (all_panes iv)\<rparr>\<rparr>)"

lemmas live_run [run_simps] = live_of_def u32_max_def shown_observers_def confirmed_session_def pane_control_def
  all_panes_def live_inventory_def name_of_def workspace_panes_def

section \<open>Where a Pane is\<close>

definition places_in :: "workspace list \<Rightarrow> (Id \<times> Id \<times> Id) set" where
  "places_in ws = (\<Union>x\<in>set (map shape ws). \<Union>y\<in>set (snd x). (\<lambda>p. (fst x, hd y, p)) ` set (tl y))"

abbreviation places :: "state \<Rightarrow> (Id \<times> Id \<times> Id) set" where
  "places s \<equiv> places_in (workspaces s)"

lemma places_iff:
  "(w, t, p) \<in> places_in ws \<longleftrightarrow> (\<exists>v\<in>set ws. w = w_id v \<and> (\<exists>u\<in>set (w_tabs v). t = t_id u \<and> (\<exists>q\<in>set (t_panes u). p = p_id q)))"
  by (auto simp: places_in_def shape_def tab_ids_def)

lemma places_shape: "map shape ws' = map shape ws \<Longrightarrow> places_in ws' = places_in ws"
  by (simp add: places_in_def)

lemma shape_unnamed:
  assumes "map unnamed ws' = map unnamed ws"
  shows "map shape ws' = map shape ws"
proof -
  have "shape w = shape w'" if "unnamed w = unnamed w'" for w w' using unnamed_fields [OF that] by (simp add: shape_def)
  with assms show ?thesis by (rule map_unnamed_fields)
qed

lemma places_Nil [simp]: "places_in [] = {}"
  by (simp add: places_in_def)

lemma places_append [simp]: "places_in (ws @ vs) = places_in ws \<union> places_in vs"
  by (simp add: places_in_def)

lemma places_Cons: "places_in (w # ws) = places_in [w] \<union> places_in ws"
  by (simp add: places_in_def)

lemma places_unique:
  assumes "distinct (concat (map workspace_ids ws))" "(w, t, p) \<in> places_in ws"
  shows "(w', t', p) \<in> places_in ws \<Longrightarrow> w' = w \<and> t' = t" "(w', t, p') \<in> places_in ws \<Longrightarrow> w' = w" "t \<noteq> p"
proof -
  obtain v u q where v: "v \<in> set ws" "u \<in> set (w_tabs v)" "q \<in> set (t_panes u)" "w = w_id v" "t = t_id u" "p = p_id q"
    using assms(2) by (auto simp: places_iff)
  note one = distinct_concat_owner [OF assms(1) _ v(1)]
  have d: "distinct (concat (map tab_ids (w_tabs v)))"
    using distinct_concat_each [OF assms(1) v(1)] by (simp add: workspace_ids_def)
  note tab = distinct_concat_owner [OF d _ v(2)]
  have ids: "t \<in> set (workspace_ids v)" "p \<in> set (workspace_ids v)" "p \<in> set (tab_ids u)" "distinct (tab_ids u)"
    using v distinct_concat_each [OF d v(2)] by (auto simp: workspace_ids_def tab_ids_def)
  show "t \<noteq> p" using ids(4) v by (auto simp: tab_ids_def)
  show "w' = w" if "(w', t, p') \<in> places_in ws"
    using that one ids(1) v(4) by (auto simp: places_iff workspace_ids_def tab_ids_def)
  show "w' = w \<and> t' = t" if at: "(w', t', p) \<in> places_in ws"
  proof -
    obtain v' u' q' where v': "v' \<in> set ws" "u' \<in> set (w_tabs v')" "q' \<in> set (t_panes u')" "w' = w_id v'" "t' = t_id u'" "p = p_id q'"
      using at by (auto simp: places_iff)
    then have "v' = v" using one [of v' p] ids(2) by (auto simp: workspace_ids_def tab_ids_def)
    moreover have "u' = u" using tab [of u' p] ids(3) v' \<open>v' = v\<close> by (auto simp: tab_ids_def)
    ultimately show ?thesis using v v' by simp
  qed
qed

lemma places_known:
  assumes "\<forall>w\<in>set ws. intact w"
  shows "w \<in> set (map w_id ws) \<longleftrightarrow> (\<exists>t p. (w, t, p) \<in> places_in ws)"
    "v \<in> set ws \<Longrightarrow> u \<in> set (w_tabs v) \<Longrightarrow> \<exists>p. (w_id v, t_id u, p) \<in> places_in ws"
proof -
  show tab: "\<exists>p. (w_id v, t_id u, p) \<in> places_in ws" if "v \<in> set ws" "u \<in> set (w_tabs v)" for v u
  proof -
    have "t_panes u \<noteq> []" using assms that by (auto simp: intact_def wf_tab_def)
    then show ?thesis using that by (auto simp: places_iff) (metis list.set_intros(1) neq_Nil_conv)
  qed
  show "w \<in> set (map w_id ws) \<longleftrightarrow> (\<exists>t p. (w, t, p) \<in> places_in ws)"
  proof
    assume "w \<in> set (map w_id ws)"
    then obtain v where v: "v \<in> set ws" "w = w_id v" by auto
    then have "w_tabs v \<noteq> []" using assms by (simp add: intact_def)
    then show "\<exists>t p. (w, t, p) \<in> places_in ws" using tab [OF v(1), of "hd (w_tabs v)"] v(2) by auto
  qed (auto simp: places_iff)
qed

lemma without_pane_tabs:
  "map tab_ids (w_tabs (workspace_without_pane pid w)) =
     filter (\<lambda>x. tl x \<noteq> []) (map (\<lambda>x. hd x # filter (\<lambda>i. i \<noteq> pid) (tl x)) (map tab_ids (w_tabs w)))"
proof -
  have "map tab_ids (filter (\<lambda>t. t_panes t \<noteq> []) (map (tab_without_pane pid) ts)) =
    filter (\<lambda>x. tl x \<noteq> []) (map (\<lambda>x. hd x # filter (\<lambda>i. i \<noteq> pid) (tl x)) (map tab_ids ts))" for ts
    by (induction ts) (auto simp: tab_ids_def simp flip: tab_without_pane_simps(5))
  then show ?thesis by (simp add: workspace_without_pane_def promote_root_tab_facts(2))
qed

lemma places_without_pane: "places_in (workspaces_without_pane pid ws) = {x \<in> places_in ws. snd (snd x) \<noteq> pid}"
proof (induction ws)
  case (Cons w ws)
  have wid: "w_id (workspace_without_pane pid w) = w_id w" by (simp add: workspace_without_pane_def)
  have "(\<Union>y\<in>set (filter (\<lambda>x. tl x \<noteq> []) (map (\<lambda>x. hd x # filter (\<lambda>i. i \<noteq> pid) (tl x)) ts)). (\<lambda>p. (w_id w, hd y, p)) ` set (tl y)) =
    {x \<in> (\<Union>y\<in>set ts. (\<lambda>p. (w_id w, hd y, p)) ` set (tl y)). snd (snd x) \<noteq> pid}" for ts
    by (induction ts) (auto simp: filter_empty_conv)
  then have "places_in [workspace_without_pane pid w] = {x \<in> places_in [w]. snd (snd x) \<noteq> pid}"
    by (simp only: places_in_def shape_def without_pane_tabs wid list.map list.set fst_conv snd_conv UN_insert UN_empty Un_empty_right)
  moreover have "places_in [v] = {}" if "w_tabs v = []" for v using that by (simp add: places_in_def shape_def)
  ultimately have "places_in (workspaces_without_pane pid [w]) = {x \<in> places_in [w]. snd (snd x) \<noteq> pid}"
    by (auto simp: workspaces_without_pane_def)
  moreover have "workspaces_without_pane pid (w # ws) = workspaces_without_pane pid [w] @ workspaces_without_pane pid ws"
    by (simp add: workspaces_without_pane_def)
  ultimately show ?case using Cons by (auto simp: places_Cons [of w ws])
qed (simp add: workspaces_without_pane_def)

lemma remove_pane_places: "places (remove_pane pid s) = {x \<in> places s. snd (snd x) \<noteq> pid}"
  using places_shape [OF shape_unnamed [OF recalculate_names_keeps(1)]]
  by (simp add: remove_pane_alt places_without_pane)

lemma remove_panes_places: "places (fold remove_pane ids s) = {x \<in> places s. snd (snd x) \<notin> set ids}"
  by (induction ids arbitrary: s) (auto simp: remove_pane_places)

lemma add_worktree_tab_places:
  assumes "add_worktree_tab rnd by w root path start s = (Inr i, s')"
  shows "\<exists>p. rnd 0 = Some i \<and> rnd 1 = Some p \<and> places s' = insert (w, i, p) (places s)"
proof -
  let ?t = "\<lambda>i p. \<lparr>t_membership = Opened, t_worktree = Some path, t_worktree_repository = Some root, t_id = i,
    t_root_pane = p, t_panes = [new_pane p None SideRight start by]\<rparr>"
  obtain v p r where v: "find_workspace (st_inventory s) w = Some v" and ids: "rnd 0 = Some i" "rnd 1 = Some p"
    and s': "s' = set_revision r (put_workspace w (\<lambda>w. w\<lparr>w_tabs := w_tabs w @ [?t i p]\<rparr>) s)"
    using assms by (auto simp: add_worktree_tab_def Let_def split: if_splits option.splits)
  obtain ys zs where ws: "workspaces s = ys @ v # zs"
    "put_workspace w (\<lambda>w. w\<lparr>w_tabs := w_tabs w @ [?t i p]\<rparr>) s = set_workspaces (ys @ v\<lparr>w_tabs := w_tabs v @ [?t i p]\<rparr> # zs) s"
    using v by (rule put_workspace_split) blast
  have "w_id v = w" using v by (auto simp: find_workspace_def find_Some_iff)
  then have "places_in [v\<lparr>w_tabs := w_tabs v @ [?t i p]\<rparr>] = insert (w, i, p) (places_in [v])"
    by (auto simp: places_in_def shape_def tab_ids_def new_pane_def)
  then have "places s' = insert (w, i, p) (places s)"
    using places_Cons [of v zs] places_Cons [of "v\<lparr>w_tabs := w_tabs v @ [?t i p]\<rparr>" zs] by (auto simp: s' ws)
  then show ?thesis using ids by blast
qed

section \<open>Publishing keeps the invariant\<close>

definition published :: "Id \<Rightarrow> hosts \<Rightarrow> (Id \<Rightarrow> Id list option) \<Rightarrow> client_names \<Rightarrow> repositories \<Rightarrow> state \<Rightarrow> state" where
  "published boot hosts observers names snapshot s =
     s\<lparr>st_inventory := live_inventory boot hosts observers names snapshot (st_inventory s)\<rparr>"

lemma published_simps [simp]:
  "workspaces (published boot hosts observers names snapshot s) = map_panes (shown_observers hosts observers names) (workspaces s)"
  "frame (published boot hosts observers names snapshot s) = frame s"
  "st_names (published boot hosts observers names snapshot s) = st_names s"
  "st_home_directory (published boot hosts observers names snapshot s) = st_home_directory s"
  "st_session_ends (published boot hosts observers names snapshot s) = st_session_ends s"
  "st_creator_boot (published boot hosts observers names snapshot s) = st_creator_boot s"
  "st_devices (published boot hosts observers names snapshot s) = st_devices s"
  by (simp_all add: published_def live_inventory_def frame_def Let_def)

lemma published_close:
  "inv_close (st_inventory (published boot hosts observers names snapshot s)) =
     Some \<lparr>ci_boot = boot, ci_sessions = map (confirmed_session hosts)
         (concat (map workspace_panes (map_panes (shown_observers hosts observers names) (workspaces s)))),
       ci_controls = List.map_filter (pane_control hosts)
         (concat (map workspace_panes (map_panes (shown_observers hosts observers names) (workspaces s))))\<rparr>"
  by (simp add: published_def live_inventory_def all_panes_def Let_def)

lemma keeps_pane_observers: "keeps_pane (shown_observers hosts observers names)"
proof -
  have id: "p_id (shown_observers hosts observers names p) = p_id p" "p_source (shown_observers hosts observers names p) = p_source p" for p
    by (simp_all add: shown_observers_def Let_def)
  have "pane_ok (shown_observers hosts observers names p)" if "pane_ok p" for p
    using that by (auto simp: shown_observers_def pane_ok_def no_observers_def Let_def MAX_OBSERVER_NAMES_def split: option.split)
  then show ?thesis using id by (simp add: keeps_pane_def)
qed

lemma shown_observers_id [simp]: "p_id (shown_observers hosts observers names p) = p_id p"
  by (simp add: shown_observers_def Let_def)

lemma published_sound:
  assumes "sound s"
  shows "sound (published boot hosts observers names snapshot s)"
proof (rule sound_frame [OF assms])
  have "structure_ok (set_workspaces (map_panes (shown_observers hosts observers names) (workspaces s)) s)"
    using assms by (intro map_panes_structure keeps_pane_observers) (simp add: sound_split)
  then show "structure_ok (published boot hosts observers names snapshot s)"
    by (subst structure_cong(1)) simp_all
qed simp_all

lemma shape_map_panes:
  assumes "\<And>p. p_id (f p) = p_id p"
  shows "map shape (map_panes f ws) = map shape ws"
  using assms by (simp add: map_panes_def shape_def tab_ids_def comp_def)

lemma places_shown [simp]: "places_in (map_panes (shown_observers hosts observers names) ws) = places_in ws"
  using places_shape [OF shape_map_panes [of "shown_observers hosts observers names" ws]] by simp

text \<open>A Session's identity is never zero: it is drawn like every other.\<close>

definition sessions_named :: "hosts \<Rightarrow> bool" where
  "sessions_named hosts \<longleftrightarrow> (\<forall>pid live. live_of hosts pid = Some live \<longrightarrow> lp_session live \<noteq> 0)"

lemma pane_ids_subset: "mset (map p_id (hierarchy_panes s)) \<subseteq># mset (concat (map workspace_ids (workspaces s)))"
proof -
  have tabs: "mset (map p_id (concat (map t_panes ts))) \<subseteq># mset (concat (map tab_ids ts))" for ts
    by (induction ts) (auto simp: tab_ids_def elim!: subset_mset.order_trans)
  have "mset (map p_id (workspace_panes w)) \<subseteq># mset (workspace_ids w)" for w
    using subset_mset.order_trans [OF tabs [of "w_tabs w"], of "mset (workspace_ids w)"]
    by (simp add: workspace_panes_def workspace_ids_def)
  then have "mset (map p_id (concat (map workspace_panes ws))) \<subseteq># mset (concat (map workspace_ids ws))" for ws
    by (induction ws) (simp_all add: subset_mset.add_mono)
  then show ?thesis by (simp add: hierarchy_panes_def)
qed

lemma pane_ids_distinct:
  assumes "sound s"
  shows "distinct (map p_id (hierarchy_panes s))" "0 \<notin> set (map p_id (hierarchy_panes s))"
proof -
  have ids: "distinct (concat (map workspace_ids (workspaces s)))" "0 \<notin> set (concat (map workspace_ids (workspaces s)))"
    using assms unfolding sound_split structure_ok_def hierarchy_ok_def by blast+
  show "distinct (map p_id (hierarchy_panes s))" by (rule distinct_submset [OF pane_ids_subset ids(1)])
  have "set (map p_id (hierarchy_panes s)) \<subseteq> set (concat (map workspace_ids (workspaces s)))"
    using set_mset_mono [OF pane_ids_subset [of s]] by (simp only: set_mset_mset)
  then show "0 \<notin> set (map p_id (hierarchy_panes s))" using ids(2) by (rule contra_subsetD)
qed

lemma published_live_ok:
  assumes "sound s" "sessions_named hosts" "st_creator_boot s = Some boot"
  shows "live_close_ok (published boot hosts observers names snapshot s)"
proof -
  let ?ps = "concat (map workspace_panes (map_panes (shown_observers hosts observers names) (workspaces s)))"
  have ids: "map p_id ?ps = map p_id (hierarchy_panes s)"
    by (simp add: map_panes_def hierarchy_panes_def workspace_panes_def map_concat comp_def)
  have "distinct (map p_id ?ps)" "0 \<notin> set (map p_id ?ps)" unfolding ids by (rule pane_ids_distinct [OF assms(1)])+
  then show ?thesis
    using assms(2,3) by (force simp: live_close_ok_def published_close confirmed_session_def comp_def sessions_named_def)
qed

end
