(* ===== verification/Removal.thy ===== *)
theory Removal
  imports Reconcile Live
begin

text \<open>
  Removing a Worktree (\<open>worktree.rs\<close>, \<open>worktrees/preparing.rs\<close>): the Tabs a removal affects, the review a
  person confirmed, and the plan the server applies once git may start. The plan is refused when
  anything it was prepared from changed; otherwise it closes exactly the reviewed Panes and no
  Workspace ends with it.
\<close>

section \<open>The review\<close>

record affected_tab =
  at_workspace :: Id
  at_tab :: Id
  at_panes :: "confirmed_pane list"

record removal =
  rm_boot :: Id
  rm_confirmation :: Id
  rm_root :: path
  rm_path :: path
  rm_changes :: bool
  rm_submodules :: bool
  rm_tabs :: "affected_tab list"

text \<open>The sessions of a Tab's Panes, in Pane order, as far as they are published.\<close>

definition reviewed_panes :: "inventory \<Rightarrow> tab \<Rightarrow> confirmed_pane list" where
  "reviewed_panes iv t = List.map_filter (\<lambda>p. Option.bind (inv_close iv)
     (\<lambda>live. List.find (\<lambda>s. cp_id s = p_id p) (ci_sessions live))) (t_panes t)"

definition is_affected :: "path \<Rightarrow> path \<Rightarrow> (path \<Rightarrow> bool) \<Rightarrow> tab \<Rightarrow> bool" where
  "is_affected root path contains t \<longleftrightarrow>
     (opt_path_eq (t_worktree t) (Some path) \<and>
      (case t_worktree_repository t of None \<Rightarrow> True | Some r \<Rightarrow> path_eq r root)) \<or>
     list_ex (\<lambda>p. contains (restored_directory p)) (t_panes t)"

definition affected_worktree_tabs_in :: "path \<Rightarrow> path \<Rightarrow> (path \<Rightarrow> bool) \<Rightarrow> inventory \<Rightarrow> affected_tab list" where
  "affected_worktree_tabs_in root path contains iv =
     concat (map (\<lambda>w. map (\<lambda>t. \<lparr>at_workspace = w_id w, at_tab = t_id t, at_panes = reviewed_panes iv t\<rparr>)
         (filter (is_affected root path contains) (w_tabs w))) (inv_workspaces iv))"

text \<open>\<open>Path::starts_with\<close>: by whole components.\<close>

definition path_starts_with :: "path \<Rightarrow> path \<Rightarrow> bool" where
  "path_starts_with p base \<longleftrightarrow> take (length (components base)) (components p) = components base"

definition affected_worktree_tabs :: "path \<Rightarrow> path \<Rightarrow> inventory \<Rightarrow> affected_tab list" where
  "affected_worktree_tabs root path iv = affected_worktree_tabs_in root path (\<lambda>d. path_starts_with d path) iv"

definition matches_inventory :: "removal \<Rightarrow> inventory \<Rightarrow> bool" where
  "matches_inventory r iv \<longleftrightarrow>
     (case inv_close iv of None \<Rightarrow> False | Some live \<Rightarrow> ci_boot live = rm_boot r) \<and>
     \<not> list_ex (\<lambda>reviewed.
         (case Option.bind (find_workspace iv (at_workspace reviewed)) (\<lambda>w. find_tab w (at_tab reviewed)) of
            None \<Rightarrow> True | Some t \<Rightarrow> reviewed_panes iv t \<noteq> at_panes reviewed)) (rm_tabs r) \<and>
     list_all (\<lambda>t. t \<in> set (rm_tabs r)) (affected_worktree_tabs (rm_root r) (rm_path r) iv)"

section \<open>The plan\<close>

record removal_plan =
  rp_review :: removal
  rp_fallback :: path
  rp_sources :: "(Id \<times> path) list"
  rp_pins :: "(Id \<times> path) list"
  rp_contained :: "path list"

definition sources :: "inventory \<Rightarrow> (Id \<times> path) list" where
  "sources iv = concat (map (\<lambda>w. map (\<lambda>p. (p_id p, repository_directory p)) (workspace_panes w)) (inv_workspaces iv))"

definition pins :: "inventory \<Rightarrow> (Id \<times> path) list" where
  "pins iv = List.map_filter (\<lambda>w. map_option (Pair (w_id w)) (w_pinned_directory w)) (inv_workspaces iv)"

definition same_pair :: "Id \<times> path \<Rightarrow> Id \<times> path \<Rightarrow> bool" where
  "same_pair a b \<longleftrightarrow> fst a = fst b \<and> path_eq (snd a) (snd b)"

text \<open>Anything the plan was prepared from that is different now.\<close>

definition plan_changed :: "removal_plan \<Rightarrow> inventory \<Rightarrow> bool" where
  "plan_changed plan current \<longleftrightarrow>
     list_ex (\<lambda>x. \<not> list_ex (same_pair x) (rp_sources plan)) (sources current) \<or>
     \<not> list_all2 same_pair (pins current) (rp_pins plan) \<or>
     (case inv_close current of None \<Rightarrow> True | Some live \<Rightarrow> ci_boot live \<noteq> rm_boot (rp_review plan)) \<or>
     affected_worktree_tabs_in (rm_root (rp_review plan)) (rm_path (rp_review plan))
       (\<lambda>d. path_starts_with d (rm_path (rp_review plan)) \<or> list_ex (\<lambda>p. path_eq p d) (rp_contained plan)) current
     \<noteq> rm_tabs (rp_review plan)"

text \<open>One affected Tab: a Workspace that would lose its last Tab gains one in the fallback Worktree
  first.\<close>

definition close_affected :: "(nat \<Rightarrow> Id option) \<Rightarrow> Id \<Rightarrow> removal_plan \<Rightarrow> affected_tab \<Rightarrow> state \<Rightarrow> (worktree_error + unit) \<times> state" where
  "close_affected rnd device plan affected next =
     (case find_workspace (st_inventory next) (at_workspace affected) of
        None \<Rightarrow> (Inl Changed, next)
      | Some w \<Rightarrow>
          let kept = (if list_all (\<lambda>t. list_ex (\<lambda>a. at_tab a = t_id t) (rm_tabs (rp_review plan))) (w_tabs w)
                      then add_worktree_tab rnd (Some device) (w_id w) (rm_root (rp_review plan)) (rp_fallback plan)
                             (rp_fallback plan) next
                      else (Inr (w_id w), next))
          in case kept of
            (Inl _, next) \<Rightarrow> (Inl WorktreeUnavailable, next)
          | (Inr _, next) \<Rightarrow> (Inr (), fold (\<lambda>p. remove_pane (cp_id p)) (at_panes affected) next))"

fun close_all_affected :: "(nat \<Rightarrow> nat \<Rightarrow> Id option) \<Rightarrow> nat \<Rightarrow> Id \<Rightarrow> removal_plan \<Rightarrow> affected_tab list \<Rightarrow> state \<Rightarrow>
    (worktree_error + unit) \<times> state" where
  "close_all_affected rnd k device plan [] next = (Inr (), next)"
| "close_all_affected rnd k device plan (a # as) next =
     (case close_affected (rnd k) device plan a next of
        (Inl e, next) \<Rightarrow> (Inl e, next)
      | (Inr _, next) \<Rightarrow> close_all_affected rnd (Suc k) device plan as next)"

definition apply_plan :: "(nat \<Rightarrow> nat \<Rightarrow> Id option) \<Rightarrow> Id \<Rightarrow> inventory \<Rightarrow> removal_plan \<Rightarrow> state \<Rightarrow> (worktree_error + unit) \<times> state" where
  "apply_plan rnd device current plan next =
     (if plan_changed plan current then (Inl Changed, next)
      else close_all_affected rnd 0 device plan (rm_tabs (rp_review plan)) next)"

lemmas removal_run [run_simps] = reviewed_panes_def is_affected_def affected_worktree_tabs_in_def path_starts_with_def
  affected_worktree_tabs_def matches_inventory_def sources_def pins_def same_pair_def plan_changed_def
  close_affected_def apply_plan_def

section \<open>Applying a plan\<close>

definition reviewed_tabs :: "removal_plan \<Rightarrow> Id set" where
  "reviewed_tabs plan = at_tab ` set (rm_tabs (rp_review plan))"

definition affected_panes :: "affected_tab \<Rightarrow> Id set" where
  "affected_panes a = cp_id ` set (at_panes a)"

definition plan_panes :: "removal_plan \<Rightarrow> Id set" where
  "plan_panes plan = (\<Union>a\<in>set (rm_tabs (rp_review plan)). affected_panes a)"

lemma removals_sound: "sound s \<Longrightarrow> sound (fold (\<lambda>p. remove_pane (cp_id p)) ps s)"
  by (induction ps arbitrary: s) (simp_all add: remove_pane_sound)

lemma removals_places: "places (fold (\<lambda>p. remove_pane (cp_id p)) ps s) = {x \<in> places s. snd (snd x) \<notin> cp_id ` set ps}"
  by (induction ps arbitrary: s) (auto simp: remove_pane_places)

lemma sound_intact: "sound s \<Longrightarrow> \<forall>w\<in>set (workspaces s). intact w"
  by (simp add: sound_split structure_ok_def hierarchy_ok_def)

lemma sound_distinct: "sound s \<Longrightarrow> distinct (concat (map workspace_ids (workspaces s)))"
  by (simp add: sound_split structure_ok_def hierarchy_ok_def)

lemma close_affected_step:
  assumes "sound n" "fresh_ids rnd n" "valid_path (rm_root (rp_review plan))" "valid_path (rp_fallback plan)"
    and "close_affected rnd device plan a n = (Inr (), n')"
  obtains (stays) t p where "sound n'" "places n' = {x \<in> places n. snd (snd x) \<notin> affected_panes a}"
      "(at_workspace a, t, p) \<in> places n" "t \<notin> reviewed_tabs plan"
    | (fallback) i p where "sound n'" "rnd 0 = Some i" "rnd 1 = Some p"
      "places n' = {x \<in> insert (at_workspace a, i, p) (places n). snd (snd x) \<notin> affected_panes a}"
      "\<forall>t p. (at_workspace a, t, p) \<in> places n \<longrightarrow> t \<in> reviewed_tabs plan" "at_workspace a \<in> fst ` places n"
proof -
  obtain w where w: "find_workspace (st_inventory n) (at_workspace a) = Some w"
    using assms(5) by (auto simp: close_affected_def split: option.splits)
  then have v: "w \<in> set (workspaces n)" "w_id w = at_workspace a"
    by (auto simp: find_workspace_def find_Some_iff)
  then have known: "at_workspace a \<in> fst ` places n"
    using places_known(1) [OF sound_intact [OF assms(1)], of "at_workspace a"] by force
  let ?all = "list_all (\<lambda>t. list_ex (\<lambda>a. at_tab a = t_id t) (rm_tabs (rp_review plan))) (w_tabs w)"
  have all: "?all \<longleftrightarrow> (\<forall>t\<in>set (w_tabs w). t_id t \<in> reviewed_tabs plan)"
    by (auto simp: list_all_iff list_ex_iff reviewed_tabs_def image_iff eq_commute)
  show thesis
  proof (cases ?all)
    case True
    then obtain i n1 where a: "add_worktree_tab rnd (Some device) (w_id w) (rm_root (rp_review plan)) (rp_fallback plan) (rp_fallback plan) n = (Inr i, n1)"
      "n' = fold (\<lambda>p. remove_pane (cp_id p)) (at_panes a) n1"
      using assms(5) w by (auto simp: close_affected_def split: sum.splits prod.splits)
    obtain p where p: "rnd 0 = Some i" "rnd 1 = Some p" "places n1 = insert (w_id w, i, p) (places n)"
      using add_worktree_tab_places [OF a(1)] by auto
    have "sound n1" using add_worktree_tab_sound [OF assms(1,2,3,4,4) a(1)] .
    moreover have "t \<in> reviewed_tabs plan" if at: "(at_workspace a, t, q) \<in> places n" for t q
    proof -
      obtain x u where "x \<in> set (workspaces n)" "w_id x = w_id w" "u \<in> set (w_tabs x)" "t = t_id u"
        using at v by (auto simp: places_iff)
      moreover have "x = w"
        using calculation v distinct_w_ids [OF sound_distinct [OF assms(1)]] by (auto simp: distinct_map inj_on_def)
      ultimately show ?thesis using True all by simp
    qed
    ultimately show thesis
      using p v known removals_sound [of n1] removals_places [of "at_panes a" n1]
      by (intro fallback [of i p]) (auto simp: a(2) affected_panes_def)
  next
    case False
    then have n': "n' = fold (\<lambda>p. remove_pane (cp_id p)) (at_panes a) n"
      using assms(5) w by (auto simp: close_affected_def)
    obtain u where u: "u \<in> set (w_tabs w)" "t_id u \<notin> reviewed_tabs plan" using False all by blast
    obtain p where "(w_id w, t_id u, p) \<in> places n" using places_known(2) [OF sound_intact [OF assms(1)] v(1) u(1)] by blast
    then show thesis
      using u v removals_sound [OF assms(1)] removals_places [of "at_panes a" n]
      by (intro stays [of "t_id u" p]) (auto simp: n' affected_panes_def)
  qed
qed

text \<open>The draws of a plan: identities no draw and no part of the hierarchy shares.\<close>

definition draws_fresh :: "(nat \<Rightarrow> nat \<Rightarrow> Id option) \<Rightarrow> state \<Rightarrow> bool" where
  "draws_fresh rnd s \<longleftrightarrow> (\<forall>k j i. rnd k j = Some i \<longrightarrow> i \<noteq> 0 \<and> i \<notin> set (state_ids s) \<and>
     (\<forall>k' j'. rnd k' j' = Some i \<longrightarrow> k' = k \<and> j' = j))"

lemma draws_freshD:
  assumes "draws_fresh rnd s" "rnd k j = Some i"
  shows "i \<noteq> 0" "i \<notin> set (state_ids s)" "rnd k' j' = Some i \<Longrightarrow> k' = k \<and> j' = j"
  using assms unfolding draws_fresh_def by blast+

lemma places_ids:
  assumes "(w, t, p) \<in> places s"
  shows "w \<in> set (state_ids s)" "t \<in> set (state_ids s)" "p \<in> set (state_ids s)"
  using assms by (auto simp: places_iff state_ids_def workspace_ids_def tab_ids_def)

lemma state_ids_places:
  assumes "sound s"
    and "i \<in> set (state_ids s)"
  shows "\<exists>w t p. (w, t, p) \<in> places s \<and> i \<in> {w, t, p}"
proof -
  obtain v where v: "v \<in> set (workspaces s)" "i \<in> set (workspace_ids v)"
    using assms(2) by (auto simp: state_ids_def)
  note known = places_known [OF sound_intact [OF assms(1)]]
  from v(2) consider "i = w_id v" | u where "u \<in> set (w_tabs v)" "i = t_id u"
    | u q where "u \<in> set (w_tabs v)" "q \<in> set (t_panes u)" "i = p_id q"
    by (auto simp: workspace_ids_def tab_ids_def)
  then show "\<exists>w t p. (w, t, p) \<in> places s \<and> i \<in> {w, t, p}"
  proof cases
    case 1
    then have "i \<in> set (map w_id (workspaces s))" using v(1) by simp
    then show ?thesis unfolding known(1) by blast
  next
    case 2
    then show ?thesis using known(2) [OF v(1)] by blast
  next
    case 3
    then have "(w_id v, t_id u, i) \<in> places s" using v(1) unfolding places_iff by blast
    then show ?thesis by blast
  qed
qed

text \<open>How far a plan is: the Panes of \<open>gone\<close> are closed, everything else of \<open>s\<close> is where it was, and a
  Workspace that lost all its Tabs has a new one.\<close>

definition progress_to :: "(nat \<Rightarrow> nat \<Rightarrow> Id option) \<Rightarrow> removal_plan \<Rightarrow> state \<Rightarrow> nat \<Rightarrow> Id set \<Rightarrow> state \<Rightarrow> bool" where
  "progress_to rnd plan s k gone n \<longleftrightarrow> sound n \<and>
     places n \<inter> places s = {x \<in> places s. snd (snd x) \<notin> gone} \<and> fst ` places n = fst ` places s \<and>
     (\<forall>(w, t, p) \<in> places n - places s. (\<exists>j<k. rnd j 0 = Some t \<and> rnd j 1 = Some p) \<and>
        (\<forall>t' p'. (w, t', p') \<in> places s \<longrightarrow> t' \<in> reviewed_tabs plan))"

lemma progress_facts:
  assumes "progress_to rnd plan s k gone n"
  shows "sound n" "places n \<inter> places s = {x \<in> places s. snd (snd x) \<notin> gone}" "fst ` places n = fst ` places s"
  using assms unfolding progress_to_def by blast+

lemma progress_new:
  assumes "progress_to rnd plan s k gone n" "(w, t, p) \<in> places n" "(w, t, p) \<notin> places s"
  shows "\<exists>j<k. rnd j 0 = Some t \<and> rnd j 1 = Some p" "(w, t', p') \<in> places s \<Longrightarrow> t' \<in> reviewed_tabs plan"
proof -
  have "\<forall>x \<in> places n - places s. case x of (w, t, p) \<Rightarrow> (\<exists>j<k. rnd j 0 = Some t \<and> rnd j 1 = Some p) \<and>
        (\<forall>t' p'. (w, t', p') \<in> places s \<longrightarrow> t' \<in> reviewed_tabs plan)"
    using assms(1) unfolding progress_to_def by blast
  from bspec [OF this, of "(w, t, p)"]
  show "\<exists>j<k. rnd j 0 = Some t \<and> rnd j 1 = Some p" "(w, t', p') \<in> places s \<Longrightarrow> t' \<in> reviewed_tabs plan"
    using assms(2,3) by auto
qed

lemma progress_fresh:
  assumes "sound s" "draws_fresh rnd s" "progress_to rnd plan s k gone n"
  shows "fresh_ids (rnd k) n"
proof -
  have "i \<notin> set (state_ids n)" if i: "rnd k j = Some i" for j i
  proof
    assume "i \<in> set (state_ids n)"
    from state_ids_places [OF progress_facts(1) [OF assms(3)] this]
    obtain w t p where x: "(w, t, p) \<in> places n" "i \<in> {w, t, p}" by blast
    have fresh: "i \<notin> set (state_ids s)" using draws_freshD(2) [OF assms(2) i] .
    then have "(w, t, p) \<notin> places s" using x(2) places_ids [of w t p s] by auto
    moreover have "w \<in> fst ` places s" using imageI [OF x(1), of fst] progress_facts(3) [OF assms(3)] by simp
    then have "i \<noteq> w" using fresh places_ids(1) [of w _ _ s] by auto
    ultimately obtain m where "m < k" "rnd m 0 = Some i \<or> rnd m 1 = Some i"
      using progress_new(1) [OF assms(3) x(1)] x(2) by blast
    then show False using draws_freshD(3) [OF assms(2) i] by blast
  qed
  then show ?thesis
    using draws_freshD [OF assms(2), of k] unfolding fresh_ids_def by (auto split: option.split)
qed

lemma progress_step:
  assumes "sound s" "draws_fresh rnd s" "valid_path (rm_root (rp_review plan))" "valid_path (rp_fallback plan)"
    and a: "at_tab a \<in> reviewed_tabs plan" "\<And>p. p \<in> affected_panes a \<longleftrightarrow> (at_workspace a, at_tab a, p) \<in> places s"
    and n: "progress_to rnd plan s k gone n"
    and gone: "\<And>w t p. (w, t, p) \<in> places s \<Longrightarrow> p \<in> gone \<Longrightarrow> t \<in> reviewed_tabs plan"
    and step: "close_affected (rnd k) device plan a n = (Inr (), n')"
  shows "progress_to rnd plan s (Suc k) (gone \<union> affected_panes a) n'"
proof -
  note sn = progress_facts(1) [OF n]
  note unique = places_unique [OF sound_distinct [OF assms(1)]]
  have lost: "w = at_workspace a \<and> t = at_tab a" if at: "(w, t, p) \<in> places n" "p \<in> affected_panes a" for w t p
  proof (cases "(w, t, p) \<in> places s")
    case True
    then show ?thesis using unique(1) at(2) a(2) by blast
  next
    case False
    then obtain j where "rnd j 1 = Some p" using progress_new(1) [OF n at(1)] by blast
    moreover have "p \<in> set (state_ids s)" using at(2) a(2) places_ids(3) by blast
    ultimately show ?thesis using draws_freshD(2) [OF assms(2)] by blast
  qed
  have old: "{x \<in> places n. snd (snd x) \<notin> affected_panes a} \<inter> places s = {x \<in> places s. snd (snd x) \<notin> gone \<union> affected_panes a}"
    using progress_facts(2) [OF n] by blast
  have keep: "fst ` N = fst ` places s"
    if N: "{x \<in> places n. snd (snd x) \<notin> affected_panes a} \<subseteq> N" "fst ` N \<subseteq> fst ` places n" "at_workspace a \<in> fst ` N" for N
  proof -
    have "w \<in> fst ` N" if w: "(w, t, p) \<in> places n" for w t p
    proof (cases "w = at_workspace a")
      case False
      then have "(w, t, p) \<in> N" using lost w N(1) by auto
      then show ?thesis by (force simp: image_iff)
    qed (use N(3) in simp)
    then have "fst ` places n \<subseteq> fst ` N" by auto
    then show ?thesis using N(2) progress_facts(3) [OF n] by simp
  qed
  have new: "(\<exists>j<Suc k. rnd j 0 = Some t \<and> rnd j 1 = Some p) \<and> (\<forall>t' p'. (w, t', p') \<in> places s \<longrightarrow> t' \<in> reviewed_tabs plan)"
    if "(w, t, p) \<in> places n" "(w, t, p) \<notin> places s" for w t p
    using progress_new [OF n that] less_SucI by blast
  from sn progress_fresh [OF assms(1,2) n] assms(3,4) step show ?thesis
  proof (cases rule: close_affected_step)
    case (stays t p)
    have "p \<notin> affected_panes a" using lost [OF stays(3)] stays(4) a(1) by auto
    then have "at_workspace a \<in> fst ` places n'" using stays(2,3) by force
    then have "fst ` places n' = fst ` places s" using stays(2) by (intro keep) auto
    moreover have "\<forall>(w, t, p) \<in> places n' - places s. (\<exists>j<Suc k. rnd j 0 = Some t \<and> rnd j 1 = Some p) \<and>
        (\<forall>t' p'. (w, t', p') \<in> places s \<longrightarrow> t' \<in> reviewed_tabs plan)"
      using new stays(2) by blast
    ultimately show ?thesis using stays(1,2) old unfolding progress_to_def by simp
  next
    case (fallback i p)
    have ni: "i \<notin> set (state_ids s)" "p \<notin> set (state_ids s)" using draws_freshD(2) [OF assms(2)] fallback(2,3) by blast+
    then have out: "(at_workspace a, i, p) \<notin> places s" "p \<notin> affected_panes a"
      using places_ids [of "at_workspace a" _ p s] a(2) by auto
    then have "at_workspace a \<in> fst ` places n'" using fallback(4) by force
    moreover have "fst ` places n' \<subseteq> fst ` insert (at_workspace a, i, p) (places n)"
      unfolding fallback(4) by (rule image_mono) blast
    then have "fst ` places n' \<subseteq> fst ` places n" using fallback(6) by (simp only: image_insert fst_conv insert_absorb)
    ultimately have "fst ` places n' = fst ` places s" using fallback(4) by (intro keep) blast+
    moreover have "places n' \<inter> places s = {x \<in> places s. snd (snd x) \<notin> gone \<union> affected_panes a}"
      unfolding fallback(4) old [symmetric] using out(1) by blast
    moreover have needed: "t' \<in> reviewed_tabs plan" if "(at_workspace a, t', p') \<in> places s" for t' p'
    proof (cases "(at_workspace a, t', p') \<in> places n")
      case False
      then have "p' \<in> gone" using progress_facts(2) [OF n] that by force
      then show ?thesis using gone that by blast
    qed (use fallback(5) in blast)
    moreover have "(\<exists>j<Suc k. rnd j 0 = Some t \<and> rnd j 1 = Some q) \<and> (\<forall>t' p'. (w, t', p') \<in> places s \<longrightarrow> t' \<in> reviewed_tabs plan)"
      if x: "(w, t, q) \<in> places n'" "(w, t, q) \<notin> places s" for w t q
    proof (cases "(w, t, q) \<in> places n")
      case False
      then have "w = at_workspace a \<and> t = i \<and> q = p" using x(1) fallback(4) by simp
      then show ?thesis using needed fallback(2,3) by blast
    qed (use new x(2) in blast)
    ultimately show ?thesis using fallback(1) unfolding progress_to_def by blast
  qed
qed

lemma progress_all:
  assumes "sound s" "draws_fresh rnd s" "valid_path (rm_root (rp_review plan))" "valid_path (rp_fallback plan)"
    and as: "\<forall>a\<in>set as. at_tab a \<in> reviewed_tabs plan \<and> (\<forall>p. p \<in> affected_panes a \<longleftrightarrow> (at_workspace a, at_tab a, p) \<in> places s)"
    and n: "progress_to rnd plan s k gone n" "\<forall>(w, t, p) \<in> places s. p \<in> gone \<longrightarrow> t \<in> reviewed_tabs plan"
    and "close_all_affected rnd k device plan as n = (Inr (), n')"
  shows "\<exists>k'. progress_to rnd plan s k' (gone \<union> (\<Union>a\<in>set as. affected_panes a)) n'"
  using as n assms(8)
proof (induction as arbitrary: k gone n)
  case (Cons a as)
  obtain n1 where n1: "close_affected (rnd k) device plan a n = (Inr (), n1)" "close_all_affected rnd (Suc k) device plan as n1 = (Inr (), n')"
    using Cons.prems(4) by (auto split: sum.splits prod.splits)
  have a: "at_tab a \<in> reviewed_tabs plan" "p \<in> affected_panes a \<longleftrightarrow> (at_workspace a, at_tab a, p) \<in> places s" for p
    using Cons.prems(1) by auto
  have gone: "t \<in> reviewed_tabs plan" if "(w, t, p) \<in> places s" "p \<in> gone" for w t p using Cons.prems(3) that by blast
  have "progress_to rnd plan s (Suc k) (gone \<union> affected_panes a) n1"
    by (rule progress_step [OF assms(1-4) a Cons.prems(2) gone n1(1)])
  moreover have "t \<in> reviewed_tabs plan" if "(w, t, p) \<in> places s" "p \<in> affected_panes a" for w t p
    using places_unique(1) [OF sound_distinct [OF assms(1)] that(1)] that(2) a by blast
  then have "\<forall>(w, t, p) \<in> places s. p \<in> gone \<union> affected_panes a \<longrightarrow> t \<in> reviewed_tabs plan" using gone by blast
  ultimately show ?case using Cons.IH [of "Suc k" "gone \<union> affected_panes a" n1] Cons.prems(1) n1(2) by (simp add: Un_assoc)
qed auto

section \<open>The review covers every Pane\<close>

lemma reviewed_panes_published:
  assumes "sound s" "w \<in> set (workspaces (published boot hosts observers names snapshot s))" "t \<in> set (w_tabs w)"
  shows "reviewed_panes (st_inventory (published boot hosts observers names snapshot s)) t = map (confirmed_session hosts) (t_panes t)"
proof -
  let ?s = "published boot hosts observers names snapshot s"
  let ?ps = "concat (map workspace_panes (workspaces ?s))"
  have "distinct (map p_id ?ps)"
    using pane_ids_distinct(1) [OF published_sound [OF assms(1)]] by (simp add: hierarchy_panes_def)
  then have "List.find (\<lambda>c. cp_id c = p_id p) (map (confirmed_session hosts) ?ps) = Some (confirmed_session hosts p)"
    if "p \<in> set ?ps" for p
    using that find_key_unique [of cp_id "map (confirmed_session hosts) ?ps" "confirmed_session hosts p"]
    by (simp add: comp_def confirmed_session_def)
  moreover have "p \<in> set ?ps" if "p \<in> set (t_panes t)" for p
    using that assms(2,3) by (auto simp: workspace_panes_def)
  ultimately have "Option.bind (inv_close (st_inventory ?s)) (\<lambda>live. List.find (\<lambda>c. cp_id c = p_id p) (ci_sessions live)) =
      Some (confirmed_session hosts p)" if "p \<in> set (t_panes t)" for p
    using that by (simp add: published_close)
  then show ?thesis
    unfolding reviewed_panes_def by (induction "t_panes t") (simp_all add: map_filter_def)
qed

text \<open>The test a plan repeats before it closes anything.\<close>

definition plan_affects :: "removal_plan \<Rightarrow> tab \<Rightarrow> bool" where
  "plan_affects plan = is_affected (rm_root (rp_review plan)) (rm_path (rp_review plan))
     (\<lambda>d. path_starts_with d (rm_path (rp_review plan)) \<or> list_ex (\<lambda>p. path_eq p d) (rp_contained plan))"

definition closed_tabs :: "removal_plan \<Rightarrow> state \<Rightarrow> Id set" where
  "closed_tabs plan s = (\<Union>w\<in>set (workspaces s). t_id ` set (filter (plan_affects plan) (w_tabs w)))"

lemma unchanged_review:
  assumes "sound s" "\<not> plan_changed plan (st_inventory (published boot hosts observers names snapshot s))"
    "a \<in> set (rm_tabs (rp_review plan))"
  shows "p \<in> affected_panes a \<longleftrightarrow> (at_workspace a, at_tab a, p) \<in> places s"
    "\<exists>q. (at_workspace a, at_tab a, q) \<in> places s"
proof -
  let ?s = "published boot hosts observers names snapshot s"
  have "a \<in> set (affected_worktree_tabs_in (rm_root (rp_review plan)) (rm_path (rp_review plan))
      (\<lambda>d. path_starts_with d (rm_path (rp_review plan)) \<or> list_ex (\<lambda>p. path_eq p d) (rp_contained plan)) (st_inventory ?s))"
    using assms(2,3) unfolding plan_changed_def by simp
  then obtain w t where w: "w \<in> set (workspaces ?s)" "t \<in> set (w_tabs w)"
    and a: "a = \<lparr>at_workspace = w_id w, at_tab = t_id t, at_panes = reviewed_panes (st_inventory ?s) t\<rparr>"
    by (auto simp: affected_worktree_tabs_in_def)
  have "p \<in> affected_panes a \<longleftrightarrow> p \<in> p_id ` set (t_panes t)"
    using reviewed_panes_published [OF assms(1) w] by (simp add: a affected_panes_def confirmed_session_def image_image)
  also have "\<dots> \<longleftrightarrow> (w_id w, t_id t, p) \<in> places ?s"
  proof
    assume "(w_id w, t_id t, p) \<in> places ?s"
    then obtain v u q where u: "v \<in> set (workspaces ?s)" "w_id w = w_id v" "u \<in> set (w_tabs v)" "t_id t = t_id u"
      "q \<in> set (t_panes u)" "p = p_id q" unfolding places_iff by blast
    have d: "distinct (concat (map workspace_ids (workspaces ?s)))" by (rule sound_distinct [OF published_sound [OF assms(1)]])
    have "v = w" using distinct_concat_owner [OF d u(1) w(1), of "w_id w"] u(2) by (simp add: workspace_ids_def)
    moreover have "distinct (concat (map tab_ids (w_tabs w)))"
      using distinct_concat_each [OF d w(1)] by (simp add: workspace_ids_def)
    ultimately have "u = t" using distinct_concat_owner [of tab_ids "w_tabs w" u t "t_id t"] u(3,4) w(2) by (simp add: tab_ids_def)
    then show "p \<in> p_id ` set (t_panes t)" using u(5,6) by simp
  qed (use w in \<open>auto simp: places_iff simp del: places_shown\<close>)
  finally show "p \<in> affected_panes a \<longleftrightarrow> (at_workspace a, at_tab a, p) \<in> places s" by (simp add: a)
  show "\<exists>q. (at_workspace a, at_tab a, q) \<in> places s"
    using places_known(2) [OF sound_intact [OF published_sound [OF assms(1)]] w] by (simp add: a)
qed

lemma restored_shown [simp]: "restored_directory (shown_observers hosts observers names p) = restored_directory p"
  by (simp add: shown_observers_def restored_directory_def Let_def split: option.split)

lemma reviewed_are_affected:
  assumes "\<not> plan_changed plan (st_inventory (published boot hosts observers names snapshot s))"
  shows "reviewed_tabs plan = closed_tabs plan s"
proof -
  have same: "plan_affects plan (t\<lparr>t_panes := map (shown_observers hosts observers names) (t_panes t)\<rparr>) = plan_affects plan t" for t
    by (simp add: plan_affects_def is_affected_def list_ex_iff)
  have "rm_tabs (rp_review plan) = affected_worktree_tabs_in (rm_root (rp_review plan)) (rm_path (rp_review plan))
      (\<lambda>d. path_starts_with d (rm_path (rp_review plan)) \<or> list_ex (\<lambda>p. path_eq p d) (rp_contained plan))
      (st_inventory (published boot hosts observers names snapshot s))"
    using assms unfolding plan_changed_def by simp
  then have "reviewed_tabs plan = (\<Union>w\<in>set (map_panes (shown_observers hosts observers names) (workspaces s)).
      t_id ` set (filter (plan_affects plan) (w_tabs w)))"
    by (simp add: reviewed_tabs_def affected_worktree_tabs_in_def image_UN image_image flip: plan_affects_def)
  then show ?thesis
    by (simp add: closed_tabs_def map_panes_def filter_map comp_def same image_image del: set_filter)
qed

lemma apply_plan_progress:
  assumes "sound s" "draws_fresh rnd s" "valid_path (rm_root (rp_review plan))" "valid_path (rp_fallback plan)"
    and "apply_plan rnd device (st_inventory (published boot hosts observers names snapshot s)) plan s = (Inr (), s')"
  obtains k where "\<not> plan_changed plan (st_inventory (published boot hosts observers names snapshot s))"
    "progress_to rnd plan s k (plan_panes plan) s'"
proof -
  have ch: "\<not> plan_changed plan (st_inventory (published boot hosts observers names snapshot s))"
    "close_all_affected rnd 0 device plan (rm_tabs (rp_review plan)) s = (Inr (), s')"
    using assms(5) by (auto simp: apply_plan_def split: if_splits)
  have "progress_to rnd plan s 0 {} s" using assms(1) by (auto simp: progress_to_def)
  then obtain k where "progress_to rnd plan s k ({} \<union> plan_panes plan) s'"
    using progress_all [OF assms(1-4) _ _ _ ch(2), of "{}"] unchanged_review(1) [OF assms(1) ch(1)]
    by (auto simp: reviewed_tabs_def plan_panes_def)
  then show thesis using that ch(1) by simp
qed

lemma apply_plan_sound:
  assumes "sound s" "draws_fresh rnd s" "valid_path (rm_root (rp_review plan))" "valid_path (rp_fallback plan)"
    and "apply_plan rnd device (st_inventory (published boot hosts observers names snapshot s)) plan s = (Inr (), s')"
  shows "sound s'"
  using apply_plan_progress [OF assms] progress_facts(1) by metis

text \<open>C12. A Worktree removal whose review still holds closes exactly the Tabs it affects, each with all its
  Panes: every other Pane stays where it is, and no Workspace ends. A Workspace that would have
  lost its last Tab gets a new one, and only such a Workspace does.\<close>

theorem removal_closes_affected:
  assumes "sound s" "draws_fresh rnd s" "valid_path (rm_root (rp_review plan))" "valid_path (rp_fallback plan)"
    and "apply_plan rnd device (st_inventory (published boot hosts observers names snapshot s)) plan s = (Inr (), s')"
  shows "sound s' \<and> places s' \<inter> places s = {(w, t, p) \<in> places s. t \<notin> closed_tabs plan s} \<and>
    w_id ` set (workspaces s') = w_id ` set (workspaces s) \<and>
    (\<forall>(w, t, p) \<in> places s' - places s. \<forall>(w', t', p') \<in> places s. w' = w \<longrightarrow> t' \<in> closed_tabs plan s)"
proof -
  obtain k where ch: "\<not> plan_changed plan (st_inventory (published boot hosts observers names snapshot s))"
    and p: "progress_to rnd plan s k (plan_panes plan) s'" using apply_plan_progress [OF assms] .
  note panes = unchanged_review [OF assms(1) ch] and tabs = reviewed_are_affected [OF ch]
  have "p \<in> plan_panes plan \<longleftrightarrow> t \<in> reviewed_tabs plan" if at: "(w, t, p) \<in> places s" for w t p
  proof
    assume "p \<in> plan_panes plan"
    then obtain a where "a \<in> set (rm_tabs (rp_review plan))" "(at_workspace a, at_tab a, p) \<in> places s"
      using panes(1) by (auto simp: plan_panes_def)
    then show "t \<in> reviewed_tabs plan" using places_unique(1) [OF sound_distinct [OF assms(1)] at] by (auto simp: reviewed_tabs_def)
  next
    assume "t \<in> reviewed_tabs plan"
    then obtain a where a: "a \<in> set (rm_tabs (rp_review plan))" "at_tab a = t" by (auto simp: reviewed_tabs_def)
    then obtain q where "(at_workspace a, t, q) \<in> places s" using panes(2) [OF a(1)] by blast
    then have "w = at_workspace a" using places_unique(2) [OF sound_distinct [OF assms(1)]] at by blast
    then show "p \<in> plan_panes plan" using at a panes(1) [OF a(1)] by (auto simp: plan_panes_def)
  qed
  then have "places s' \<inter> places s = {(w, t, p) \<in> places s. t \<notin> closed_tabs plan s}"
    unfolding progress_facts(2) [OF p] tabs [symmetric] by auto
  moreover have "w_id ` set (workspaces n) = fst ` places n" if "sound n" for n
    using places_known(1) [OF sound_intact [OF that]] by (force simp: image_iff)
  then have "w_id ` set (workspaces s') = w_id ` set (workspaces s)"
    using progress_facts(1,3) [OF p] assms(1) by simp
  moreover have "\<forall>(w, t, p) \<in> places s' - places s. \<forall>(w', t', p') \<in> places s. w' = w \<longrightarrow> t' \<in> closed_tabs plan s"
    unfolding tabs [symmetric] using progress_new(2) [OF p] by blast
  ultimately show ?thesis using progress_facts(1) [OF p] by blast
qed

text \<open>A Workspace whose only Tab is in the removed Worktree.\<close>

definition demo_worktree :: state where
  "demo_worktree = set_workspaces (map (\<lambda>w. w\<lparr>w_tabs := map (\<lambda>t. t\<lparr>t_worktree := Some (lit ''/w''),
     t_worktree_repository := Some (lit ''/r'')\<rparr>) (w_tabs w)\<rparr>) (workspaces (first_state 1 2 3 (lit ''/w''))))
     (first_state 1 2 3 (lit ''/w''))"

definition demo_plan :: removal_plan where
  "demo_plan = \<lparr>rp_review = \<lparr>rm_boot = 9, rm_confirmation = 8, rm_root = lit ''/r'', rm_path = lit ''/w'',
     rm_changes = False, rm_submodules = False,
     rm_tabs = [\<lparr>at_workspace = 1, at_tab = 2, at_panes = [\<lparr>cp_id = 3, cp_session = None\<rparr>]\<rparr>]\<rparr>,
     rp_fallback = lit ''/r'', rp_sources = [(3, lit ''/w'')], rp_pins = [], rp_contained = []\<rparr>"

definition demo_draws :: "nat \<Rightarrow> nat \<Rightarrow> Id option" where
  "demo_draws k j = (if k = 0 \<and> j = 0 then Some 10 else if k = 0 \<and> j = 1 then Some 11 else None)"

lemma demo_worktree_sound: "sound demo_worktree"
  by (simp add: sound_def rooted_def demo_worktree_def run_simps)

lemma demo_draws_fresh: "draws_fresh demo_draws demo_worktree"
  by (auto simp: draws_fresh_def demo_draws_def state_ids_def workspace_ids_def tab_ids_def demo_worktree_def run_simps split: if_splits)

definition demo_added :: state where
  "demo_added = snd (add_worktree_tab (demo_draws 0) (Some 7) 1 (lit ''/r'') (lit ''/r'') (lit ''/r'') demo_worktree)"

lemma demo_apply_plan:
  "apply_plan demo_draws 7 (st_inventory (published 9 (\<lambda>_. None) (\<lambda>_. None) [] demo_facts demo_worktree)) demo_plan demo_worktree
     = (Inr (), remove_pane 3 demo_added)"
proof -
  have unchanged: "\<not> plan_changed demo_plan (st_inventory (published 9 (\<lambda>_. None) (\<lambda>_. None) [] demo_facts demo_worktree))"
    by (simp add: demo_plan_def demo_worktree_def published_def run_simps)
  have "fst (add_worktree_tab (demo_draws 0) (Some 7) 1 (lit ''/r'') (lit ''/r'') (lit ''/r'') demo_worktree) = Inr 10"
    by (simp add: demo_draws_def demo_worktree_def run_simps)
  then have added: "add_worktree_tab (demo_draws 0) (Some 7) 1 (lit ''/r'') (lit ''/r'') (lit ''/r'') demo_worktree = (Inr 10, demo_added)"
    by (simp add: demo_added_def prod_eq_iff)
  obtain w where w: "find_workspace (st_inventory demo_worktree) 1 = Some w" "w_id w = 1" "map t_id (w_tabs w) = [2]"
    by (simp add: demo_worktree_def run_simps)
  have "list_all (\<lambda>t. list_ex (\<lambda>a. at_tab a = t_id t) (rm_tabs (rp_review demo_plan))) (w_tabs w)"
    using w(3) by (auto simp: demo_plan_def)
  then show ?thesis
    using unchanged added w by (simp add: apply_plan_def close_affected_def demo_plan_def)
qed

theorem removal_closes_affected_witness:
  "map (map tab_ids \<circ> w_tabs) (workspaces demo_worktree) = [[[2, 3]]] \<and>
   (\<exists>s'. apply_plan demo_draws 7 (st_inventory (published 9 (\<lambda>_. None) (\<lambda>_. None) [] demo_facts demo_worktree)) demo_plan demo_worktree
       = (Inr (), s') \<and> map (map tab_ids \<circ> w_tabs) (workspaces s') = [[[10, 11]]] \<and> w_id ` set (workspaces s') = {1})"
proof -
  have "valid_path (rm_root (rp_review demo_plan))" "valid_path (rp_fallback demo_plan)" by (simp_all add: demo_plan_def run_simps)
  note applied = removal_closes_affected [OF demo_worktree_sound demo_draws_fresh this demo_apply_plan]
  have before: "map (map tab_ids \<circ> w_tabs) (workspaces demo_worktree) = [[[2, 3]]]" "w_id ` set (workspaces demo_worktree) = {1}"
    by (simp_all add: demo_worktree_def tab_ids_def run_simps)
  have "map (map tab_ids \<circ> w_tabs) (workspaces (remove_pane 3 demo_added)) = [[[10, 11]]]"
    by (simp add: demo_added_def demo_draws_def demo_worktree_def tab_ids_def run_simps)
  then show ?thesis using applied demo_apply_plan before by metis
qed

end
