(* ===== verification/Host.thy ===== *)
theory Host
  imports Reconcile Removal
begin

text \<open>
  The core host around the shared state (\<open>core_host/workspaces.rs\<close>): the commit
  of a next state, and the requests that change the state. The running Panes are a parameter
  (\<open>hosts\<close>), as are the files a request looks at and the results of git; ending processes is not part
  of the model. \<open>finish_worktrees\<close>, \<open>recover\<close> and \<open>synchronize\<close> run between requests and are steps of
  their own (\<open>Server\<close>).
\<close>

section \<open>Committing\<close>

text \<open>The host's part of the model: \<open>sv_submitted\<close> are the records handed to the journal, oldest
  first. \<open>sv_operation\<close> is the Worktree write in progress.\<close>

record server =
  sv_boot :: Id
  sv_directory :: path
  sv_state :: state
  sv_forgetting :: "Id set"
  sv_prepared :: bool
  sv_operation :: "(Id \<times> u64) option"
  sv_submitted :: "state list"

definition with_sync :: "Id \<Rightarrow> path \<Rightarrow> server" where
  "with_sync boot directory = \<lparr>sv_boot = boot, sv_directory = directory, sv_state = begin_boot boot empty_state,
     sv_forgetting = {}, sv_prepared = False, sv_operation = None, sv_submitted = []\<rparr>"

definition without_live :: "state \<Rightarrow> state" where
  "without_live s = s\<lparr>st_inventory := (st_inventory s)\<lparr>inv_repositories := None, inv_close := None\<rparr>\<rparr>"

definition commit :: "state \<Rightarrow> server \<Rightarrow> server" where
  "commit next sv =
     (let next = without_live next
      in sv\<lparr>sv_submitted := sv_submitted sv @ [envelope next], sv_state := next, sv_prepared := True\<rparr>)"

definition restore_organization :: "state option \<Rightarrow> server \<Rightarrow> server" where
  "restore_organization retained sv =
     sv\<lparr>sv_state := begin_boot (sv_boot sv) (case retained of None \<Rightarrow> empty_state | Some s \<Rightarrow> s),
        sv_prepared := (retained \<noteq> None)\<rparr>"

definition prepare_initial_organization :: "(nat \<Rightarrow> Id option) \<Rightarrow> server \<Rightarrow> (refusal + unit) \<times> server" where
  "prepare_initial_organization rnd sv =
     (if sv_prepared sv then (Inr (), sv)
      else if workspaces (sv_state sv) \<noteq> [] then (Inr (), commit (sv_state sv) sv)
      else case (rnd 0, rnd 1, rnd 2) of
        (Some w, Some t, Some p) \<Rightarrow>
          (let next = first_state w t p (sv_directory sv) in
           if \<not> validate next then (Inl Failed, sv)
           else (Inr (), commit (begin_boot (sv_boot sv)
                  (next\<lparr>st_worktree_settings := st_worktree_settings (sv_state sv)\<rparr>)) sv))
      | _ \<Rightarrow> (Inl Failed, sv))"

section \<open>Edits\<close>

datatype answer = Answered retained_outcome | AnswerPending

definition answer_of :: "retained_outcome \<Rightarrow> answer" where
  "answer_of r = (if ro_outcome r = Pending then AnswerPending else Answered r)"

text \<open>\<open>starting_directory\<close>: where a Pane of a Worktree starts. \<open>valid_directory\<close> is the filesystem's
  \<open>validate_directory\<close>, which returns the path it accepted, and \<open>contains\<close> its \<open>physically_contains\<close>.\<close>

record files =
  valid_directory :: "path \<Rightarrow> path option"
  physically_contains :: "path \<Rightarrow> path \<Rightarrow> bool"

definition starting_directory :: "files \<Rightarrow> workspace \<Rightarrow> Id option \<Rightarrow> path \<Rightarrow> refusal + path" where
  "starting_directory fs w source root =
     (let found = (case source of None \<Rightarrow> Some None
                   | Some i \<Rightarrow> map_option Some (List.find (\<lambda>p. p_id p = i) (workspace_panes w)))
      in case found of
        None \<Rightarrow> Inl RefusedMissing
      | Some pane \<Rightarrow>
          if (case w_pinned_directory w of None \<Rightarrow> False | Some pin \<Rightarrow> valid_directory fs pin = None)
          then Inl DirectoryUnavailable
          else let inside = (\<lambda>d. case d of None \<Rightarrow> None
                     | Some d \<Rightarrow> if physically_contains fs root d then Some d else None);
                   start = (case inside (w_pinned_directory w) of
                       Some pin \<Rightarrow> pin
                     | None \<Rightarrow> (case inside (map_option repository_directory pane) of Some d \<Rightarrow> d | None \<Rightarrow> root))
               in case valid_directory fs start of None \<Rightarrow> Inl DirectoryUnavailable | Some d \<Rightarrow> Inr d)"

text \<open>A split in a Worktree Tab starts inside its Worktree; every other edit in the server's
  directory. A directory refusal is recorded by the edit itself.\<close>

definition split_directory :: "files \<Rightarrow> path \<Rightarrow> inventory \<Rightarrow> path_mutation \<Rightarrow> refusal + path" where
  "split_directory fs home iv mutation =
     (case mutation of
        SplitPane w tab source _ _ \<Rightarrow>
          (case find_workspace iv w of
             None \<Rightarrow> Inr home
           | Some w \<Rightarrow>
               (case Option.bind (find_tab w tab) t_worktree of
                  None \<Rightarrow> Inr home
                | Some root \<Rightarrow> starting_directory fs w (Some source) root))
      | _ \<Rightarrow> Inr home)"

text \<open>What a request reads besides the state.\<close>

record surroundings =
  sr_hosts :: hosts
  sr_observers :: "Id \<Rightarrow> Id list option"
  sr_names :: client_names
  sr_snapshot :: repositories
  sr_files :: files

definition inventory_now :: "surroundings \<Rightarrow> server \<Rightarrow> inventory" where
  "inventory_now sr sv = live_inventory (sv_boot sv) (sr_hosts sr) (sr_observers sr) (sr_names sr) (sr_snapshot sr)
     (st_inventory (sv_state sv))"

text \<open>A Worktree write is recorded as pending before git runs; a new location is settled at once.
  \<open>template_ok\<close> is \<open>validate_location_template\<close>, which asks the filesystem.\<close>

definition set_location :: "(rust_string \<Rightarrow> worktree_error option) \<Rightarrow> u64 \<Rightarrow> rust_string \<Rightarrow> state \<Rightarrow>
    (worktree_error + unit) \<times> state" where
  "set_location template_error version template next =
     (let current = st_worktree_settings next in
      if version \<noteq> ws_version current then (Inl Changed, next)
      else case template_error template of
        Some e \<Rightarrow> (Inl e, next)
      | None \<Rightarrow>
          (case checked_add (ws_version current) 1 of
             None \<Rightarrow> (Inl WorktreeUnavailable, next)
           | Some v \<Rightarrow> (Inr (), next\<lparr>st_worktree_settings := \<lparr>ws_template = template, ws_version = v\<rparr>\<rparr>)))"

definition begin_worktree :: "(nat \<Rightarrow> Id option) \<Rightarrow> (rust_string \<Rightarrow> worktree_error option) \<Rightarrow> Id \<Rightarrow> u64 \<Rightarrow> path operation \<Rightarrow> server \<Rightarrow>
    (refusal + answer) \<times> server" where
  "begin_worktree rnd template_error device sequence operation sv =
     (if pending_worktrees (sv_state sv) \<noteq> [] then (Inr AnswerPending, sv)
      else case apply_edit rnd (\<lambda>_. False) (sv_directory sv) device sequence (Worktree operation) (sv_state sv) of
        (Inl refusal, _) \<Rightarrow> (Inl refusal, sv)
      | (Inr _, next) \<Rightarrow>
          (case operation of
             SetLocation version template \<Rightarrow>
               (let (checked, next) = set_location template_error version template next;
                    out = (case checked of Inr _ \<Rightarrow> Accepted device | Inl e \<Rightarrow> WorktreeFailed e)
                in case finish_worktree device sequence out next of
                  (Inl refusal, _) \<Rightarrow> (Inl refusal, sv)
                | (Inr _, next) \<Rightarrow>
                    (let sv = commit next sv in
                     case outcome_of (sv_state sv) device sequence of
                       None \<Rightarrow> (Inl RefusedMissing, sv)
                     | Some r \<Rightarrow> (Inr (Answered r), sv)))
           | _ \<Rightarrow> (Inr AnswerPending, (commit next sv)\<lparr>sv_operation := Some (device, sequence)\<rparr>)))"

definition mutate :: "(nat \<Rightarrow> Id option) \<Rightarrow> surroundings \<Rightarrow> (rust_string \<Rightarrow> worktree_error option) \<Rightarrow> Id \<Rightarrow> u64 \<Rightarrow> path_mutation \<Rightarrow> server \<Rightarrow>
    (refusal + answer) \<times> server" where
  "mutate rnd sr template_error device sequence mutation sv =
     (case outcome_of (sv_state sv) device sequence of
        Some old \<Rightarrow> (if mutation_eq (ro_mutation old) mutation then Inr (answer_of old) else Inl RefusedStale, sv)
      | None \<Rightarrow>
          (case mutation of
             Worktree operation \<Rightarrow> begin_worktree rnd template_error device sequence operation sv
           | _ \<Rightarrow>
               if pending_worktrees (sv_state sv) \<noteq> [] then (Inr AnswerPending, sv)
               else let next = (sv_state sv)\<lparr>st_inventory := inventory_now sr sv\<rparr>;
                        directory = split_directory (sr_files sr) (sv_directory sv) (st_inventory next) mutation
                    in case apply_edit rnd (\<lambda>p. \<not> isl directory \<and> valid_directory (sr_files sr) p \<noteq> None)
                              (case directory of Inr d \<Rightarrow> d | Inl _ \<Rightarrow> sv_directory sv) device sequence mutation next of
                      (Inl refusal, _) \<Rightarrow> (Inl refusal, sv)
                    | (Inr _, next) \<Rightarrow>
                        (case outcome_of next device sequence of
                           None \<Rightarrow> (Inl Failed, sv)
                         | Some r \<Rightarrow> (Inr (Answered r), commit next sv))))"

definition resolve :: "Id \<Rightarrow> u64 \<Rightarrow> server \<Rightarrow> refusal + answer" where
  "resolve device sequence sv =
     (case outcome_of (sv_state sv) device sequence of None \<Rightarrow> Inl RefusedMissing | Some r \<Rightarrow> Inr (answer_of r))"

definition retire_outcome :: "Id \<Rightarrow> u64 \<Rightarrow> server \<Rightarrow> (refusal + unit) \<times> server" where
  "retire_outcome device sequence sv =
     (case acknowledge device sequence (sv_state sv) of
        (Inl refusal, _) \<Rightarrow> (Inl refusal, sv)
      | (Inr _, next) \<Rightarrow> (Inr (), if next \<noteq> sv_state sv then commit next sv else sv))"

definition forget_device :: "Id \<Rightarrow> server \<Rightarrow> server" where
  "forget_device device sv =
     (let sv = sv\<lparr>sv_forgetting := insert device (sv_forgetting sv)\<rparr>;
          (done, next) = forget device (sv_state sv)
      in if \<not> done then sv
         else let sv = (if next \<noteq> sv_state sv then commit next sv else sv)
              in sv\<lparr>sv_forgetting := sv_forgetting sv - {device}\<rparr>)"

definition repair_pane :: "Id \<Rightarrow> path \<Rightarrow> server \<Rightarrow> (refusal + unit) \<times> server" where
  "repair_pane pid directory sv =
     (case repair_directory pid directory (sv_state sv) of
        (Inl refusal, _) \<Rightarrow> (Inl refusal, sv)
      | (Inr _, next) \<Rightarrow> (Inr (), commit next sv))"

section \<open>Worktree writes\<close>

text \<open>What git's worker reports: a preflight, or the end of a write.\<close>

datatype prepared =
  PreparedOpen Id "Id option" path path create_control \<comment> \<open>workspace, source, root, path, control\<close>
| PreparedWrite "removal_plan option"

datatype job_result =
  JobPrepared "worktree_error + prepared"
| JobFinished "worktree_error + path option"

text \<open>\<open>finish_worktree\<close> on the next state, its commit, and the end of the write.\<close>

definition finish_operation :: "Id \<Rightarrow> u64 \<Rightarrow> outcome \<Rightarrow> state \<Rightarrow> server \<Rightarrow> (refusal + unit) \<times> server" where
  "finish_operation device sequence out next sv =
     (case finish_worktree device sequence out next of
        (Inl refusal, _) \<Rightarrow> (Inl refusal, sv)
      | (Inr _, next) \<Rightarrow> (Inr (), (commit next sv)\<lparr>sv_operation := None\<rparr>))"

definition settle_worktree :: "(nat \<Rightarrow> Id option) \<Rightarrow> surroundings \<Rightarrow> Id \<Rightarrow> u64 \<Rightarrow> worktree_error + path option \<Rightarrow> server \<Rightarrow>
    (refusal + unit) \<times> server" where
  "settle_worktree rnd sr device sequence result sv =
     (case outcome_of (sv_state sv) device sequence of
        None \<Rightarrow> (Inl RefusedMissing, sv)
      | Some r \<Rightarrow>
          (case result of
             Inl e \<Rightarrow> finish_operation device sequence (WorktreeFailed e) (sv_state sv) sv
           | Inr created \<Rightarrow>
               (case ro_mutation r of
                  Worktree (Create workspace root _ _ control) \<Rightarrow>
                    (case created of
                       None \<Rightarrow> finish_operation device sequence (WorktreeFailed Interrupted) (sv_state sv) sv
                     | Some path \<Rightarrow>
                         (case add_worktree_tab rnd (creator control device (inventory_now sr sv)) workspace root path path (sv_state sv) of
                            (Inl _, next) \<Rightarrow> finish_operation device sequence (WorktreeFailed Interrupted) next sv
                          | (Inr target, next) \<Rightarrow> finish_operation device sequence (Accepted target) next sv))
                | _ \<Rightarrow> finish_operation device sequence (Accepted device) (sv_state sv) sv)))"

text \<open>Opening a Worktree in a new Tab.\<close>

definition open_prepared :: "(nat \<Rightarrow> Id option) \<Rightarrow> surroundings \<Rightarrow> Id \<Rightarrow> u64 \<Rightarrow> Id \<Rightarrow> Id option \<Rightarrow> path \<Rightarrow> path \<Rightarrow> create_control \<Rightarrow> server \<Rightarrow>
    (refusal + unit) \<times> server" where
  "open_prepared rnd sr device sequence workspace source root path control sv =
     (let selected = (case find_workspace (st_inventory (sv_state sv)) workspace of
          None \<Rightarrow> (Inl RefusedMissing, sv_state sv)
        | Some w \<Rightarrow>
            (case starting_directory (sr_files sr) w source path of
               Inl refusal \<Rightarrow> (Inl refusal, sv_state sv)
             | Inr start \<Rightarrow> add_worktree_tab rnd (creator control device (inventory_now sr sv)) workspace root path start (sv_state sv)))
      in case selected of
        (Inr target, next) \<Rightarrow> finish_operation device sequence (Accepted target) next sv
      | (Inl _, next) \<Rightarrow> finish_operation device sequence (WorktreeFailed WorktreeUnavailable) next sv)"

text \<open>Before a write starts: the Tabs of a removal close, and a creation finds room for its Tab.\<close>

definition check_write :: "(nat \<Rightarrow> nat \<Rightarrow> Id option) \<Rightarrow> surroundings \<Rightarrow> Id \<Rightarrow> u64 \<Rightarrow> removal_plan option \<Rightarrow> server \<Rightarrow>
    (worktree_error + unit) \<times> state" where
  "check_write rnd sr device sequence plan sv =
     (let s = sv_state sv;
          (checked, next) = (case plan of None \<Rightarrow> (Inr (), s) | Some plan \<Rightarrow> apply_plan (rnd \<circ> Suc) device (inventory_now sr sv) plan s)
      in case checked of
        Inl e \<Rightarrow> (Inl e, next)
      | Inr _ \<Rightarrow>
          (case map_option ro_mutation (outcome_of s device sequence) of
             Some (Worktree (Create workspace root path _ _)) \<Rightarrow>
               (case add_worktree_tab (rnd 0) (Some device) workspace root path path next of
                  (Inl _, _) \<Rightarrow> (Inl WorktreeUnavailable, next)
                | (Inr _, _) \<Rightarrow> (Inr (), next))
           | _ \<Rightarrow> (Inr (), next)))"

definition start_prepared :: "(nat \<Rightarrow> nat \<Rightarrow> Id option) \<Rightarrow> surroundings \<Rightarrow> Id \<Rightarrow> u64 \<Rightarrow> prepared \<Rightarrow> server \<Rightarrow> (refusal + unit) \<times> server" where
  "start_prepared rnd sr device sequence prepared sv =
     (case prepared of
        PreparedOpen workspace source root path control \<Rightarrow>
          open_prepared (rnd 0) sr device sequence workspace source root path control sv
      | PreparedWrite plan \<Rightarrow>
          (case check_write rnd sr device sequence plan sv of
             (Inl e, _) \<Rightarrow> settle_worktree (rnd 0) sr device sequence (Inl e) sv
           | (Inr _, next) \<Rightarrow> (Inr (), commit next sv)))"

text \<open>One turn of the loop of \<open>finish_worktrees\<close>.\<close>

definition finish_job :: "(nat \<Rightarrow> nat \<Rightarrow> Id option) \<Rightarrow> surroundings \<Rightarrow> job_result \<Rightarrow> server \<Rightarrow> (refusal + unit) \<times> server" where
  "finish_job rnd sr result sv =
     (case sv_operation sv of
        None \<Rightarrow> (Inl Failed, sv)
      | Some (device, sequence) \<Rightarrow>
          (case result of
             JobPrepared (Inr prepared) \<Rightarrow> start_prepared rnd sr device sequence prepared sv
           | JobPrepared (Inl e) \<Rightarrow> settle_worktree (rnd 0) sr device sequence (Inl e) sv
           | JobFinished r \<Rightarrow> settle_worktree (rnd 0) sr device sequence r sv))"

text \<open>Without a worker every write still pending was interrupted, and the revoked devices that waited
  for one are forgotten.\<close>

fun settle_interrupted :: "surroundings \<Rightarrow> (Id \<times> retained_outcome) list \<Rightarrow> server \<Rightarrow> (refusal + unit) \<times> server" where
  "settle_interrupted sr [] sv = (Inr (), sv)"
| "settle_interrupted sr ((device, r) # rest) sv =
     (case settle_worktree (\<lambda>_. None) sr device (ro_sequence r) (Inl Interrupted) sv of
        (Inl refusal, sv) \<Rightarrow> (Inl refusal, sv)
      | (Inr _, sv) \<Rightarrow> settle_interrupted sr rest sv)"

definition forget_waiting :: "server \<Rightarrow> server" where
  "forget_waiting sv = fold forget_device (sorted_list_of_set (sv_forgetting sv)) (sv\<lparr>sv_forgetting := {}\<rparr>)"

section \<open>Synchronizing with the running Panes\<close>

definition synchronize_pane :: "Id \<times> pane_host \<Rightarrow> state \<Rightarrow> state" where
  "synchronize_pane host next =
     (let (pid, h) = host;
          next = (case ph_metadata h of
              None \<Rightarrow> next
            | Some (directory, repository) \<Rightarrow> present_repository_directory pid repository (present_directory pid directory next))
      in case ph_identity h of
        Some (Some path) \<Rightarrow> confirm_directory pid path next
      | Some None \<Rightarrow> next
      | None \<Rightarrow> if pane_of next pid \<noteq> None then remove_pane pid next else next)"

definition synchronized :: "(Id \<times> pane_host) list \<Rightarrow> repositories \<Rightarrow> state \<Rightarrow> state" where
  "synchronized hosts snapshot s = snd (reconcile_membership snapshot (fold synchronize_pane hosts s))"

lemmas host_run [run_simps] = with_sync_def without_live_def commit_def restore_organization_def
  prepare_initial_organization_def answer_of_def starting_directory_def split_directory_def inventory_now_def
  set_location_def begin_worktree_def mutate_def resolve_def retire_outcome_def forget_device_def repair_pane_def
  finish_operation_def settle_worktree_def open_prepared_def check_write_def start_prepared_def finish_job_def
  forget_waiting_def synchronize_pane_def synchronized_def

end
