(* ===== verification/Server.thy ===== *)
theory Server
  imports Host
begin

text \<open>
  Every state the server holds, and every record it hands to its journal, passes \<open>State::validate\<close>:
  \<open>server_step\<close> has one rule per operation of the host, with what its caller or its surroundings
  establish as premises, and the invariant holds of every server such steps reach from a start. So
  the check \<open>OrganizationStore\<close> makes on every write and read never refuses what the server produced.
\<close>

section \<open>The invariant\<close>

definition settled_state :: "Id \<Rightarrow> state \<Rightarrow> bool" where
  "settled_state boot s \<longleftrightarrow> sound s \<and> inv_close (st_inventory s) = None \<and> st_creator_boot s = Some boot"

definition server_ok :: "server \<Rightarrow> bool" where
  "server_ok sv \<longleftrightarrow> settled_state (sv_boot sv) (sv_state sv) \<and> valid_path (sv_directory sv) \<and>
     (\<forall>e\<in>set (sv_submitted sv). sound e \<and> inv_close (st_inventory e) = None)"

lemma without_live_facts [simp]:
  "sound (without_live s) = sound s" "inv_close (st_inventory (without_live s)) = None"
  "st_creator_boot (without_live s) = st_creator_boot s"
  using cleared_sound [where s = s and r = None and c = None] by (simp_all add: without_live_def)

lemma envelope_close [simp]: "inv_close (st_inventory (envelope s)) = None"
  by (simp add: envelope_def Let_def)

lemma commit_ok:
  assumes "server_ok sv" "sound next" "st_creator_boot next = Some (sv_boot sv)"
  shows "server_ok (commit next sv)"
  using assms envelope_sound [of "without_live next"] by (auto simp: server_ok_def settled_state_def commit_def Let_def)

lemma server_ok_fields [simp]:
  "server_ok (sv\<lparr>sv_forgetting := A\<rparr>) = server_ok sv" "server_ok (sv\<lparr>sv_operation := x\<rparr>) = server_ok sv"
  by (simp_all add: server_ok_def)

lemma server_okD:
  assumes "server_ok sv"
  shows "sound (sv_state sv)" "st_creator_boot (sv_state sv) = Some (sv_boot sv)" "valid_path (sv_directory sv)"
    "inv_close (st_inventory (sv_state sv)) = None"
  using assms by (simp_all add: server_ok_def settled_state_def)

section \<open>The boot of a state\<close>

lemma boot_of_frame: "frame s' = frame s \<Longrightarrow> st_creator_boot s' = st_creator_boot s"
  by (simp add: frame_def)

lemma apply_edit_boot:
  assumes "apply_edit rnd validate_pin directory device sequence mutation s = (r, s')"
  shows "st_creator_boot s' = st_creator_boot s"
proof -
  have "st_creator_boot (snd (edit rnd validate_pin directory device mutation (s\<lparr>st_devices := d, st_sequence_floor := f\<rparr>))) =
    st_creator_boot s" for d f
    using boot_of_frame [OF edit_frame [of rnd validate_pin directory device mutation "s\<lparr>st_devices := d, st_sequence_floor := f\<rparr>"]] by simp
  then show ?thesis
    using assms by (auto simp: apply_edit_def Let_def split: if_splits option.splits prod.splits sum.splits)
      (metis snd_conv)+
qed

lemma finish_worktree_boot: "st_creator_boot (snd (finish_worktree device q out s)) = st_creator_boot s"
  by (simp add: finish_worktree_def put_device_def split: option.split)

lemma add_worktree_tab_boot: "st_creator_boot (snd (add_worktree_tab rnd by w root path start s)) = st_creator_boot s"
  by (simp add: add_worktree_tab_def put_workspace_def Let_def split: option.split)

lemma remove_pane_boot: "st_creator_boot (remove_pane pid s) = st_creator_boot s"
  by (rule boot_of_frame) simp

lemma close_all_affected_boot:
  "st_creator_boot (snd (close_all_affected rnd k device plan as s)) = st_creator_boot s"
proof (induction as arbitrary: k s)
  case (Cons a as)
  have fold: "st_creator_boot (fold (\<lambda>p. remove_pane (cp_id p)) ps s) = st_creator_boot s" for ps s
    by (induction ps arbitrary: s) (simp_all add: remove_pane_boot)
  have "st_creator_boot (snd (close_affected (rnd k) device plan a s)) = st_creator_boot s"
    using add_worktree_tab_boot [of "rnd k" "Some device" _ "rm_root (rp_review plan)" "rp_fallback plan" "rp_fallback plan" s]
    by (auto simp: close_affected_def Let_def fold split: option.split sum.split prod.split) (metis snd_conv)+
  then show ?case using Cons.IH by (auto split: sum.split prod.split)
qed simp

lemma apply_plan_boot: "st_creator_boot (snd (apply_plan rnd device current plan s)) = st_creator_boot s"
  by (simp add: apply_plan_def close_all_affected_boot)

section \<open>Requests\<close>

text \<open>What the surroundings give: Sessions have identities, and directories that exist and paths git
  reports are absolute, at most \<open>PATH_MAX\<close> long and without a null byte.\<close>

definition surroundings_ok :: "surroundings \<Rightarrow> bool" where
  "surroundings_ok sr \<longleftrightarrow> sessions_named (sr_hosts sr) \<and> snapshot_paths_ok (sr_snapshot sr) \<and>
     (\<forall>p d. valid_directory (sr_files sr) p = Some d \<longrightarrow> valid_path d)"

lemma inventory_now_published:
  "inventory_now sr sv = st_inventory (published (sv_boot sv) (sr_hosts sr) (sr_observers sr) (sr_names sr) (sr_snapshot sr) (sv_state sv))"
  by (simp add: inventory_now_def published_def)

lemma starting_directory_valid: "surroundings_ok sr \<Longrightarrow> starting_directory (sr_files sr) w source root = Inr d \<Longrightarrow> valid_path d"
  by (auto simp: starting_directory_def surroundings_ok_def Let_def split: option.splits if_splits)

lemma split_directory_valid:
  "surroundings_ok sr \<Longrightarrow> valid_path home \<Longrightarrow> split_directory (sr_files sr) home iv mutation = Inr d \<Longrightarrow> valid_path d"
  by (auto simp: split_directory_def intro: starting_directory_valid split: mutation.splits option.splits)

lemma fresh_ids_published:
  "fresh_ids rnd (published boot hosts observers names snapshot s) = fresh_ids rnd s"
proof -
  have "state_ids (published boot hosts observers names snapshot s) = state_ids s"
    using shape_same(1) [OF shape_map_panes [of "shown_observers hosts observers names" "workspaces s"]]
    by (simp add: state_ids_def)
  then show ?thesis by (simp add: fresh_ids_def cong: option.case_cong)
qed

lemma settings_sound: "sound (s\<lparr>st_worktree_settings := x\<rparr>) = sound s"
proof -
  have "structure_ok (s\<lparr>st_worktree_settings := x\<rparr>) = structure_ok s" by (rule structure_cong) simp_all
  moreover have "validate_ends (s\<lparr>st_worktree_settings := x\<rparr>) = validate_ends s" by (simp add: validate_ends_def cong: option.case_cong)
  ultimately show ?thesis by (simp add: sound_split outcomes_ok_def)
qed

lemma set_location_facts:
  assumes "set_location te version template s = (r, s')"
  shows "sound s' = sound s" "st_creator_boot s' = st_creator_boot s"
  using assms by (auto simp: set_location_def Let_def settings_sound split: if_splits option.splits)

lemma begin_worktree_ok:
  assumes "server_ok sv" "fresh_ids rnd (sv_state sv)" "begin_worktree rnd te device sequence operation sv = (r, sv')"
  shows "server_ok sv'"
proof -
  note ok = server_okD [OF assms(1)]
  obtain x n where a: "apply_edit rnd (\<lambda>_. False) (sv_directory sv) device sequence (Worktree operation) (sv_state sv) = (x, n)"
    by fastforce
  show ?thesis
  proof (cases "pending_worktrees (sv_state sv) \<noteq> [] \<or> isl x")
    case True
    then show ?thesis using assms(1,3) a by (auto simp: begin_worktree_def split: sum.splits if_splits)
  next
    case False
    then obtain out where x: "x = Inr out" by (cases x) auto
    have s: "sound n" using apply_edit_sound [OF ok(1) assms(2) ok(3) _ a [unfolded x]] ok(4) by (simp add: live_close_ok_def)
    have b: "st_creator_boot n = Some (sv_boot sv)" using apply_edit_boot [OF a] ok(2) by simp
    show ?thesis
    proof (cases "\<exists>version template. operation = SetLocation version template")
      case True
      then obtain version template where op: "operation = SetLocation version template" by blast
      obtain c n1 where n1: "set_location te version template n = (c, n1)" by fastforce
      obtain f n2 where n2: "finish_worktree device sequence (case c of Inr _ \<Rightarrow> Accepted device | Inl e \<Rightarrow> WorktreeFailed e) n1 = (f, n2)"
        by fastforce
      have "sound n2" using finish_worktree_sound [OF _ n2] set_location_facts(1) [OF n1] s by simp
      moreover have "st_creator_boot n2 = Some (sv_boot sv)"
        using finish_worktree_boot [of device sequence _ n1] set_location_facts(2) [OF n1] n2 b by (metis snd_conv)
      ultimately have "server_ok (commit n2 sv)" by (rule commit_ok [OF assms(1)])
      then show ?thesis
        using assms(1,3) False a x n1 n2
        by (auto simp: begin_worktree_def op Let_def split: sum.splits option.splits if_splits)
    next
      case not_set: False
      have "server_ok ((commit n sv)\<lparr>sv_operation := Some (device, sequence)\<rparr>)"
        using commit_ok [OF assms(1) s b] by simp
      then show ?thesis
        using assms(3) False a x not_set by (auto simp: begin_worktree_def split: operation.splits)
    qed
  qed
qed

lemma mutate_ok:
  assumes "server_ok sv" "surroundings_ok sr" "fresh_ids rnd (sv_state sv)" "mutate rnd sr te device sequence mutation sv = (r, sv')"
  shows "server_ok sv'"
proof (cases "sv' = sv \<or> (\<exists>op. mutation = Worktree op)")
  case True
  then show ?thesis
    using assms(1,4) begin_worktree_ok [OF assms(1,3)] by (auto simp: mutate_def split: option.splits)
next
  case False
  note ok = server_okD [OF assms(1)]
  let ?p = "published (sv_boot sv) (sr_hosts sr) (sr_observers sr) (sr_names sr) (sr_snapshot sr) (sv_state sv)"
  have p: "(sv_state sv)\<lparr>st_inventory := inventory_now sr sv\<rparr> = ?p"
    by (simp add: inventory_now_def published_def)
  define dir where "dir = split_directory (sr_files sr) (sv_directory sv) (st_inventory ?p) mutation"
  define start where "start = (case dir of Inr d \<Rightarrow> d | Inl _ \<Rightarrow> sv_directory sv)"
  obtain x n where a: "apply_edit rnd (\<lambda>q. \<not> isl dir \<and> valid_directory (sr_files sr) q \<noteq> None) start device sequence mutation ?p = (x, n)"
    by fastforce
  have "sv' = sv \<or> (sv' = commit n sv \<and> (\<exists>out. x = Inr out))"
    using assms(4) a False unfolding mutate_def p dir_def start_def Let_def
    by (auto split: mutation.splits option.splits sum.splits if_splits)
  then obtain out where sv': "sv' = commit n sv" "x = Inr out" using False by blast
  have "valid_path start" using split_directory_valid [OF assms(2) ok(3)] ok(3) by (simp add: start_def dir_def split: sum.split)
  moreover have "live_close_ok ?p" using assms(2) published_live_ok [OF ok(1) _ ok(2)] by (simp add: surroundings_ok_def)
  ultimately have "sound n"
    using apply_edit_sound [OF published_sound [OF ok(1)] _ _ _ a [unfolded sv'(2)]] assms(3) fresh_ids_published by blast
  moreover have "st_creator_boot n = Some (sv_boot sv)" using apply_edit_boot [OF a] ok(2) by simp
  ultimately show ?thesis using commit_ok [OF assms(1)] sv'(1) by simp
qed

lemma prepare_ok:
  assumes "server_ok sv" "fresh_ids rnd (sv_state sv)" "prepare_initial_organization rnd sv = (r, sv')"
  shows "server_ok sv'"
proof -
  note ok = server_okD [OF assms(1)]
  have "server_ok (commit (begin_boot (sv_boot sv) ((first_state w t p (sv_directory sv))\<lparr>st_worktree_settings := x\<rparr>)) sv)"
    if ids: "rnd 0 = Some w" "rnd 1 = Some t" "rnd 2 = Some p" for w t p x
  proof (rule commit_ok [OF assms(1)])
    have "distinct [w, t, p]" "0 \<notin> {w, t, p}" using fresh_ids_drawn(3) [OF assms(2) ids] by auto
    then show "sound (begin_boot (sv_boot sv) ((first_state w t p (sv_directory sv))\<lparr>st_worktree_settings := x\<rparr>))"
      using first_state_sound [OF _ _ ok(3)] by (intro begin_boot_sound) (simp add: settings_sound)
  qed (simp add: begin_boot_def)
  then show ?thesis
    using assms(1,3) commit_ok [OF assms(1) ok(1,2)]
    by (auto simp: prepare_initial_organization_def Let_def split: if_splits option.splits)
qed

lemma acknowledge_boot: "st_creator_boot (snd (acknowledge device q s)) = st_creator_boot s"
  by (simp add: acknowledge_def put_device_def Let_def split: option.split)

lemma retire_outcome_ok:
  assumes "server_ok sv" "retire_outcome device sequence sv = (r, sv')"
  shows "server_ok sv'"
proof -
  obtain x n where a: "acknowledge device sequence (sv_state sv) = (x, n)" by fastforce
  have "sound n" "st_creator_boot n = Some (sv_boot sv)"
    using acknowledge_sound [OF _ a] acknowledge_boot [of device sequence "sv_state sv"] a server_okD [OF assms(1)] by simp_all
  then show ?thesis
    using assms a commit_ok [OF assms(1)] by (auto simp: retire_outcome_def split: sum.splits if_splits)
qed

lemma forget_device_ok:
  assumes "server_ok sv"
  shows "server_ok (forget_device device sv)"
proof -
  let ?sv = "sv\<lparr>sv_forgetting := insert device (sv_forgetting sv)\<rparr>"
  obtain x n where a: "forget device (sv_state sv) = (x, n)" by fastforce
  have "sound n" using forget_sound [of "sv_state sv" device] a server_okD(1) [OF assms] by simp
  moreover have "st_creator_boot n = Some (sv_boot sv)" using a server_okD(2) [OF assms] by (auto simp: forget_def split: if_splits)
  ultimately have "server_ok (commit n ?sv)" using assms by (intro commit_ok) simp_all
  then show ?thesis using a assms by (simp add: forget_device_def Let_def)
qed

lemma forget_waiting_ok: "server_ok sv \<Longrightarrow> server_ok (forget_waiting sv)"
proof -
  assume "server_ok sv"
  moreover have "server_ok sv' \<Longrightarrow> server_ok (fold forget_device ds sv')" for ds sv'
    by (induction ds arbitrary: sv') (simp_all add: forget_device_ok)
  ultimately show ?thesis by (simp add: forget_waiting_def)
qed

lemma repair_directory_boot: "st_creator_boot (snd (repair_directory pid path s)) = st_creator_boot s"
  by (rule boot_of_frame) (simp add: repair_directory_def Let_def split: option.split)

lemma repair_pane_ok:
  assumes "server_ok sv" "valid_path directory" "repair_pane pid directory sv = (r, sv')"
  shows "server_ok sv'"
proof -
  obtain x n where a: "repair_directory pid directory (sv_state sv) = (x, n)" by fastforce
  show ?thesis
  proof (cases x)
    case (Inr u)
    have "sound n" using repair_directory_sound [OF server_okD(1) [OF assms(1)] assms(2)] a Inr by simp
    moreover have "st_creator_boot n = Some (sv_boot sv)"
      using repair_directory_boot [of pid directory "sv_state sv"] a server_okD(2) [OF assms(1)] by simp
    ultimately have "server_ok (commit n sv)" by (rule commit_ok [OF assms(1)])
    then show ?thesis using assms(3) a Inr by (auto simp: repair_pane_def)
  qed (use assms(1,3) a in \<open>simp add: repair_pane_def\<close>)
qed

section \<open>Worktree writes\<close>

lemma finish_operation_ok:
  assumes "server_ok sv" "sound s" "st_creator_boot s = Some (sv_boot sv)" "finish_operation device sequence out s sv = (r, sv')"
  shows "server_ok sv'"
proof -
  obtain x n where a: "finish_worktree device sequence out s = (x, n)" by fastforce
  have "sound n" "st_creator_boot n = Some (sv_boot sv)"
    using finish_worktree_sound [OF assms(2) a] finish_worktree_boot [of device sequence out s] a assms(3) by simp_all
  then have "server_ok (commit n sv)" using commit_ok [OF assms(1)] by simp
  then show ?thesis using assms(1,4) a by (auto simp: finish_operation_def split: sum.splits)
qed

lemma retained_bounded:
  assumes "sound s" "outcome_of s device sequence = Some r"
  shows "is_bounded (ro_mutation r)"
proof -
  have ok: "outcomes_ok s" using assms(1) by (simp add: sound_split)
  then obtain d where "d \<in> set (st_devices s)" "r \<in> set (d_pending d)" using assms(2) outcome_of_iff by blast
  then show ?thesis using ok by (auto simp: outcomes_ok_def device_ok_def retained_ok_def)
qed

text \<open>A Tab added for a finished or prepared operation.\<close>

lemma added_tab_ok:
  assumes "server_ok sv" "fresh_ids rnd (sv_state sv)" "valid_path root" "valid_path path" "valid_path start"
    "add_worktree_tab rnd by w root path start (sv_state sv) = (x, n)"
  shows "x = Inr i \<Longrightarrow> sound n" "st_creator_boot n = Some (sv_boot sv)" "x = Inl e \<Longrightarrow> n = sv_state sv"
  using add_worktree_tab_sound [OF server_okD(1) [OF assms(1)] assms(2-5)] assms(6)
    add_worktree_tab_boot [of rnd "by" w root path start "sv_state sv"] server_okD(2) [OF assms(1)]
  by (simp_all, auto simp: add_worktree_tab_def Let_def split: if_splits option.splits)

lemma settle_worktree_ok:
  assumes "server_ok sv" "fresh_ids rnd (sv_state sv)" "\<And>path. result = Inr (Some path) \<Longrightarrow> valid_path path"
    "settle_worktree rnd sr device sequence result sv = (r, sv')"
  shows "server_ok sv'"
proof -
  note ok = server_okD [OF assms(1)] and finish = finish_operation_ok [OF assms(1)]
  have as_is: "finish_operation device sequence out (sv_state sv) sv = (r, sv') \<Longrightarrow> server_ok sv'" for out
    by (rule finish [OF ok(1,2)])
  show ?thesis
  proof (cases "\<exists>out. finish_operation device sequence out (sv_state sv) sv = (r, sv') \<or> sv' = sv")
    case False
    then obtain c workspace root p branch control path where c: "outcome_of (sv_state sv) device sequence = Some c"
      and op: "ro_mutation c = Worktree (Create workspace root p branch control)" and res: "result = Inr (Some path)"
      using assms(4) by (auto simp: settle_worktree_def split: option.splits sum.splits mutation.splits operation.splits)
    obtain x n where a: "add_worktree_tab rnd (creator control device (inventory_now sr sv)) workspace root path path (sv_state sv) = (x, n)"
      by fastforce
    have vp: "valid_path root" "valid_path path"
      using retained_bounded [OF ok(1) c] assms(3) res by (simp_all add: op)
    note added = added_tab_ok [OF assms(1,2) vp vp(2) a]
    have "finish_operation device sequence (WorktreeFailed Interrupted) n sv = (r, sv') \<or>
        (\<exists>i. x = Inr i \<and> finish_operation device sequence (Accepted i) n sv = (r, sv'))"
      using assms(4) c op res a by (auto simp: settle_worktree_def split: sum.splits)
    then show ?thesis using added finish as_is False by (cases x) blast+
  qed (use as_is assms(1) in blast)
qed

lemma open_prepared_ok:
  assumes "server_ok sv" "surroundings_ok sr" "fresh_ids rnd (sv_state sv)" "valid_path root" "valid_path path"
    "open_prepared rnd sr device sequence workspace source root path control sv = (r, sv')"
  shows "server_ok sv'"
proof -
  note ok = server_okD [OF assms(1)] and finish = finish_operation_ok [OF assms(1)]
  have as_is: "finish_operation device sequence out (sv_state sv) sv = (r, sv') \<Longrightarrow> server_ok sv'" for out
    by (rule finish [OF ok(1,2)])
  show ?thesis
  proof (cases "\<exists>out. finish_operation device sequence out (sv_state sv) sv = (r, sv')")
    case False
    then obtain w start where w: "find_workspace (st_inventory (sv_state sv)) workspace = Some w"
      and start: "starting_directory (sr_files sr) w source path = Inr start"
      using assms(6) by (auto simp: open_prepared_def Let_def split: option.splits sum.splits)
    obtain x n where a: "add_worktree_tab rnd (creator control device (inventory_now sr sv)) workspace root path start (sv_state sv) = (x, n)"
      by fastforce
    note added = added_tab_ok [OF assms(1,3,4,5) starting_directory_valid [OF assms(2) start] a]
    have "(\<exists>out. isl x \<and> finish_operation device sequence out n sv = (r, sv')) \<or>
        (\<exists>i. x = Inr i \<and> finish_operation device sequence (Accepted i) n sv = (r, sv'))"
      using assms(6) w start a by (auto simp: open_prepared_def Let_def split: sum.splits)
    then show ?thesis using added finish False by (cases x) auto
  qed (use as_is in blast)
qed

text \<open>What a preflight may hand over: valid paths, and a plan whose paths are valid.\<close>

definition prepared_ok :: "prepared \<Rightarrow> bool" where
  "prepared_ok p = (case p of
     PreparedOpen _ _ root path _ \<Rightarrow> valid_path root \<and> valid_path path
   | PreparedWrite None \<Rightarrow> True
   | PreparedWrite (Some plan) \<Rightarrow> valid_path (rm_root (rp_review plan)) \<and> valid_path (rp_fallback plan))"

lemma draws_fresh_ids: "draws_fresh rnd s \<Longrightarrow> fresh_ids (rnd k) s"
  unfolding fresh_ids_def by (auto simp: draws_freshD split: option.split)

lemma draws_fresh_later: "draws_fresh rnd s \<Longrightarrow> draws_fresh (rnd \<circ> Suc) s"
  unfolding draws_fresh_def comp_apply by (metis Suc_inject)

lemma start_prepared_ok:
  assumes "server_ok sv" "surroundings_ok sr" "draws_fresh rnd (sv_state sv)" "prepared_ok prepared"
    "start_prepared rnd sr device sequence prepared sv = (r, sv')"
  shows "server_ok sv'"
proof (cases prepared)
  case (PreparedOpen w source root path control)
  then show ?thesis
    using assms(4,5) open_prepared_ok [OF assms(1,2) draws_fresh_ids [OF assms(3)]]
    by (auto simp: start_prepared_def prepared_ok_def)
next
  case (PreparedWrite plan)
  note ok = server_okD [OF assms(1)]
  obtain x n where c: "check_write rnd sr device sequence plan sv = (x, n)" by fastforce
  show ?thesis
  proof (cases x)
    case (Inl e)
    then show ?thesis
      using assms(5) c PreparedWrite settle_worktree_ok [OF assms(1) draws_fresh_ids [OF assms(3)], of "Inl e"]
      by (auto simp: start_prepared_def)
  next
    case (Inr u)
    then have "n = sv_state sv \<or> (\<exists>p. plan = Some p \<and>
        apply_plan (rnd \<circ> Suc) device (inventory_now sr sv) p (sv_state sv) = (Inr (), n))"
      using c by (auto simp: check_write_def Let_def split: option.splits sum.splits prod.splits mutation.splits operation.splits)
    then have "sound n \<and> st_creator_boot n = Some (sv_boot sv)"
    proof (elim disjE exE conjE)
      fix p
      assume p: "plan = Some p" "apply_plan (rnd \<circ> Suc) device (inventory_now sr sv) p (sv_state sv) = (Inr (), n)"
      have "sound n"
        using apply_plan_sound [OF ok(1) draws_fresh_later [OF assms(3)] _ _ p(2) [unfolded inventory_now_published]]
          assms(4) PreparedWrite p(1) by (simp add: prepared_ok_def)
      then show ?thesis
        using apply_plan_boot [of "rnd \<circ> Suc" device "inventory_now sr sv" p "sv_state sv"] p(2) ok(2) by simp
    qed (use ok in simp)
    then show ?thesis
      using assms(5) c PreparedWrite Inr commit_ok [OF assms(1)] by (auto simp: start_prepared_def)
  qed
qed

text \<open>What a job of git may report.\<close>

definition job_ok :: "job_result \<Rightarrow> bool" where
  "job_ok j = (case j of JobPrepared (Inr p) \<Rightarrow> prepared_ok p | JobFinished (Inr (Some path)) \<Rightarrow> valid_path path | _ \<Rightarrow> True)"

lemma finish_job_ok:
  assumes "server_ok sv" "surroundings_ok sr" "draws_fresh rnd (sv_state sv)" "job_ok result" "finish_job rnd sr result sv = (r, sv')"
  shows "server_ok sv'"
proof -
  have settle: "server_ok sv'" if "settle_worktree (rnd 0) sr device sequence res sv = (r, sv')"
      "\<forall>path. res = Inr (Some path) \<longrightarrow> valid_path path" for device sequence res
    using settle_worktree_ok [OF assms(1) draws_fresh_ids [OF assms(3)] _ that(1)] that(2) by blast
  consider "sv' = sv" | device sequence e where "settle_worktree (rnd 0) sr device sequence (Inl e) sv = (r, sv')"
    | device sequence p where "prepared_ok p" "start_prepared rnd sr device sequence p sv = (r, sv')"
    | device sequence x where "settle_worktree (rnd 0) sr device sequence (Inr x) sv = (r, sv')" "result = JobFinished (Inr x)"
    using assms(4,5) by (auto simp: finish_job_def job_ok_def split: option.splits job_result.splits sum.splits)
  then show ?thesis
    using assms(1,4) settle start_prepared_ok [OF assms(1-3)] by cases (auto simp: job_ok_def split: option.splits)
qed

lemma settle_interrupted_ok:
  "server_ok sv \<Longrightarrow> settle_interrupted sr rs sv = (r, sv') \<Longrightarrow> server_ok sv'"
proof (induction rs arbitrary: sv)
  case (Cons x rs)
  obtain device c where x: "x = (device, c)" by fastforce
  obtain y n where n: "settle_worktree (\<lambda>_. None) sr device (ro_sequence c) (Inl Interrupted) sv = (y, n)" by fastforce
  have "fresh_ids (\<lambda>_. None) (sv_state sv)" by (simp add: fresh_ids_def)
  then have "server_ok n" using settle_worktree_ok [OF Cons.prems(1) _ _ n] by blast
  then show ?case using Cons.IH [of n] Cons.prems(2) n by (auto simp: x split: sum.splits)
qed simp

section \<open>Synchronizing\<close>

definition host_ok :: "pane_host \<Rightarrow> bool" where
  "host_ok h = (case ph_identity h of Some (Some path) \<Rightarrow> valid_path path | _ \<Rightarrow> True)"

lemma directory_boots [simp]:
  "st_creator_boot (confirm_directory pid path s) = st_creator_boot s"
  "st_creator_boot (present_directory pid path s) = st_creator_boot s"
  "st_creator_boot (present_repository_directory pid path s) = st_creator_boot s"
  "st_creator_boot (present_presentation pid snap s) = st_creator_boot s"
  by (rule boot_of_frame, simp add: confirm_directory_def present_directory_def present_repository_directory_def
      present_presentation_def split: option.split)+

lemma synchronize_pane_ok:
  assumes "sound s" "host_ok (snd host)"
  shows "sound (synchronize_pane host s) \<and> st_creator_boot (synchronize_pane host s) = st_creator_boot s"
proof -
  obtain pid h where host: "host = (pid, h)" by fastforce
  define n where "n = (case ph_metadata h of None \<Rightarrow> s
    | Some (directory, repository) \<Rightarrow> present_repository_directory pid repository (present_directory pid directory s))"
  have n: "sound n" "st_creator_boot n = st_creator_boot s"
    using assms(1) by (simp_all add: n_def present_directory_sound present_repository_directory_sound split: option.split)
  have "synchronize_pane host s = (case ph_identity h of Some (Some path) \<Rightarrow> confirm_directory pid path n
      | Some None \<Rightarrow> n | None \<Rightarrow> if pane_of n pid \<noteq> None then remove_pane pid n else n)"
    by (simp only: synchronize_pane_def host Let_def prod.case n_def)
  then show ?thesis
    using n assms(2) by (auto simp: host host_ok_def confirm_directory_sound remove_pane_sound remove_pane_boot split: option.splits)
qed

lemma synchronized_ok:
  assumes "sound s" "\<forall>host\<in>set hosts. host_ok (snd host)" "snapshot_paths_ok snapshot"
  shows "sound (synchronized hosts snapshot s) \<and> st_creator_boot (synchronized hosts snapshot s) = st_creator_boot s"
proof -
  have "sound (fold synchronize_pane hosts s) \<and> st_creator_boot (fold synchronize_pane hosts s) = st_creator_boot s"
    using assms(1,2)
  proof (induction hosts arbitrary: s)
    case (Cons h hosts)
    then show ?case using synchronize_pane_ok [of s h] Cons.IH [of "synchronize_pane h s"] by simp
  qed simp
  then show ?thesis
    using reconcile_membership_sound [OF _ assms(3)]
    by (simp add: synchronized_def) (simp add: reconcile_membership_def Let_def)
qed

section \<open>Steps of a server\<close>

text \<open>One rule per operation the host runs on its state. A restart drops everything but what was
  submitted to the journal; \<open>restore\<close> reads one of those records back, or none.\<close>

inductive server_step :: "server \<Rightarrow> server \<Rightarrow> bool" where
  edit: "surroundings_ok sr \<Longrightarrow> fresh_ids rnd (sv_state sv) \<Longrightarrow> mutate rnd sr te device sequence mutation sv = (r, sv') \<Longrightarrow>
     server_step sv sv'"
| retire: "retire_outcome device sequence sv = (r, sv') \<Longrightarrow> server_step sv sv'"
| revoke: "server_step sv (forget_device device sv)"
| repair: "valid_path directory \<Longrightarrow> repair_pane pid directory sv = (r, sv') \<Longrightarrow> server_step sv sv'"
| initial: "fresh_ids rnd (sv_state sv) \<Longrightarrow> prepare_initial_organization rnd sv = (r, sv') \<Longrightarrow> server_step sv sv'"
| job: "surroundings_ok sr \<Longrightarrow> draws_fresh rnds (sv_state sv) \<Longrightarrow> job_ok result \<Longrightarrow> finish_job rnds sr result sv = (r, sv') \<Longrightarrow>
     server_step sv sv'"
| interrupted: "settle_interrupted sr (pending_worktrees (sv_state sv)) sv = (r, sv') \<Longrightarrow> server_step sv sv'"
| forgotten: "server_step sv (forget_waiting sv)"
| synchronize: "\<forall>host\<in>set hosts. host_ok (snd host) \<Longrightarrow> snapshot_paths_ok snapshot \<Longrightarrow>
     server_step sv (commit (synchronized hosts snapshot (sv_state sv)) sv)"
| presentation: "(case snap of None \<Rightarrow> True | Some x \<Rightarrow> snapshot_valid x) \<Longrightarrow>
     server_step sv (sv\<lparr>sv_state := present_presentation pid snap (sv_state sv)\<rparr>)"
| restore: "retained = None \<or> (\<exists>e\<in>set (sv_submitted sv). retained = Some e) \<Longrightarrow>
     server_step sv (restore_organization retained sv)"
| restart: "valid_path directory \<Longrightarrow> server_step sv ((with_sync boot directory)\<lparr>sv_submitted := sv_submitted sv\<rparr>)"

definition server_runs :: "server \<Rightarrow> bool" where
  "server_runs sv \<longleftrightarrow> (\<exists>boot directory. valid_path directory \<and> server_step\<^sup>*\<^sup>* (with_sync boot directory) sv)"

lemma begin_boot_facts [simp]:
  "st_creator_boot (begin_boot boot s) = Some boot" "inv_close (st_inventory (begin_boot boot s)) = inv_close (st_inventory s)"
  by (simp_all add: begin_boot_def)

lemma with_sync_ok: "valid_path directory \<Longrightarrow> server_ok (with_sync boot directory)"
  by (simp add: server_ok_def settled_state_def with_sync_def begin_boot_sound empty_state_sound) (simp add: empty_state_def)

lemma server_restore_ok:
  assumes "server_ok sv" "retained = None \<or> (\<exists>e\<in>set (sv_submitted sv). retained = Some e)"
  shows "server_ok (restore_organization retained sv)"
proof -
  let ?s = "case retained of None \<Rightarrow> empty_state | Some s \<Rightarrow> s"
  have "sound ?s" "inv_close (st_inventory ?s) = None"
    using assms empty_state_sound by (auto simp: server_ok_def) (simp add: empty_state_def)
  then show ?thesis
    using assms(1) begin_boot_sound [of ?s] by (simp add: restore_organization_def server_ok_def settled_state_def)
qed

lemma server_step_ok: "server_step sv sv' \<Longrightarrow> server_ok sv \<Longrightarrow> server_ok sv'"
proof (induction rule: server_step.induct)
  case (synchronize hosts snapshot sv)
  then show ?case using synchronized_ok [OF server_okD(1)] server_okD(2) by (intro commit_ok) auto
next
  case (presentation snap sv pid)
  have "inv_close (st_inventory (present_presentation pid snap (sv_state sv))) = inv_close (st_inventory (sv_state sv))"
    by (simp add: present_presentation_def put_pane_def put_tab_of_pane_def)
  then show ?case
    using presentation present_presentation_sound [OF server_okD(1)] by (simp add: server_ok_def settled_state_def)
next
  case (restart directory sv boot)
  then show ?case using with_sync_ok [of directory boot] by (simp add: server_ok_def with_sync_def)
next
  case edit then show ?case by (blast intro: mutate_ok)
next
  case retire then show ?case by (blast intro: retire_outcome_ok)
next
  case revoke then show ?case by (rule forget_device_ok)
next
  case repair then show ?case by (blast intro: repair_pane_ok)
next
  case initial then show ?case by (blast intro: prepare_ok)
next
  case job then show ?case by (blast intro: finish_job_ok)
next
  case interrupted then show ?case by (blast intro: settle_interrupted_ok)
next
  case forgotten then show ?case by (rule forget_waiting_ok)
next
  case restore then show ?case by (blast intro: server_restore_ok)
qed

lemma server_runs_ok: "server_runs sv \<Longrightarrow> server_ok sv"
  unfolding server_runs_def by (elim exE conjE, erule rtranclp_induct) (auto intro: with_sync_ok server_step_ok)

text \<open>C11. A server that starts empty and serves any sequence of edits, acknowledgements, revocations,
  repairs, Worktree jobs, synchronizations, recoveries and restarts only ever holds a state that
  passes the state's check, and so does every record it hands to its journal.\<close>

theorem server_states_valid:
  assumes "server_runs sv"
  shows "validate (sv_state sv) \<and> (\<forall>e\<in>set (sv_submitted sv). validate e)"
  using server_runs_ok [OF assms] by (auto simp: server_ok_def settled_state_def sound_def)

text \<open>A server prepares its first Workspace and then opens a Tab for device 7.\<close>

definition demo_surroundings :: surroundings where
  "demo_surroundings = \<lparr>sr_hosts = (\<lambda>_. None), sr_observers = (\<lambda>_. None), sr_names = [], sr_snapshot = demo_facts,
     sr_files = \<lparr>valid_directory = (\<lambda>p. if valid_path p then Some p else None), physically_contains = (\<lambda>_ _. False)\<rparr>\<rparr>"

definition demo_first_ids :: "nat \<Rightarrow> Id option" where
  "demo_first_ids k = Some (1 + of_nat k)"

definition demo_prepared :: server where
  "demo_prepared = snd (prepare_initial_organization demo_first_ids (with_sync 9 (lit ''/home/dev'')))"

definition demo_served :: server where
  "demo_served = snd (mutate demo_ids demo_surroundings (\<lambda>_. None) 7 1 demo_edit demo_prepared)"

lemma demo_surroundings_ok: "surroundings_ok demo_surroundings"
  by (simp add: surroundings_ok_def demo_surroundings_def sessions_named_def live_of_def snapshot_paths_ok_def demo_facts_def run_simps)

lemma demo_served_runs: "server_runs demo_served"
proof -
  let ?s = "with_sync 9 (lit ''/home/dev'')"
  have "valid_path (lit ''/home/dev'')" by (simp add: run_simps)
  moreover have "fresh_ids demo_first_ids (sv_state ?s)"
    by (simp add: fresh_ids_def demo_first_ids_def state_ids_def with_sync_def begin_boot_def empty_state_def map_panes_def numeral_3_eq_3 less_Suc_eq)
  then have "server_step ?s demo_prepared"
    unfolding demo_prepared_def by (rule server_step.initial [OF _ prod.collapse [symmetric]])
  moreover have "fresh_ids demo_ids (sv_state demo_prepared)"
    by (simp add: fresh_ids_def demo_ids_def state_ids_def demo_prepared_def demo_first_ids_def workspace_ids_def tab_ids_def
        numeral_3_eq_3 less_Suc_eq run_simps)
  then have "server_step demo_prepared demo_served"
    unfolding demo_served_def by (rule server_step.edit [OF demo_surroundings_ok _ prod.collapse [symmetric]])
  ultimately show ?thesis unfolding server_runs_def by (meson converse_rtranclp_into_rtranclp rtranclp.rtrancl_refl)
qed

theorem server_states_valid_witness:
  "map (map tab_ids \<circ> w_tabs) (workspaces (sv_state demo_served)) = [[[2, 3], [10, 11]]] \<and>
   validate (sv_state demo_served) \<and> length (sv_submitted demo_served) = 2 \<and> list_all validate (sv_submitted demo_served)"
proof -
  have "map (map tab_ids \<circ> w_tabs) (workspaces (sv_state demo_served)) = [[[2, 3], [10, 11]]]" "length (sv_submitted demo_served) = 2"
    by (simp_all add: demo_served_def demo_prepared_def demo_first_ids_def demo_ids_def demo_edit_def demo_surroundings_def
        tab_ids_def run_simps)
  then show ?thesis using server_states_valid [OF demo_served_runs] by (simp add: list_all_iff)
qed

end
