(* ===== verification/Closing.thy ===== *)
theory Closing
  imports Pane_Metadata
begin

text \<open>
  Closing Panes, Tabs, Worktrees and Workspaces in a window (\<open>close_confirmation.rs\<close>): which Panes a person
  is asked about, the confirmation that is pending, and how far a close reaches up the hierarchy. The
  confirmation is a state machine: its traces show that an approval always answers the question that
  was asked, and that a question is approved at most once.
\<close>

section \<open>Which Panes need a confirmation\<close>

datatype failure_class = Pty | Emulator | Presentation | Platform | Resource

datatype recoverability = Recoverable | Fatal

text \<open>The kind of an input or output error is kept as a number.\<close>

datatype failure_reason = Io nat | OutOfMemory | InvalidValue | OutOfSpace | InvalidInput | InvalidUtf8 | CapacityExceeded | ChannelClosed

record terminal_failure =
  tf_class :: failure_class
  tf_recoverability :: recoverability
  tf_operation :: rust_string
  tf_reason :: "failure_reason option"

definition is_fatal :: "terminal_failure \<Rightarrow> bool" where
  "is_fatal f \<longleftrightarrow> tf_recoverability f = Fatal"

datatype session_exit = ExitSuccess | ExitCode nat | Signal rust_string | GracefulShutdown | ForcedShutdown

datatype pane_terminal_state =
  StateRunning
| StateExited session_exit
| StateFailed terminal_failure "u64 option"  \<comment> \<open>failure, last valid frame\<close>

fun state_failure :: "pane_terminal_state \<Rightarrow> terminal_failure option" where
  "state_failure (StateFailed f _) = Some f"
| "state_failure StateRunning = None"
| "state_failure (StateExited _) = None"

text \<open>Of the metadata snapshot the decision reads the freshness, the command's state and the prompt zone.\<close>

record pane_close_facts =
  pf_live_session :: bool
  pf_state :: pane_terminal_state
  pf_disconnected :: bool
  pf_freshness :: freshness
  pf_command :: "command_state option"
  pf_prompt_zone :: prompt_zone

definition requires_confirmation :: "pane_close_facts \<Rightarrow> bool" where
  "requires_confirmation f =
     (if \<not> pf_live_session f \<or> (case pf_state f of StateExited _ \<Rightarrow> True | _ \<Rightarrow> False)
        \<or> (case state_failure (pf_state f) of None \<Rightarrow> False | Some failure \<Rightarrow> is_fatal failure) \<or> pf_disconnected f
      then False
      else if pf_freshness f = Stale then True
      else if case pf_command f of Some (Finished _ _) \<Rightarrow> True | _ \<Rightarrow> False then False
      else pf_prompt_zone f = ZoneUnknown \<or> pf_prompt_zone f = CommandOutput)"

section \<open>The pending confirmation\<close>

datatype window_target =
  PaneTarget u64 u64 u64  \<comment> \<open>Workspace, Tab, Pane\<close>
| TabTarget u64 u64
| WorktreeTarget u64 u64
| KillWorkspace u64

record pending_close =
  pc_generation :: u64
  pc_target :: window_target

record close_state =
  cs_generation :: u64
  cs_pending :: "pending_close option"

definition no_close :: close_state where
  "no_close = \<lparr>cs_generation = 0, cs_pending = None\<rparr>"

definition begin_close :: "window_target \<Rightarrow> close_state \<Rightarrow> u64 option \<times> close_state" where
  "begin_close target c =
     (if cs_pending c \<noteq> None then (None, c)
      else case checked_add (cs_generation c) 1 of
        None \<Rightarrow> (None, c)
      | Some g \<Rightarrow> (Some g, c\<lparr>cs_generation := g, cs_pending := Some \<lparr>pc_generation = g, pc_target = target\<rparr>\<rparr>))"

definition settle_approval :: "u64 \<Rightarrow> window_target \<Rightarrow> bool \<Rightarrow> close_state \<Rightarrow> bool \<times> close_state" where
  "settle_approval g target confirmed c =
     (if cs_pending c \<noteq> Some \<lparr>pc_generation = g, pc_target = target\<rparr> then (False, c)
      else (confirmed, c\<lparr>cs_pending := None\<rparr>))"

definition presentation_failed :: "u64 \<Rightarrow> close_state \<Rightarrow> close_state" where
  "presentation_failed g c =
     (case cs_pending c of
        Some p \<Rightarrow> if pc_generation p = g then c\<lparr>cs_pending := None\<rparr> else c
      | None \<Rightarrow> c)"

section \<open>How far a close reaches\<close>

datatype hierarchy_close = ClosePane | CloseTab

datatype close_continuation = RemoveOnly | Parent

definition resolve_close :: "hierarchy_close \<Rightarrow> nat \<Rightarrow> close_continuation" where
  "resolve_close level siblings =
     (if 1 < siblings then RemoveOnly else case level of ClosePane \<Rightarrow> Parent | CloseTab \<Rightarrow> Parent)"

datatype 'a close_pane_outcome =
  PaneClosed u64 u64 'a  \<comment> \<open>closed Pane, focused Pane, what it held\<close>
| PaneClosesTab u64

datatype 'a close_tab_outcome =
  TabClosed u64 u64 'a  \<comment> \<open>closed Tab, Active Tab, what it held\<close>
| TabClosesWorkspace u64

lemma resolve_close_simps [simp]:
  "resolve_close level n = RemoveOnly \<longleftrightarrow> 1 < n" "resolve_close level n = Parent \<longleftrightarrow> n \<le> 1"
  by (auto simp: resolve_close_def split: hierarchy_close.split)

section \<open>Traces of a confirmation\<close>

text \<open>What a window does to its confirmation, with the answer the confirmation gave.\<close>

datatype close_event =
  Began window_target "u64 option"
| Settled u64 window_target bool bool  \<comment> \<open>generation, target, what the person said, the answer\<close>
| Failed u64

inductive close_step :: "close_state \<Rightarrow> close_event \<Rightarrow> close_state \<Rightarrow> bool" where
  begins: "begin_close target c = (answer, c') \<Longrightarrow> close_step c (Began target answer) c'"
| settles: "settle_approval g target confirmed c = (answer, c') \<Longrightarrow> close_step c (Settled g target confirmed answer) c'"
| fails: "close_step c (Failed g) (presentation_failed g c)"

inductive close_trace :: "close_event list \<Rightarrow> close_state \<Rightarrow> bool" where
  started: "close_trace [] no_close"
| continued: "close_trace es c \<Longrightarrow> close_step c e c' \<Longrightarrow> close_trace (es @ [e]) c'"

inductive_cases close_stepE: "close_step c e c'"

definition approvals :: "u64 \<Rightarrow> close_event list \<Rightarrow> close_event list" where
  "approvals g es = filter (\<lambda>e. case e of Settled g' _ _ answer \<Rightarrow> g' = g \<and> answer | _ \<Rightarrow> False) es"

text \<open>The pending confirmation has the latest generation, it was begun for its target, and nobody has
  approved it; no later generation was ever begun or approved.\<close>

definition close_ok :: "close_event list \<Rightarrow> close_state \<Rightarrow> bool" where
  "close_ok es c \<longleftrightarrow>
     (\<forall>p. cs_pending c = Some p \<longrightarrow> pc_generation p = cs_generation c \<and>
        Began (pc_target p) (Some (pc_generation p)) \<in> set es \<and> approvals (pc_generation p) es = []) \<and>
     (\<forall>t g. Began t (Some g) \<in> set es \<longrightarrow> g \<le> cs_generation c) \<and>
     (\<forall>g. cs_generation c < g \<longrightarrow> approvals g es = [])"

lemma approvals_snoc [simp]:
  "approvals g (es @ [e]) = approvals g es @ (case e of Settled g' _ _ answer \<Rightarrow> if g' = g \<and> answer then [e] else [] | _ \<Rightarrow> [])"
  by (cases e) (auto simp: approvals_def)

lemma close_trace_ok: "close_trace es c \<Longrightarrow> close_ok es c"
proof (induction rule: close_trace.induct)
  case started
  then show ?case by (simp add: close_ok_def no_close_def approvals_def)
next
  case (continued es c e c')
  from continued(2) show ?case
  proof (cases rule: close_step.cases)
    case (begins target answer)
    then show ?thesis using continued(3)
      by (auto simp: close_ok_def begin_close_def checked_add_def le_SucI split: if_splits)
  next
    case (settles g target confirmed answer)
    then show ?thesis using continued(3)
      by (auto simp: close_ok_def settle_approval_def split: if_splits)
  next
    case (fails g)
    then show ?thesis using continued(3)
      by (auto simp: close_ok_def presentation_failed_def split: if_splits option.splits)
  qed
qed

lemma approvals_at_most_once: "close_trace es c \<Longrightarrow> length (approvals g es) \<le> 1"
proof (induction rule: close_trace.induct)
  case started
  then show ?case by (simp add: approvals_def)
next
  case (continued es c e c')
  note ok = close_trace_ok [OF continued(1)]
  from continued(2) show ?case
  proof (cases rule: close_step.cases)
    case (settles g' target confirmed answer)
    show ?thesis
    proof (cases "g' = g \<and> answer")
      case True
      then have "cs_pending c = Some \<lparr>pc_generation = g, pc_target = target\<rparr>"
        using settles by (auto simp: settle_approval_def split: if_splits)
      then have "approvals g es = []" using ok by (auto simp: close_ok_def)
      then show ?thesis using settles by simp
    next
      case False
      then show ?thesis using settles continued(3) by auto
    qed
  qed (use continued(3) in simp_all)
qed

section \<open>Properties\<close>

text \<open>
  C18. An approval answers the question that was asked. Whatever a window asked, answered and failed to
  present before, a close is approved only when the person said yes, only for the target the
  confirmation of that generation was begun for, and no generation is approved twice. A confirmation
  that is pending keeps others from beginning, and an answer always ends it.
\<close>

theorem approval_answers_question:
  assumes "close_trace es c"
  shows "length (approvals g es) \<le> 1 \<and>
    (settle_approval g t said c = (True, c') \<longrightarrow>
       said \<and> Began t (Some g) \<in> set es \<and> approvals g es = [] \<and> cs_pending c' = None) \<and>
    (cs_pending c = Some p \<longrightarrow> begin_close t c = (None, c) \<and>
       settle_approval (pc_generation p) (pc_target p) said c = (said, c\<lparr>cs_pending := None\<rparr>))"
proof -
  have "said \<and> Began t (Some g) \<in> set es \<and> approvals g es = [] \<and> cs_pending c' = None"
    if "settle_approval g t said c = (True, c')"
  proof -
    have "cs_pending c = Some \<lparr>pc_generation = g, pc_target = t\<rparr>" "said" "cs_pending c' = None"
      using that by (auto simp: settle_approval_def split: if_splits)
    then show ?thesis using close_trace_ok [OF assms] by (auto simp: close_ok_def)
  qed
  then show ?thesis using approvals_at_most_once [OF assms] by (auto simp: begin_close_def settle_approval_def)
qed

theorem approval_answers_question_witness:
  "\<exists>c. close_trace [Began (TabTarget 1 2) (Some 1)] c \<and>
     settle_approval 1 (TabTarget 1 2) True c = (True, \<lparr>cs_generation = 1, cs_pending = None\<rparr>) \<and>
     length (approvals 1 [Began (TabTarget 1 2) (Some 1)]) \<le> 1"
proof -
  let ?c = "\<lparr>cs_generation = 1, cs_pending = Some \<lparr>pc_generation = 1, pc_target = TabTarget 1 2\<rparr>\<rparr>"
  have "close_step no_close (Began (TabTarget 1 2) (Some 1)) ?c"
    by (intro close_step.begins) (simp add: begin_close_def no_close_def checked_add_def u64_max_def)
  then have "close_trace ([] @ [Began (TabTarget 1 2) (Some 1)]) ?c" by (intro close_trace.continued [OF close_trace.started])
  then have trace: "close_trace [Began (TabTarget 1 2) (Some 1)] ?c" by simp
  show ?thesis
    using trace approval_answers_question [OF trace, where g = 1 and t = "TabTarget 1 2" and said = True
        and p = "\<lparr>pc_generation = 1, pc_target = TabTarget 1 2\<rparr>"] by auto
qed

end
