(* ===== verification/Parked_Order.thy ===== *)
theory Parked_Order
  imports Prelude
begin

text \<open>
  An order in which some elements are hidden: what both the Workspaces of a window and the Tabs of a
  Worktree promise while a close waits for its server. A parked element keeps its place, so a
  refused close puts it back where it was, in whichever order several of them come back. The code
  keeps the visible elements and the positions of the parked ones; \<open>shown\<close> and \<open>hidden_at\<close> are those
  two views of one order.
\<close>

section \<open>An order with hidden elements\<close>

definition shown :: "(bool \<times> 'e) list \<Rightarrow> 'e list" where
  "shown L = map snd (filter (\<lambda>x. \<not> fst x) L)"

fun hidden_at :: "nat \<Rightarrow> (bool \<times> 'e) list \<Rightarrow> (nat \<times> 'e) list" where
  "hidden_at k [] = []"
| "hidden_at k ((h, e) # L) = (if h then (k, e) # hidden_at (Suc k) L else hidden_at (Suc k) L)"

text \<open>The order two such views come from.\<close>

fun merged :: "nat \<Rightarrow> (nat \<times> 'e) list \<Rightarrow> 'e list \<Rightarrow> (bool \<times> 'e) list" where
  "merged k [] vs = map (Pair False) vs"
| "merged k ((p, e) # ps) [] = (True, e) # merged (Suc k) ps []"
| "merged k ((p, e) # ps) (v # vs) =
     (if p \<le> k then (True, e) # merged (Suc k) ps (v # vs) else (False, v) # merged (Suc k) ((p, e) # ps) vs)"

definition mark :: "('e \<Rightarrow> 'k) \<Rightarrow> bool \<Rightarrow> 'k \<Rightarrow> (bool \<times> 'e) list \<Rightarrow> (bool \<times> 'e) list" where
  "mark key h k L = map (\<lambda>x. if key (snd x) = k then (h, snd x) else x) L"

lemma shown_simps [simp]:
  "shown [] = []" "shown (L @ M) = shown L @ shown M" "shown ((h, e) # L) = (if h then shown L else e # shown L)"
  by (simp_all add: shown_def)

lemma hidden_at_append [simp]: "hidden_at k (L @ M) = hidden_at k L @ hidden_at (k + length L) M"
  by (induction L arbitrary: k) auto

lemma hidden_at_range: "(p, e) \<in> set (hidden_at k L) \<Longrightarrow> k \<le> p \<and> p < k + length L"
  by (induction L arbitrary: k) (force split: if_splits)+

lemma set_shown_hidden: "set (map snd L) = set (shown L) \<union> snd ` set (hidden_at k L)"
proof (induction L arbitrary: k)
  case (Cons x L)
  show ?case using Cons.IH [of "Suc k"] by (cases x) auto
qed simp

lemma shown_away: "i \<notin> (k \<circ> snd) ` set L \<Longrightarrow> i \<notin> k ` set (shown L)"
  by (auto simp: shown_def)

lemma length_shown: "length L = length (shown L) + length (hidden_at k L)"
  by (induction L arbitrary: k) auto

lemma merged_views: "merged k (hidden_at k L) (shown L) = L"
proof (induction L arbitrary: k)
  case (Cons x L)
  obtain h e where x: "x = (h, e)" by fastforce
  have all_hidden: "merged k (hidden_at k' M) [] = M" if "shown M = []" for k k' M
    using that by (induction M arbitrary: k k') (auto split: if_splits)
  have vis: "merged k (hidden_at (Suc k) L) (e # shown L) = (False, e) # merged (Suc k) (hidden_at (Suc k) L) (shown L)" for e
  proof (cases "hidden_at (Suc k) L")
    case (Cons y ys)
    then have "Suc k \<le> fst y" using hidden_at_range [of "fst y" "snd y" "Suc k" L] by simp
    then show ?thesis using Cons by (cases y) simp
  qed simp
  show ?case
  proof (cases h)
    case True
    then show ?thesis using Cons.IH [of "Suc k"] by (cases "shown L") (simp_all add: x)
  next
    case False
    then show ?thesis using Cons.IH [of "Suc k"] vis by (simp add: x)
  qed
qed simp

lemma mark_simps [simp]:
  "length (mark key h k L) = length L" "map snd (mark key h k L) = map snd L"
  "mark key h k (L @ M) = mark key h k L @ mark key h k M" "mark key h k [] = []"
  "mark key h k (x # L) = (if key (snd x) = k then (h, snd x) else x) # mark key h k L"
  by (simp_all add: mark_def comp_def)

lemma mark_other: "k \<notin> set (map (key \<circ> snd) L) \<Longrightarrow> mark key h k L = L"
  by (induction L) (auto simp: mark_def)

lemma mark_mark: "mark key h k (mark key h' k L) = mark key h k L"
  by (simp add: mark_def comp_def)

lemma mark_commute: "k \<noteq> j \<Longrightarrow> mark key h k (mark key h' j L) = mark key h' j (mark key h k L)"
  by (simp add: mark_def)

lemma mark_same:
  assumes "distinct (map (key \<circ> snd) L)" "(h, e) \<in> set L" "key e = k"
  shows "mark key h k L = L"
proof -
  have "x = (h, snd x)" if "x \<in> set L" "key (snd x) = k" for x
    using inj_onD [OF conjunct2 [OF assms(1) [unfolded distinct_map]], of x "(h, e)"] assms(2,3) that by simp
  then have "\<forall>x\<in>set L. (if key (snd x) = k then (h, snd x) else x) = x" by metis
  then show ?thesis by (simp add: mark_def map_idI)
qed

lemma set_mark: "(h', e) \<in> set L \<Longrightarrow> key e \<noteq> k \<Longrightarrow> (h', e) \<in> set (mark key h k L)"
  "(h', e) \<in> set L \<Longrightarrow> key e = k \<Longrightarrow> (h, e) \<in> set (mark key h k L)"
  by (auto simp: mark_def image_iff intro!: bexI [of _ "(h', e)"])

section \<open>Positions among hidden elements\<close>

text \<open>The place in the whole order of the element at a visible position, from the sorted positions of
  the hidden ones.\<close>

definition skip_hidden :: "(nat \<times> 'e) list \<Rightarrow> nat \<Rightarrow> nat" where
  "skip_hidden ps v = fold (\<lambda>(p, _) v. if p \<le> v then v + 1 else v) ps v"

lemma skip_hidden_before: "skip_hidden (hidden_at k L) (k + length (shown L)) = k + length L"
proof (induction L arbitrary: k)
  case (Cons x L)
  show ?case using Cons.IH [of "Suc k"] by (cases x) (simp add: skip_hidden_def)
qed (simp add: skip_hidden_def)

lemma skip_hidden_after: "v < k \<Longrightarrow> skip_hidden (hidden_at k L) v = v"
proof (induction L arbitrary: k)
  case (Cons x L)
  then show ?case using Cons.IH [of "Suc k"] by (cases x) (simp add: skip_hidden_def)
qed (simp add: skip_hidden_def)

lemma skip_hidden_append: "skip_hidden (ps @ qs) v = skip_hidden qs (skip_hidden ps v)"
  by (simp add: skip_hidden_def)

lemma skip_hidden_place:
  "skip_hidden (hidden_at 0 (L @ (False, e) # M)) (length (shown L)) = length L"
  "skip_hidden (hidden_at 0 L @ hidden_at (Suc (length L)) M) (length (shown L)) = length L"
  using skip_hidden_before [of 0 L] skip_hidden_after [of "length L" "Suc (length L)" M] by (simp_all add: skip_hidden_append)

lemma hidden_at_shift: "map (\<lambda>(p, e). (if at < p then p - 1 else p, e)) (hidden_at (Suc k) M) = hidden_at k M" if "at \<le> k"
  using that by (induction M arbitrary: k) auto

lemma hidden_at_keep: "map (\<lambda>(p, e). (if at < p then p - 1 else p, e)) (hidden_at k M) = hidden_at k M" if "k + length M \<le> Suc at"
  using that by (induction M arbitrary: k) auto

section \<open>Taking the order apart\<close>

lemma remove_at_middle [simp]: "remove_at (length xs) (xs @ x # ys) = xs @ ys"
  by (simp add: remove_at_def)

lemma insert_at_middle [simp]: "insert_at (length xs) x (xs @ ys) = xs @ x # ys"
  by (simp add: insert_at_def)

lemma shown_split:
  assumes "n < length (shown L)"
  obtains A e B where "L = A @ (False, e) # B" "length (shown A) = n" "shown L ! n = e"
proof -
  have "\<exists>A e B. L = A @ (False, e) # B \<and> length (shown A) = n" using assms
  proof (induction L arbitrary: n)
    case (Cons x L)
    obtain h e where x: "x = (h, e)" by fastforce
    consider (first) "\<not> h" "n = 0" | (hid) h | (more) m where "\<not> h" "n = Suc m" by (cases n) auto
    then show ?case
    proof cases
      case first
      then have "x # L = [] @ (False, e) # L \<and> length (shown ([] :: (bool \<times> 'a) list)) = n" by (simp add: x)
      then show ?thesis by blast
    next
      case hid
      with Cons.prems have "n < length (shown L)" by (simp add: x)
      with Cons.IH obtain A e' B where "L = A @ (False, e') # B" "length (shown A) = n" by blast
      with hid have "x # L = (x # A) @ (False, e') # B \<and> length (shown (x # A)) = n" by (simp add: x)
      then show ?thesis by blast
    next
      case more
      with Cons.prems have "m < length (shown L)" by (simp add: x)
      with Cons.IH obtain A e' B where "L = A @ (False, e') # B" "length (shown A) = m" by blast
      with more have "x # L = (x # A) @ (False, e') # B \<and> length (shown (x # A)) = n" by (simp add: x)
      then show ?thesis by blast
    qed
  qed simp
  with that show ?thesis by (auto simp: nth_append)
qed

lemma hidden_split:
  assumes "n < length (hidden_at k L)"
  obtains A e B where "L = A @ (True, e) # B" "length (hidden_at k A) = n" "hidden_at k L ! n = (k + length A, e)"
proof -
  have "\<exists>A e B. L = A @ (True, e) # B \<and> length (hidden_at k A) = n" using assms
  proof (induction L arbitrary: n k)
    case (Cons x L)
    obtain h e where x: "x = (h, e)" by fastforce
    consider (first) h "n = 0" | (vis) "\<not> h" | (more) m where h "n = Suc m" by (cases n) auto
    then show ?case
    proof cases
      case first
      then have "x # L = [] @ (True, e) # L \<and> length (hidden_at k ([] :: (bool \<times> 'a) list)) = n" by (simp add: x)
      then show ?thesis by blast
    next
      case vis
      with Cons.prems have "n < length (hidden_at (Suc k) L)" by (simp add: x)
      with Cons.IH obtain A e' B where "L = A @ (True, e') # B" "length (hidden_at (Suc k) A) = n" by blast
      with vis have "x # L = (x # A) @ (True, e') # B \<and> length (hidden_at k (x # A)) = n" by (simp add: x)
      then show ?thesis by blast
    next
      case more
      with Cons.prems have "m < length (hidden_at (Suc k) L)" by (simp add: x)
      with Cons.IH obtain A e' B where "L = A @ (True, e') # B" "length (hidden_at (Suc k) A) = m" by blast
      with more have "x # L = (x # A) @ (True, e') # B \<and> length (hidden_at k (x # A)) = n" by (simp add: x)
      then show ?thesis by blast
    qed
  qed simp
  with that show ?thesis by (auto simp: nth_append)
qed

lemma hidden_insert: "length (takeWhile (\<lambda>(p, _). p < length A) (hidden_at 0 A @ hidden_at (Suc (length A)) B)) = length (hidden_at 0 A)"
proof -
  have "\<forall>x\<in>set (hidden_at 0 A). fst x < length A" using hidden_at_range [of _ _ 0 A] by fastforce
  then have "takeWhile (\<lambda>(p, _). p < length A) (hidden_at 0 A @ hidden_at (Suc (length A)) B) =
      hidden_at 0 A @ takeWhile (\<lambda>(p, _). p < length A) (hidden_at (Suc (length A)) B)"
    by (subst takeWhile_append2) (auto simp: case_prod_beta)
  moreover have "takeWhile (\<lambda>(p, _). p < length A) (hidden_at (Suc (length A)) B) = []"
    using hidden_at_range [of _ _ "Suc (length A)" B] by (cases "hidden_at (Suc (length A)) B") fastforce+
  ultimately show ?thesis by simp
qed

lemma hidden_retire:
  "map (\<lambda>(p, e). (if length A < p then p - 1 else p, e)) (hidden_at 0 A @ hidden_at (Suc (length A)) B) = hidden_at 0 (A @ B)"
  using hidden_at_keep [of 0 A "length A"] hidden_at_shift [of "length A" "length A" B] by simp

lemma hidden_length: "length A - length (hidden_at 0 A) = length (shown A)"
  using length_shown [of A 0] by simp

text \<open>Writing new visible elements over the old ones, around the hidden ones.\<close>

fun refill :: "'e list \<Rightarrow> (bool \<times> 'e) list \<Rightarrow> (bool \<times> 'e) list" where
  "refill vs [] = map (Pair False) vs"
| "refill vs ((True, e) # L) = (True, e) # refill vs L"
| "refill [] ((False, e) # L) = refill [] L"
| "refill (v # vs) ((False, e) # L) = (False, v) # refill vs L"

lemma refill_views:
  assumes "length vs = length (shown L)"
  shows "shown (refill vs L) = vs" "hidden_at k (refill vs L) = hidden_at k L" "mset (map snd (refill vs L)) + mset (shown L) = mset (map snd L) + mset vs"
  using assms by (induction vs L arbitrary: k rule: refill.induct) auto

section \<open>Parking and restoring\<close>

locale parked_order =
  fixes slots :: "'c \<Rightarrow> (bool \<times> 'e) list" and key :: "'e \<Rightarrow> 'k" and ok :: "'c \<Rightarrow> bool"
    and able :: "'k \<Rightarrow> 'c \<Rightarrow> bool" and park :: "'k \<Rightarrow> 'c \<Rightarrow> 'c" and restore :: "'k \<Rightarrow> 'c \<Rightarrow> 'c"
  assumes keys: "ok c \<Longrightarrow> distinct (map (key \<circ> snd) (slots c))"
    and park_marks: "ok c \<Longrightarrow> able k c \<Longrightarrow> (False, e) \<in> set (slots c) \<Longrightarrow> key e = k \<Longrightarrow>
      ok (park k c) \<and> slots (park k c) = mark key True k (slots c)"
    and restore_marks: "ok c \<Longrightarrow> (True, e) \<in> set (slots c) \<Longrightarrow> key e = k \<Longrightarrow>
      ok (restore k c) \<and> slots (restore k c) = mark key False k (slots c)"
begin

lemma park_restore:
  assumes "ok c" "able (key e) c" "(False, e) \<in> set (slots c)"
  shows "ok (restore (key e) (park (key e) c)) \<and> slots (restore (key e) (park (key e) c)) = slots c"
proof -
  note p = park_marks [OF assms refl]
  have "(True, e) \<in> set (slots (park (key e) c))" using p set_mark(2) [OF assms(3) refl] by simp
  then have "ok (restore (key e) (park (key e) c)) \<and>
      slots (restore (key e) (park (key e) c)) = mark key False (key e) (slots (park (key e) c))"
    using restore_marks p by blast
  then show ?thesis using p mark_same [OF keys [OF assms(1)] assms(3) refl] by (simp add: mark_mark)
qed

text \<open>Two parked elements come back to their places in either order.\<close>

lemma restore_either_order:
  assumes "ok c" "able (key e) c" "able (key f) (park (key e) c)" "(False, e) \<in> set (slots c)" "(False, f) \<in> set (slots c)"
    and "key e \<noteq> key f"
  shows "slots (restore (key e) (restore (key f) (park (key f) (park (key e) c)))) = slots c"
    "slots (restore (key f) (restore (key e) (park (key f) (park (key e) c)))) = slots c"
proof -
  let ?c = "park (key f) (park (key e) c)"
  note p = park_marks [OF assms(1,2,4) refl]
  have f: "(False, f) \<in> set (slots (park (key e) c))" using p set_mark(1) [OF assms(5), of key "key e" True] assms(6) by simp
  note q = park_marks [OF _ assms(3) f refl]
  have c: "ok ?c" "slots ?c = mark key True (key f) (mark key True (key e) (slots c))" using p q by auto
  have "(True, f) \<in> set (slots ?c)" using q p set_mark(2) [OF f refl] by simp
  moreover have "(True, e) \<in> set (slots ?c)"
    using c(2) set_mark(1) [OF set_mark(2) [where key = key and h = True, OF assms(4) refl], of key "key f" True] assms(6) by simp
  ultimately have r: "ok (restore (key f) ?c)" "slots (restore (key f) ?c) = mark key False (key f) (slots ?c)"
    "ok (restore (key e) ?c)" "slots (restore (key e) ?c) = mark key False (key e) (slots ?c)"
    "(True, e) \<in> set (slots ?c)" "(True, f) \<in> set (slots ?c)"
    using restore_marks [OF c(1)] by auto
  have "(True, e) \<in> set (slots (restore (key f) ?c))" "(True, f) \<in> set (slots (restore (key e) ?c))"
    using set_mark(1) [OF r(5), of key "key f" False] set_mark(1) [OF r(6), of key "key e" False] r(2,4) assms(6) by simp_all
  then have "slots (restore (key e) (restore (key f) ?c)) = mark key False (key e) (mark key False (key f) (slots ?c))"
    "slots (restore (key f) (restore (key e) ?c)) = mark key False (key f) (mark key False (key e) (slots ?c))"
    using restore_marks r by auto
  moreover have "mark key False (key e) (mark key False (key f) (slots ?c)) = slots c"
    using assms(6) mark_same [OF keys [OF assms(1)] assms(4) refl] mark_same [OF keys [OF assms(1)] assms(5) refl]
    by (simp add: c(2) mark_mark mark_commute [of "key e" "key f"])
  ultimately show "slots (restore (key e) (restore (key f) ?c)) = slots c" "slots (restore (key f) (restore (key e) ?c)) = slots c"
    using assms(6) mark_commute [of "key e" "key f" key False False "slots ?c"] by simp_all
qed

end

text \<open>An owner whose other operations do not look at whether an element is hidden. Between a park and its
  restore any number of them may run; the order at the end is the one they give without the park.\<close>

locale parked_steps = parked_order slots key ok able park restore
  for slots :: "'c \<Rightarrow> (bool \<times> 'e) list" and key :: "'e \<Rightarrow> 'k" and ok able park restore +
  fixes step :: "'o \<Rightarrow> 'c \<Rightarrow> 'c" and apart :: "'k \<Rightarrow> 'o \<Rightarrow> bool" and next_key :: "'c \<Rightarrow> 'n"
  assumes step_ok: "ok c \<Longrightarrow> ok (step a c)"
    and step_visible: "ok c \<Longrightarrow> apart k a \<Longrightarrow> (False, e) \<in> set (slots c) \<Longrightarrow> key e = k \<Longrightarrow>
      \<exists>e'. (False, e') \<in> set (slots (step a c)) \<and> key e' = k"
    and step_alike: "ok c \<Longrightarrow> ok d \<Longrightarrow> apart k a \<Longrightarrow> slots d = mark key True k (slots c) \<Longrightarrow> next_key d = next_key c \<Longrightarrow>
      (False, e) \<in> set (slots c) \<Longrightarrow> key e = k \<Longrightarrow>
      slots (step a d) = mark key True k (slots (step a c)) \<and> next_key (step a d) = next_key (step a c)"
    and park_next: "next_key (park k c) = next_key c"
begin

lemma steps_alike:
  assumes "ok c" "ok d" "list_all (apart k) as" "slots d = mark key True k (slots c)" "next_key d = next_key c"
    and "(False, e) \<in> set (slots c)" "key e = k"
  shows "ok (fold step as c) \<and> ok (fold step as d) \<and> slots (fold step as d) = mark key True k (slots (fold step as c)) \<and>
    (\<exists>e. (False, e) \<in> set (slots (fold step as c)) \<and> key e = k)"
  using assms
proof (induction as arbitrary: c d e)
  case (Cons a as)
  then have a: "apart k a" "list_all (apart k) as" by simp_all
  obtain e' where "(False, e') \<in> set (slots (step a c))" "key e' = k" using step_visible [OF Cons.prems(1) a(1) Cons.prems(6,7)] by blast
  moreover note alike = step_alike [OF Cons.prems(1,2) a(1) Cons.prems(4-7)]
  ultimately show ?case
    unfolding fold_simps
    by (intro Cons.IH [OF step_ok [OF Cons.prems(1)] step_ok [OF Cons.prems(2)] a(2) conjunct1 [OF alike] conjunct2 [OF alike]])
qed auto

lemma refused_leaves_no_trace:
  assumes "ok c" "able (key e) c" "(False, e) \<in> set (slots c)" "list_all (apart (key e)) as"
  shows "slots (restore (key e) (fold step as (park (key e) c))) = slots (fold step as c)"
proof -
  note p = park_marks [OF assms(1-3) refl]
  obtain f where f: "ok (fold step as c)" "ok (fold step as (park (key e) c))" "key f = key e"
    "slots (fold step as (park (key e) c)) = mark key True (key e) (slots (fold step as c))" "(False, f) \<in> set (slots (fold step as c))"
    using steps_alike [OF assms(1) _ assms(4) _ park_next assms(3) refl] p by auto
  have "(True, f) \<in> set (slots (fold step as (park (key e) c)))" using set_mark(2) [where key = key, OF f(5) f(3)] f(4) by simp
  then have "slots (restore (key e) (fold step as (park (key e) c))) = mark key False (key e) (slots (fold step as c))"
    using restore_marks [OF f(2) _ f(3)] f(4) by (simp add: mark_mark)
  then show ?thesis using mark_same [OF keys [OF f(1)] f(5) f(3)] by simp
qed

end

end
