(* ===== verification/Ordered_Map.thy ===== *)
theory Ordered_Map
  imports Prelude
begin

text \<open>
  The standard library's \<open>BTreeMap\<close> as the list of its entries in key order: insertion, removal, lookup,
  and the updates through \<open>values_mut\<close>.
\<close>

type_synonym ('k, 'v) omap = "('k \<times> 'v) list"

definition omap_ok :: "('k :: linorder, 'v) omap \<Rightarrow> bool" where
  "omap_ok m \<longleftrightarrow> sorted_wrt (<) (map fst m)"

fun omap_insert :: "'k :: linorder \<Rightarrow> 'v \<Rightarrow> ('k, 'v) omap \<Rightarrow> ('k, 'v) omap" where
  "omap_insert k v [] = [(k, v)]"
| "omap_insert k v ((j, w) # m) =
     (if k < j then (k, v) # (j, w) # m else if k = j then (k, v) # m else (j, w) # omap_insert k v m)"

definition omap_remove :: "'k \<Rightarrow> ('k, 'v) omap \<Rightarrow> ('k, 'v) omap" where
  "omap_remove k m = filter (\<lambda>x. fst x \<noteq> k) m"

definition omap_values :: "('k, 'v) omap \<Rightarrow> 'v list" where
  "omap_values m = map snd m"

definition omap_map :: "('v \<Rightarrow> 'w) \<Rightarrow> ('k, 'v) omap \<Rightarrow> ('k, 'w) omap" where
  "omap_map f m = map (\<lambda>(k, v). (k, f v)) m"

section \<open>Laws\<close>

lemma omap_ok_Nil [simp]: "omap_ok []"
  by (simp add: omap_ok_def)

lemma omap_ok_Cons: "omap_ok ((k, v) # m) \<longleftrightarrow> (\<forall>x\<in>set m. k < fst x) \<and> omap_ok m"
  by (auto simp: omap_ok_def)

lemma omap_ok_distinct: "omap_ok m \<Longrightarrow> distinct (map fst m)"
  by (simp add: omap_ok_def strict_sorted_iff)

lemma set_omap_insert: "omap_ok m \<Longrightarrow> set (omap_insert k v m) = insert (k, v) {x \<in> set m. fst x \<noteq> k}"
proof (induction k v m rule: omap_insert.induct)
  case (2 k v j w m)
  then show ?case by (auto simp: omap_ok_Cons split: if_splits)
qed simp

lemma omap_ok_insert: "omap_ok m \<Longrightarrow> omap_ok (omap_insert k v m)"
proof (induction k v m rule: omap_insert.induct)
  case (2 k v j w m)
  then show ?case by (auto simp: omap_ok_Cons set_omap_insert split: if_splits)
qed (simp add: omap_ok_Cons)

lemma map_of_omap_insert: "omap_ok m \<Longrightarrow> map_of (omap_insert k v m) = (map_of m)(k \<mapsto> v)"
proof (induction k v m rule: omap_insert.induct)
  case (2 k v j w m)
  then show ?case by (auto simp: omap_ok_Cons fun_eq_iff)
qed simp

lemma keys_omap_insert: "omap_ok m \<Longrightarrow> fst ` set (omap_insert k v m) = insert k (fst ` set m)"
  by (auto simp: set_omap_insert)

lemma omap_ok_remove [simp]: "omap_ok m \<Longrightarrow> omap_ok (omap_remove k m)"
  by (induction m) (auto simp: omap_remove_def omap_ok_Cons)

lemma map_of_omap_remove: "map_of (omap_remove k m) = (map_of m)(k := None)"
  by (induction m) (auto simp: omap_remove_def)

lemma keys_omap_remove [simp]: "fst ` set (omap_remove k m) = fst ` set m - {k}"
  by (auto simp: omap_remove_def)

lemma omap_ok_map [simp]: "omap_ok (omap_map f m) \<longleftrightarrow> omap_ok m"
  by (simp add: omap_ok_def omap_map_def comp_def case_prod_beta)

lemma keys_omap_map [simp]: "fst ` set (omap_map f m) = fst ` set m"
  by (force simp: omap_map_def)

lemma mset_omap_insert: "omap_ok m \<Longrightarrow> k \<notin> fst ` set m \<Longrightarrow> mset (omap_insert k v m) = add_mset (k, v) (mset m)"
proof (induction k v m rule: omap_insert.induct)
  case (2 k v j w m)
  then show ?case by (auto simp: omap_ok_Cons)
qed simp

lemma length_omap_remove: "omap_ok m \<Longrightarrow> k \<in> fst ` set m \<Longrightarrow> length (omap_remove k m) = length m - 1"
proof (induction m)
  case (Cons x m)
  show ?case
  proof (cases "fst x = k")
    case True
    then have "k \<notin> fst ` set m" using omap_ok_distinct [OF Cons.prems(1)] by auto
    then have "filter (\<lambda>x. fst x \<noteq> k) m = m" by (auto simp: filter_id_conv)
    then show ?thesis using True by (simp add: omap_remove_def)
  next
    case False
    then have "k \<in> fst ` set m" using Cons.prems(2) by auto
    moreover have "omap_ok m" using Cons.prems(1) by (cases x) (simp add: omap_ok_Cons)
    moreover have "m \<noteq> []" using \<open>k \<in> fst ` set m\<close> by auto
    ultimately show ?thesis using Cons.IH False by (simp add: omap_remove_def)
  qed
qed simp

lemma mset_omap_remove: "omap_ok m \<Longrightarrow> map_of m k = Some v \<Longrightarrow> mset m = add_mset (k, v) (mset (omap_remove k m))"
proof (induction m)
  case (Cons x m)
  obtain j w where x: "x = (j, w)" by fastforce
  have ok: "omap_ok m" "\<forall>y\<in>set m. j < fst y" using Cons.prems(1) by (simp_all add: x omap_ok_Cons)
  then have away: "omap_remove j m = m" by (auto simp: omap_remove_def filter_id_conv)
  show ?case
  proof (cases "j = k")
    case True
    then show ?thesis using away Cons.prems(2) by (simp add: x omap_remove_def)
  next
    case False
    then show ?thesis using Cons.IH [OF ok(1)] Cons.prems(2) by (simp add: x omap_remove_def)
  qed
qed simp

end
