(* ===== verification/Tab_Strip.thy ===== *)
theory Tab_Strip
  imports Closing Parked_Order Ordered_Map "HOL-Library.Sublist"
begin

text \<open>
  The Tabs of a Workspace as a window shows them (\<open>tab_collection.rs\<close>): one order, each Tab tagged with the
  Worktree it belongs to, the Active Tab, the Root Tab, how recently each Tab was active, and the
  places kept for Tabs whose close waits for the server. Positions, neighbours and moves act within
  one Worktree. Where the code would panic the model has the value \<open>None\<close>, and the invariant shows that
  it never does.
\<close>

section \<open>The collection\<close>

type_synonym scope = "u64 option"

record 'a tab_entry =
  te_id :: u64
  te_scope :: scope
  te_payload :: 'a

record 'a parked_tab =
  pk_entry :: "'a tab_entry"
  pk_was_root :: bool

datatype tab_step = PreviousTab | NextTab

datatype tab_error =
  TabNotFound u64
| TabIdSpaceExhausted
| TabPositionOutOfRange nat nat  \<comment> \<open>position, len\<close>

record 'a tab_collection =
  tc_tabs :: "'a tab_entry list"
  tc_parked :: "(u64, scope \<times> nat) omap"
  tc_active :: u64
  tc_root :: u64
  tc_activation_order :: "u64 list"
  tc_next :: u64

definition new_tabs :: "(u64 \<Rightarrow> 'a) \<Rightarrow> 'a tab_collection" where
  "new_tabs create_initial_payload =
     \<lparr>tc_tabs = [\<lparr>te_id = 1, te_scope = None, te_payload = create_initial_payload 1\<rparr>], tc_parked = [],
      tc_active = 1, tc_root = 1, tc_activation_order = [1], tc_next = 2\<rparr>"

definition index_of :: "u64 \<Rightarrow> 'a tab_collection \<Rightarrow> tab_error + nat" where
  "index_of i c = (case position (\<lambda>t. te_id t = i) (tc_tabs c) of None \<Rightarrow> Inl (TabNotFound i) | Some k \<Rightarrow> Inr k)"

definition tab_payload :: "u64 \<Rightarrow> 'a tab_collection \<Rightarrow> 'a option" where
  "tab_payload i c = map_option te_payload (List.find (\<lambda>t. te_id t = i) (tc_tabs c))"

text \<open>\<open>expect\<close> and indexing panic when the Active Tab is not there.\<close>

definition active_index :: "'a tab_collection \<Rightarrow> nat option" where
  "active_index c = (case index_of (tc_active c) c of Inl _ \<Rightarrow> None | Inr k \<Rightarrow> Some k)"

definition active_scope :: "'a tab_collection \<Rightarrow> scope option" where
  "active_scope c = map_option (\<lambda>k. te_scope (tc_tabs c ! k)) (active_index c)"

definition scope_of :: "u64 \<Rightarrow> 'a tab_collection \<Rightarrow> tab_error + scope" where
  "scope_of i c = (case index_of i c of Inl e \<Rightarrow> Inl e | Inr k \<Rightarrow> Inr (te_scope (tc_tabs c ! k)))"

definition tabs_in :: "scope \<Rightarrow> 'a tab_collection \<Rightarrow> (u64 \<times> 'a) list" where
  "tabs_in s c = map (\<lambda>t. (te_id t, te_payload t)) (filter (\<lambda>t. te_scope t = s) (tc_tabs c))"

definition most_recent_tab_in :: "scope \<Rightarrow> 'a tab_collection \<Rightarrow> u64 option" where
  "most_recent_tab_in s c = List.find (\<lambda>i. scope_of i c = Inr s) (rev (tc_activation_order c))"

definition next_tab_id :: "'a tab_collection \<Rightarrow> tab_error + u64 \<times> u64" where
  "next_tab_id c = (case checked_add (tc_next c) 1 of None \<Rightarrow> Inl TabIdSpaceExhausted | Some n \<Rightarrow> Inr (tc_next c, n))"

definition set_active :: "u64 \<Rightarrow> 'a tab_collection \<Rightarrow> 'a tab_collection" where
  "set_active i c = c\<lparr>tc_activation_order := filter (\<lambda>j. j \<noteq> i) (tc_activation_order c) @ [i], tc_active := i\<rparr>"

text \<open>One past the last element that satisfies \<open>p\<close>, or the end: \<open>rposition(p).map_or(len, |i| i + 1)\<close>.\<close>

definition after_last :: "('e \<Rightarrow> bool) \<Rightarrow> 'e list \<Rightarrow> nat" where
  "after_last p xs = (case position p (rev xs) of None \<Rightarrow> length xs | Some k \<Rightarrow> length xs - k)"

definition create_tab_in :: "scope \<Rightarrow> (u64 \<Rightarrow> 'a) \<Rightarrow> 'a tab_collection \<Rightarrow> (tab_error + u64) \<times> 'a tab_collection" where
  "create_tab_in s create_payload c =
     (case next_tab_id c of
        Inl e \<Rightarrow> (Inl e, c)
      | Inr (i, n) \<Rightarrow>
          (Inr i, set_active i (c\<lparr>
             tc_tabs := insert_at (after_last (\<lambda>t. te_scope t = s) (tc_tabs c))
               \<lparr>te_id = i, te_scope = s, te_payload = create_payload i\<rparr> (tc_tabs c),
             tc_next := n\<rparr>)))"

section \<open>Positions kept for parked Tabs\<close>

definition parked_in :: "scope \<Rightarrow> 'a tab_collection \<Rightarrow> nat list" where
  "parked_in s c = map snd (filter (\<lambda>x. fst x = s) (omap_values (tc_parked c)))"

definition retained_position :: "u64 \<Rightarrow> 'a tab_collection \<Rightarrow> tab_error + scope \<times> nat" where
  "retained_position i c =
     (case index_of i c of
        Inl e \<Rightarrow> Inl e
      | Inr k \<Rightarrow>
          let s = te_scope (tc_tabs c ! k);
              p = length (filter (\<lambda>t. te_scope t = s) (take k (tc_tabs c)))
          in Inr (s, fold (\<lambda>other p. if other \<le> p then p + 1 else p) (sort (parked_in s c)) p))"

definition retire_position :: "scope \<Rightarrow> nat \<Rightarrow> 'a tab_collection \<Rightarrow> 'a tab_collection" where
  "retire_position s p c =
     c\<lparr>tc_parked := omap_map (\<lambda>(other, kept). (other, if other = s \<and> p < kept then kept - 1 else kept)) (tc_parked c)\<rparr>"

definition set_tab_scope :: "u64 \<Rightarrow> scope \<Rightarrow> 'a tab_collection \<Rightarrow> (tab_error + unit) \<times> 'a tab_collection" where
  "set_tab_scope i s c =
     (case index_of i c of
        Inl e \<Rightarrow> (Inl e, c)
      | Inr k \<Rightarrow>
          if te_scope (tc_tabs c ! k) = s then (Inr (), c)
          else case retained_position i c of
              Inl e \<Rightarrow> (Inl e, c)
            | Inr (previous_scope, p) \<Rightarrow>
                let c = retire_position previous_scope p c;
                    t = (tc_tabs c ! k)\<lparr>te_scope := s\<rparr>;
                    rest = remove_at k (tc_tabs c)
                in (Inr (), c\<lparr>tc_tabs := insert_at (after_last (\<lambda>t. te_scope t = s) rest) t rest\<rparr>))"

definition activate_tab :: "u64 \<Rightarrow> 'a tab_collection \<Rightarrow> (tab_error + unit) \<times> 'a tab_collection" where
  "activate_tab i c = (case index_of i c of Inl e \<Rightarrow> (Inl e, c) | Inr _ \<Rightarrow> (Inr (), set_active i c))"

section \<open>Moving within a Worktree\<close>

definition indices_in :: "scope \<Rightarrow> 'a tab_collection \<Rightarrow> nat list" where
  "indices_in s c = filter (\<lambda>k. te_scope (tc_tabs c ! k) = s) [0..<length (tc_tabs c)]"

definition move_tab :: "u64 \<Rightarrow> nat \<Rightarrow> 'a tab_collection \<Rightarrow> (tab_error + bool) \<times> 'a tab_collection" where
  "move_tab i to c =
     (case index_of i c of
        Inl e \<Rightarrow> (Inl e, c)
      | Inr k \<Rightarrow>
          let siblings = indices_in (te_scope (tc_tabs c ! k)) c
          in if length siblings \<le> to then (Inl (TabPositionOutOfRange to (length siblings)), c)
             else if k = siblings ! to then (Inr False, c)
             else (Inr True, c\<lparr>tc_tabs := insert_at (siblings ! to) (tc_tabs c ! k) (remove_at k (tc_tabs c))\<rparr>))"

definition neighbor_of_active_tab :: "tab_step \<Rightarrow> 'a tab_collection \<Rightarrow> u64 option" where
  "neighbor_of_active_tab step c =
     Option.bind (active_scope c) (\<lambda>s.
       let siblings = indices_in s c; len = length siblings
       in map_option
            (\<lambda>k. te_id (tc_tabs c ! (siblings ! (case step of PreviousTab \<Rightarrow> (k + len - 1) mod len | NextTab \<Rightarrow> (k + 1) mod len))))
            (position (\<lambda>k. te_id (tc_tabs c ! k) = tc_active c) siblings))"

definition step_index :: "nat \<Rightarrow> tab_step \<Rightarrow> 'a tab_collection \<Rightarrow> bool \<times> 'a tab_collection" where
  "step_index k step c =
     (let s = te_scope (tc_tabs c ! k);
          target = (case step of
             PreviousTab \<Rightarrow> if 0 < k then Some (k - 1) else None
           | NextTab \<Rightarrow> if k + 1 < length (tc_tabs c) then Some (k + 1) else None)
      in case target of
           None \<Rightarrow> (False, c)
         | Some j \<Rightarrow>
             if te_scope (tc_tabs c ! j) = s
             then (True, c\<lparr>tc_tabs := (tc_tabs c)[k := tc_tabs c ! j, j := tc_tabs c ! k]\<rparr>)
             else (False, c))"

definition move_active_tab :: "tab_step \<Rightarrow> 'a tab_collection \<Rightarrow> (bool \<times> 'a tab_collection) option" where
  "move_active_tab step c = map_option (\<lambda>k. step_index k step c) (active_index c)"

definition step_tab :: "u64 \<Rightarrow> tab_step \<Rightarrow> 'a tab_collection \<Rightarrow> (tab_error + bool) \<times> 'a tab_collection" where
  "step_tab i step c =
     (case index_of i c of Inl e \<Rightarrow> (Inl e, c) | Inr k \<Rightarrow> let (moved, c) = step_index k step c in (Inr moved, c))"

section \<open>Closing and parking\<close>

text \<open>Where activation goes when the Active Tab at \<open>k\<close> has been removed: the sibling that took its place, the
  last sibling, or the most recently active Tab. \<open>None\<close> is the panic when there is none.\<close>

definition fallback_tab :: "scope \<Rightarrow> nat \<Rightarrow> 'a tab_collection \<Rightarrow> u64 option" where
  "fallback_tab s k c =
     (let siblings = indices_in s c
      in case position (\<lambda>sibling. k \<le> sibling) siblings of
           Some p \<Rightarrow> Some (te_id (tc_tabs c ! (siblings ! p)))
         | None \<Rightarrow>
             if siblings \<noteq> [] then Some (te_id (tc_tabs c ! last siblings))
             else if tc_activation_order c \<noteq> [] then Some (last (tc_activation_order c)) else None)"

definition promoted_root :: "scope \<Rightarrow> 'a tab_collection \<Rightarrow> u64" where
  "promoted_root s c = te_id (case List.find (\<lambda>t. te_scope t = s) (tc_tabs c) of Some t \<Rightarrow> t | None \<Rightarrow> tc_tabs c ! 0)"

definition take_tab :: "u64 \<Rightarrow> 'a tab_collection \<Rightarrow> ((tab_error + 'a close_tab_outcome) \<times> 'a tab_collection) option" where
  "take_tab i c =
     (case index_of i c of
        Inl e \<Rightarrow> Some (Inl e, c)
      | Inr k \<Rightarrow>
          if resolve_close CloseTab (length (tc_tabs c)) = Parent then Some (Inr (TabClosesWorkspace i), c)
          else
            let closed = tc_tabs c ! k;
                s = te_scope closed;
                c = c\<lparr>tc_tabs := remove_at k (tc_tabs c), tc_activation_order := filter (\<lambda>j. j \<noteq> i) (tc_activation_order c)\<rparr>;
                c = (if tc_root c = i then c\<lparr>tc_root := promoted_root s c\<rparr> else c)
            in map_option (\<lambda>c. (Inr (TabClosed (te_id closed) (tc_active c) (te_payload closed)), c))
                 (if tc_active c = i then map_option (\<lambda>f. set_active f c) (fallback_tab s k c) else Some c))"

definition close_tab :: "u64 \<Rightarrow> 'a tab_collection \<Rightarrow> ((tab_error + 'a close_tab_outcome) \<times> 'a tab_collection) option" where
  "close_tab i c =
     (case retained_position i c of
        Inl e \<Rightarrow> Some (Inl e, c)
      | Inr (s, p) \<Rightarrow>
          map_option (\<lambda>(r, c). case r of Inr (TabClosed _ _ _) \<Rightarrow> (r, retire_position s p c) | _ \<Rightarrow> (r, c)) (take_tab i c))"

definition park_tab :: "u64 \<Rightarrow> 'a tab_collection \<Rightarrow> ((tab_error + 'a parked_tab option) \<times> 'a tab_collection) option" where
  "park_tab i c =
     (case index_of i c of
        Inl e \<Rightarrow> Some (Inl e, c)
      | Inr k \<Rightarrow>
          let s = te_scope (tc_tabs c ! k)
          in case retained_position i c of
               Inl e \<Rightarrow> Some (Inl e, c)
             | Inr (_, p) \<Rightarrow>
                 let was_root = (tc_root c = i)
                 in map_option
                      (\<lambda>(r, c). case r of
                         Inl e \<Rightarrow> (Inl e, c)
                       | Inr (TabClosed _ _ payload) \<Rightarrow>
                           (Inr (Some \<lparr>pk_entry = \<lparr>te_id = i, te_scope = s, te_payload = payload\<rparr>, pk_was_root = was_root\<rparr>),
                            c\<lparr>tc_parked := omap_insert i (s, p) (tc_parked c)\<rparr>)
                       | Inr (TabClosesWorkspace _) \<Rightarrow> (Inr None, c))
                      (take_tab i c))"

definition restore_parked_tab :: "'a parked_tab \<Rightarrow> 'a tab_collection \<Rightarrow> 'a tab_collection option" where
  "restore_parked_tab parked c =
     (let i = te_id (pk_entry parked)
      in case map_of (tc_parked c) i of
           None \<Rightarrow> None
         | Some (s, retained) \<Rightarrow>
             let c = c\<lparr>tc_parked := omap_remove i (tc_parked c)\<rparr>;
                 before = length (filter (\<lambda>(other, p). other = s \<and> p < retained) (omap_values (tc_parked c)));
                 visible = retained - before;
                 siblings = indices_in (te_scope (pk_entry parked)) c;
                 at = (if visible < length siblings then siblings ! visible
                       else if siblings \<noteq> [] then last siblings + 1 else length (tc_tabs c));
                 c = (if pk_was_root parked then c\<lparr>tc_root := i\<rparr> else c)
             in Some (c\<lparr>tc_activation_order := i # tc_activation_order c, tc_tabs := insert_at at (pk_entry parked) (tc_tabs c)\<rparr>))"

definition discard_parked_tab :: "'a parked_tab \<Rightarrow> 'a tab_collection \<Rightarrow> 'a \<times> 'a tab_collection" where
  "discard_parked_tab parked c =
     (te_payload (pk_entry parked),
      case map_of (tc_parked c) (te_id (pk_entry parked)) of
        None \<Rightarrow> c
      | Some (s, p) \<Rightarrow> retire_position s p (c\<lparr>tc_parked := omap_remove (te_id (pk_entry parked)) (tc_parked c)\<rparr>))"

section \<open>Tabs of one Worktree are adjacent\<close>

definition grouped :: "'e list \<Rightarrow> bool" where
  "grouped xs \<longleftrightarrow> (\<forall>x y. x \<noteq> y \<longrightarrow> \<not> subseq [x, y, x] xs)"

lemma grouped_subseq: "grouped ys \<Longrightarrow> subseq xs ys \<Longrightarrow> grouped xs"
  unfolding grouped_def using subseq_order.order_trans by blast

lemma grouped_remove: "grouped (xs @ x # ys) \<Longrightarrow> grouped (xs @ ys)"
  by (erule grouped_subseq) (auto intro: list_emb_append_mono)

lemma grouped_snoc:
  assumes "grouped xs" "x \<notin> set xs"
  shows "grouped (xs @ [x])"
  unfolding grouped_def
proof (intro allI impI notI)
  fix a b assume "a \<noteq> b" "subseq [a, b, a] (xs @ [x])"
  then obtain us vs where split: "[a, b, a] = us @ vs" "subseq us xs" "subseq vs [x]" unfolding subseq_append_iff by blast
  show False
  proof (cases vs rule: rev_cases)
    case Nil
    then show ?thesis using split assms(1) \<open>a \<noteq> b\<close> by (auto simp: grouped_def)
  next
    case (snoc ws v)
    then have "v = x" using split(3) list_emb_set [OF split(3), of v] by auto
    moreover have "length vs \<le> 1" using list_emb_length [OF split(3)] by simp
    ultimately have "us @ [x] = [a, b, a]" using snoc split(1) by (cases ws) auto
    then have "us = [a, b]" "x = a" by (auto simp: append_eq_Cons_conv)
    then have "a \<in> set xs" using list_emb_set [OF split(2), of a] by auto
    then show ?thesis using assms(2) \<open>x = a\<close> by simp
  qed
qed

lemma subseq_dup: "x \<noteq> y \<Longrightarrow> subseq [x, y, x] (xs @ z # z # ys) \<Longrightarrow> subseq [x, y, x] (xs @ z # ys)"
proof (induction xs)
  case Nil
  then show ?case by (auto simp: list_emb_Cons_iff2 split: if_splits)
next
  case (Cons a xs)
  have short: "subseq ws (xs @ z # z # ys) \<Longrightarrow> subseq ws (xs @ z # ys)" if "ws = [y, x]" for ws xs
    using that \<open>x \<noteq> y\<close> by (induction xs) (auto simp: subseq_singleton_left split: if_splits)
  show ?case using Cons short [of "[y, x]" xs] by (auto split: if_splits)
qed

lemma grouped_dup: "grouped (xs @ z # ys) \<Longrightarrow> grouped (xs @ z # z # ys)"
  unfolding grouped_def using subseq_dup by metis

text \<open>A grouped order is, for each of its values, one block between two parts without it.\<close>

lemma grouped_block:
  assumes "grouped (map f xs)"
  obtains X Y Z where "xs = X @ Y @ Z" "\<forall>x\<in>set X. f x \<noteq> s" "\<forall>y\<in>set Y. f y = s" "\<forall>z\<in>set Z. f z \<noteq> s"
proof -
  define X where "X = takeWhile (\<lambda>x. f x \<noteq> s) xs"
  define R where "R = dropWhile (\<lambda>x. f x \<noteq> s) xs"
  define Y where "Y = takeWhile (\<lambda>x. f x = s) R"
  define Z where "Z = dropWhile (\<lambda>x. f x = s) R"
  have xs: "xs = X @ Y @ Z" by (simp add: X_def R_def Y_def Z_def)
  have "f z \<noteq> s" if mem: "z \<in> set Z" for z
  proof
    assume z: "f z = s"
    obtain y Z' where Z: "Z = y # Z'" using mem by (cases Z) auto
    have y: "f y \<noteq> s" using hd_dropWhile [of "\<lambda>x. f x = s" R, folded Z_def] Z by simp
    then have "z \<in> set Z'" using mem z Z by auto
    have "Y \<noteq> []"
    proof -
      have "R \<noteq> []" using Z Z_def by auto
      then have "f (hd R) = s" using hd_dropWhile [of "\<lambda>x. f x \<noteq> s" xs, folded R_def] by simp
      then show ?thesis using \<open>R \<noteq> []\<close> Y_def by (cases R) auto
    qed
    then obtain w Y' where Y: "Y = w # Y'" by (cases Y) auto
    have "f w = s" using Y Y_def by (metis list.set_intros(1) set_takeWhileD)
    have "s \<in> f ` set Z'" using \<open>z \<in> set Z'\<close> z by force
    then have "subseq ([] @ [s] @ [] @ [f y, s]) (map f X @ [f w] @ map f Y' @ f y # map f Z')"
      by (intro list_emb_append_mono) (use \<open>f w = s\<close> in \<open>auto simp: subseq_singleton_left\<close>)
    then have "subseq [s, f y, s] (map f xs)" by (simp add: xs Y Z)
    then show False using assms y unfolding grouped_def by metis
  qed
  moreover have "\<forall>x\<in>set X. f x \<noteq> s" "\<forall>y\<in>set Y. f y = s" by (auto simp: X_def Y_def dest: set_takeWhileD)
  ultimately show ?thesis using that xs by blast
qed

end
