(* ===== verification/Tab_Laws.thy ===== *)
theory Tab_Laws
  imports Tab_Strip
begin

text \<open>
  The Tabs of a window keep their promises: identities stay distinct, the Tabs of one Worktree stay
  adjacent, the Active Tab and the Root Tab are always there, every Tab has been active once, no
  operation panics, and a Tab whose close is refused comes back to its place among the Tabs of its
  Worktree.
\<close>

section \<open>The order of one Worktree\<close>

definition ids_in :: "scope \<Rightarrow> 'a tab_entry list \<Rightarrow> u64 list" where
  "ids_in s ts = map te_id (filter (\<lambda>t. te_scope t = s) ts)"

definition spots_in :: "scope \<Rightarrow> (u64, scope \<times> nat) omap \<Rightarrow> (nat \<times> u64) list" where
  "spots_in s m = map (\<lambda>x. (snd (snd x), fst x)) (filter (\<lambda>x. fst (snd x) = s) m)"

definition tab_slots :: "scope \<Rightarrow> 'a tab_collection \<Rightarrow> (bool \<times> u64) list" where
  "tab_slots s c = merged 0 (sort_key fst (spots_in s (tc_parked c))) (ids_in s (tc_tabs c))"

definition kept :: "scope \<Rightarrow> 'a tab_collection \<Rightarrow> (bool \<times> u64) list \<Rightarrow> bool" where
  "kept s c L \<longleftrightarrow> ids_in s (tc_tabs c) = shown L \<and> mset (spots_in s (tc_parked c)) = mset (hidden_at 0 L)"

lemma ids_in_simps [simp]:
  "ids_in s [] = []" "ids_in s (ts @ us) = ids_in s ts @ ids_in s us"
  "ids_in s (t # ts) = (if te_scope t = s then te_id t # ids_in s ts else ids_in s ts)"
  by (simp_all add: ids_in_def)

lemma ids_in_all: "\<forall>t\<in>set ts. te_scope t = s \<Longrightarrow> ids_in s ts = map te_id ts"
  by (simp add: ids_in_def)

lemma ids_in_none: "\<forall>t\<in>set ts. te_scope t \<noteq> s \<Longrightarrow> ids_in s ts = []"
  by (simp add: ids_in_def filter_empty_conv)

lemma set_ids_in: "set (ids_in s ts) \<subseteq> te_id ` set ts"
  by (auto simp: ids_in_def)

lemma disjoint_mono: "A \<subseteq> B \<Longrightarrow> C \<subseteq> D \<Longrightarrow> B \<inter> D = {} \<Longrightarrow> A \<inter> C = {}"
  by blast

lemma set_spots_in: "snd ` set (spots_in s m) \<subseteq> fst ` set m" "set (map snd (spots_in s m)) \<subseteq> fst ` set m"
  by (force simp: spots_in_def)+

lemma length_ids_in: "map te_scope ts = map te_scope us \<Longrightarrow> length (ids_in s ts) = length (ids_in s us)"
proof (induction ts arbitrary: us)
  case (Cons t ts)
  then show ?case by (cases us) auto
qed simp

lemma hidden_at_sorted: "sorted_wrt (<) (map fst (hidden_at k L))"
proof (induction L arbitrary: k)
  case (Cons x L)
  obtain h e where x: "x = (h, e)" by fastforce
  have "\<forall>y\<in>set (hidden_at (Suc k) L). k < fst y" using hidden_at_range [of _ _ "Suc k" L] by fastforce
  then show ?case using Cons.IH [of "Suc k"] by (auto simp: x)
qed simp

lemma sort_hidden:
  assumes "mset ps = mset (hidden_at k L)"
  shows "sort_key fst ps = hidden_at k L"
proof (rule properties_for_sort_key)
  show "mset (hidden_at k L) = mset ps" using assms by simp
  show "sorted (map fst (hidden_at k L))" using hidden_at_sorted strict_sorted_imp_sorted by blast
  fix x assume x: "x \<in> set (hidden_at k L)"
  have d: "distinct (map fst (hidden_at k L))" using hidden_at_sorted strict_sorted_iff by blast
  have one: "filter (\<lambda>y. fst x = fst y) ys = [x]" if "distinct (map fst ys)" "x \<in> set ys" for ys :: "(nat \<times> 'a) list"
    using that by (induction ys) (auto simp: filter_empty_conv image_iff)
  have "distinct (map fst ps)" using d assms mset_eq_imp_distinct_iff mset_map by metis
  moreover have "x \<in> set ps" using x assms mset_eq_setD by metis
  ultimately show "filter (\<lambda>y. fst x = fst y) (hidden_at k L) = filter (\<lambda>y. fst x = fst y) ps"
    using one d x by metis
qed

lemma kept_slots: "kept s c L \<Longrightarrow> tab_slots s c = L"
  by (simp add: kept_def tab_slots_def sort_hidden merged_views)

lemma kept_refill:
  assumes "kept s c L" "length (ids_in s ts) = length (ids_in s (tc_tabs c))"
  shows "kept s (c\<lparr>tc_tabs := ts\<rparr>) (refill (ids_in s ts) L)"
  using assms refill_views(1,2) [of "ids_in s ts" L] by (simp add: kept_def)

section \<open>The invariant\<close>

definition tabs_core :: "'a tab_collection \<Rightarrow> bool" where
  "tabs_core c \<longleftrightarrow> distinct (map te_id (tc_tabs c)) \<and> omap_ok (tc_parked c) \<and>
     te_id ` set (tc_tabs c) \<inter> fst ` set (tc_parked c) = {} \<and>
     (\<forall>i\<in>te_id ` set (tc_tabs c) \<union> fst ` set (tc_parked c). i < tc_next c) \<and> tc_next c \<le> u64_max \<and>
     grouped (map te_scope (tc_tabs c)) \<and> (\<forall>s. \<exists>L. kept s c L)"

definition tabs_tail :: "'a tab_collection \<Rightarrow> bool" where
  "tabs_tail c \<longleftrightarrow> tc_active c \<in> te_id ` set (tc_tabs c) \<and> tc_root c \<in> te_id ` set (tc_tabs c) \<and>
     distinct (tc_activation_order c) \<and> set (tc_activation_order c) = te_id ` set (tc_tabs c)"

definition tabs_ok :: "'a tab_collection \<Rightarrow> bool" where
  "tabs_ok c \<longleftrightarrow> tabs_core c \<and> tabs_tail c"

lemma tabs_coreD:
  assumes "tabs_core c"
  shows "distinct (map te_id (tc_tabs c))" "omap_ok (tc_parked c)" "te_id ` set (tc_tabs c) \<inter> fst ` set (tc_parked c) = {}"
    "\<forall>i\<in>te_id ` set (tc_tabs c). i < tc_next c" "\<forall>i\<in>fst ` set (tc_parked c). i < tc_next c" "tc_next c \<le> u64_max"
    "grouped (map te_scope (tc_tabs c))" "kept s c (tab_slots s c)"
  using assms kept_slots [of s c] unfolding tabs_core_def by blast+

lemma tabs_okD:
  assumes "tabs_ok c"
  shows "tabs_core c" "tc_active c \<in> te_id ` set (tc_tabs c)" "tc_root c \<in> te_id ` set (tc_tabs c)"
    "distinct (tc_activation_order c)" "set (tc_activation_order c) = te_id ` set (tc_tabs c)"
    "tabs_tail c"
  using assms unfolding tabs_ok_def tabs_tail_def by blast+

lemma slots_keys:
  assumes "tabs_core c"
  shows "distinct (map snd (tab_slots s c))"
proof -
  note d = tabs_coreD [OF assms]
  let ?L = "tab_slots s c"
  have k: "ids_in s (tc_tabs c) = shown ?L" "mset (spots_in s (tc_parked c)) = mset (hidden_at 0 ?L)"
    using d(8) [of s] unfolding kept_def by blast+
  have "mset (map snd ?L) = mset (shown ?L) + mset (map snd (hidden_at n ?L))" for n L
  proof -
    have "mset (map snd M) = mset (shown M) + mset (map snd (hidden_at n M))" for M :: "(bool \<times> u64) list" and n
      by (induction M arbitrary: n) auto
    then show ?thesis .
  qed
  also have "mset (map snd (hidden_at 0 ?L)) = mset (map snd (spots_in s (tc_parked c)))" using k(2) by (simp only: mset_map)
  finally have m: "mset (map snd ?L) = mset (ids_in s (tc_tabs c) @ map snd (spots_in s (tc_parked c)))" using k(1) by simp
  have "distinct (ids_in s (tc_tabs c))" using d(1) by (auto simp: ids_in_def distinct_map_filter)
  moreover have "distinct (map snd (spots_in s (tc_parked c)))"
    using omap_ok_distinct [OF d(2)] by (simp add: spots_in_def comp_def distinct_map_filter)
  moreover have "set (ids_in s (tc_tabs c)) \<inter> set (map snd (spots_in s (tc_parked c))) = {}"
    by (rule disjoint_mono [OF set_ids_in set_spots_in(2)]) (rule d(3))
  ultimately show ?thesis using mset_eq_imp_distinct_iff [OF m] by simp
qed

lemma index_ofD:
  assumes "index_of i c = Inr k"
  obtains P t Q where "tc_tabs c = P @ t # Q" "length P = k" "te_id t = i"
proof -
  have k: "k < length (tc_tabs c)" "te_id (tc_tabs c ! k) = i"
    using assms position_SomeD [of "\<lambda>t. te_id t = i" "tc_tabs c"] by (auto simp: index_of_def split: option.splits)
  have "tc_tabs c = take k (tc_tabs c) @ tc_tabs c ! k # drop (Suc k) (tc_tabs c)" by (rule id_take_nth_drop [OF k(1)])
  then show ?thesis using that k by (metis length_take min.absorb4)
qed

lemma position_skip: "\<forall>x\<in>set xs. \<not> p x \<Longrightarrow> p y \<Longrightarrow> position p (xs @ y # ys) = Some (length xs)"
  by (induction xs) auto

lemma index_at:
  assumes "distinct (map te_id (tc_tabs c))" "tc_tabs c = P @ t # Q"
  shows "index_of (te_id t) c = Inr (length P)"
proof -
  have "te_id t \<notin> te_id ` set P" using assms by simp
  then have "\<forall>u\<in>set P. te_id u \<noteq> te_id t" by (metis image_eqI)
  then have "position (\<lambda>u. te_id u = te_id t) (tc_tabs c) = Some (length P)"
    unfolding assms(2) by (intro position_skip) simp_all
  then show ?thesis by (simp add: index_of_def)
qed

lemma index_of_known:
  assumes "i \<in> te_id ` set (tc_tabs c)"
  obtains k where "index_of i c = Inr k"
  using assms by (cases "position (\<lambda>t. te_id t = i) (tc_tabs c)") (auto simp: index_of_def)

lemma parked_in_spots: "parked_in s c = map fst (spots_in s (tc_parked c))"
  by (simp add: parked_in_def spots_in_def omap_values_def filter_map comp_def)

lemma sort_parked_in: "kept s c L \<Longrightarrow> sort (parked_in s c) = map fst (hidden_at 0 L)"
  by (rule properties_for_sort)
    (use hidden_at_sorted [of 0 L] in \<open>simp_all add: parked_in_spots kept_def strict_sorted_imp_sorted\<close>)

text \<open>The position kept for a Tab is its place in the order of its Worktree, hidden Tabs included.\<close>

lemma retained_place:
  assumes "tabs_core c" "tc_tabs c = P @ t # Q"
  obtains A B where "tab_slots (te_scope t) c = A @ (False, te_id t) # B" "shown A = ids_in (te_scope t) P"
    "shown B = ids_in (te_scope t) Q" "retained_position (te_id t) c = Inr (te_scope t, length A)"
proof -
  let ?s = "te_scope t" and ?L = "tab_slots (te_scope t) c"
  have k: "kept ?s c ?L" using tabs_coreD(8) [OF assms(1)] .
  then have ids: "shown ?L = ids_in ?s P @ te_id t # ids_in ?s Q" using assms(2) by (simp add: kept_def)
  then have "length (ids_in ?s P) < length (shown ?L)" by simp
  then obtain A e B where L: "?L = A @ (False, e) # B" "length (shown A) = length (ids_in ?s P)" using shown_split by metis
  with ids have shown: "shown A = ids_in ?s P" "e = te_id t" "shown B = ids_in ?s Q" by (auto simp: append_eq_append_conv)
  note index_at [OF tabs_coreD(1) [OF assms(1)] assms(2)]
  moreover have "fold (\<lambda>other p. if other \<le> p then p + 1 else p) (map fst ps) v = skip_hidden ps v" for ps :: "(nat \<times> u64) list" and v
    by (induction ps arbitrary: v) (auto simp: skip_hidden_def)
  ultimately have "retained_position (te_id t) c = Inr (?s, skip_hidden (hidden_at 0 ?L) (length (ids_in ?s P)))"
    using assms(2) sort_parked_in [OF k] by (simp add: retained_position_def ids_in_def Let_def)
  moreover have "skip_hidden (hidden_at 0 ?L) (length (ids_in ?s P)) = length A"
    using skip_hidden_place(1) [of A e B] L by simp
  ultimately show ?thesis using that L(1) shown by simp
qed

section \<open>Blocks\<close>

text \<open>The Tabs of a Worktree as one block of the order.\<close>

definition tab_block :: "scope \<Rightarrow> 'a tab_entry list \<Rightarrow> 'a tab_entry list \<Rightarrow> 'a tab_entry list \<Rightarrow> 'a tab_entry list \<Rightarrow> bool" where
  "tab_block s ts X Y Z \<longleftrightarrow> ts = X @ Y @ Z \<and> (\<forall>t\<in>set X. te_scope t \<noteq> s) \<and> (\<forall>t\<in>set Y. te_scope t = s) \<and> (\<forall>t\<in>set Z. te_scope t \<noteq> s)"

lemma tab_block_exists:
  assumes "grouped (map te_scope ts)"
  obtains X Y Z where "tab_block s ts X Y Z"
  by (rule grouped_block [OF assms, of s]) (rule that, simp add: tab_block_def)

lemma tab_block_ids: "tab_block s ts X Y Z \<Longrightarrow> ids_in s ts = map te_id Y"
  unfolding tab_block_def by (simp add: ids_in_all ids_in_none)

lemma tab_block_indices: "tab_block s (tc_tabs c) X Y Z \<Longrightarrow> indices_in s c = [length X..<length X + length Y]"
proof -
  assume b: "tab_block s (tc_tabs c) X Y Z"
  then have ts: "tc_tabs c = X @ Y @ Z" unfolding tab_block_def by blast
  have "[0..<length (tc_tabs c)] = [0..<length X] @ [length X..<length X + length Y] @ [length X + length Y..<length (tc_tabs c)]"
    using upt_add_eq_append [of 0 "length X" "length Y + length Z"] upt_add_eq_append [of "length X" "length X + length Y" "length Z"]
    by (simp add: ts add.assoc)
  moreover have "filter (\<lambda>k. te_scope (tc_tabs c ! k) = s) [0..<length X] = []"
    using b by (auto simp: tab_block_def filter_empty_conv nth_append)
  moreover have "filter (\<lambda>k. te_scope (tc_tabs c ! k) = s) [length X..<length X + length Y] = [length X..<length X + length Y]"
    using b by (auto simp: tab_block_def filter_id_conv nth_append)
  moreover have "filter (\<lambda>k. te_scope (tc_tabs c ! k) = s) [length X + length Y..<length (tc_tabs c)] = []"
  proof -
    have "tc_tabs c ! k \<in> set Z" if "length X + length Y \<le> k" "k < length (tc_tabs c)" for k
      using that by (auto simp: ts nth_append intro!: nth_mem)
    then show ?thesis using b by (auto simp: tab_block_def filter_empty_conv)
  qed
  ultimately show ?thesis by (simp add: indices_in_def)
qed

lemma tab_block_after:
  assumes "tab_block s ts X Y Z"
  shows "after_last (\<lambda>t. te_scope t = s) ts = (if Y = [] then length ts else length X + length Y)"
proof (cases Y rule: rev_cases)
  case Nil
  then have "position (\<lambda>t. te_scope t = s) (rev ts) = None" using assms by (auto simp: tab_block_def)
  then show ?thesis using Nil by (simp only: after_last_def option.case simp_thms if_True)
next
  case (snoc Y' y)
  then have ts: "rev ts = rev Z @ y # rev Y' @ rev X" and "te_scope y = s" "\<forall>t\<in>set (rev Z). te_scope t \<noteq> s"
    using assms by (auto simp: tab_block_def)
  then have "position (\<lambda>t. te_scope t = s) (rev ts) = Some (length Z)" using position_skip [of "rev Z" "\<lambda>t. te_scope t = s" y "rev Y' @ rev X"] by simp
  then show ?thesis using assms snoc by (simp add: after_last_def tab_block_def)
qed

lemma map_scope_block: "\<forall>t\<in>set Y. te_scope t = s \<Longrightarrow> map te_scope Y = replicate (length Y) s"
  by (induction Y) auto

lemma insert_block:
  assumes "tab_block s ts X Y Z" "grouped (map te_scope ts)" "te_scope e = s" "j \<le> length Y"
    and "k = (if Y = [] then length ts else length X + j)"
  shows "ids_in s (insert_at k e ts) = insert_at j (te_id e) (ids_in s ts)"
    "s' \<noteq> s \<Longrightarrow> ids_in s' (insert_at k e ts) = ids_in s' ts"
    "grouped (map te_scope (insert_at k e ts))" "k \<le> length ts"
proof -
  have ids: "ids_in s ts = map te_id Y" by (rule tab_block_ids [OF assms(1)])
  have b: "ts = X @ Y @ Z" "\<forall>t\<in>set X. te_scope t \<noteq> s" "\<forall>t\<in>set Y. te_scope t = s" "\<forall>t\<in>set Z. te_scope t \<noteq> s"
    using assms(1) unfolding tab_block_def by blast+
  show "k \<le> length ts" using assms(4,5) b(1) by simp
  have new: "insert_at k e ts = (if Y = [] then ts @ [e] else X @ take j Y @ e # drop j Y @ Z)"
    using assms(4,5) b(1) by (simp add: insert_at_def)
  have "ids_in s' ts = ids_in s' X @ ids_in s' (take j Y) @ ids_in s' (drop j Y) @ ids_in s' Z" for s'
    unfolding b(1) ids_in_simps(2) by (metis append.assoc append_take_drop_id ids_in_simps(2))
  then show "s' \<noteq> s \<Longrightarrow> ids_in s' (insert_at k e ts) = ids_in s' ts" using assms(3) by (simp add: new)
  have part: "ids_in s (take j Y) = map te_id (take j Y)" "ids_in s (drop j Y) = map te_id (drop j Y)"
    using b(3) by (auto intro!: ids_in_all dest: in_set_takeD in_set_dropD)
  show "ids_in s (insert_at k e ts) = insert_at j (te_id e) (ids_in s ts)"
  proof -
    have "insert_at j (te_id e) (map te_id Y) = map te_id (take j Y) @ te_id e # map te_id (drop j Y)"
      by (simp add: insert_at_def take_map drop_map)
    then show ?thesis using assms(3) ids by (simp add: new part ids_in_none [OF b(2)] ids_in_none [OF b(4)])
  qed
  show "grouped (map te_scope (insert_at k e ts))"
  proof (cases Y)
    case Nil
    then have "s \<notin> set (map te_scope ts)" using b by auto
    then show ?thesis using grouped_snoc [OF assms(2)] assms(3) by (simp add: new Nil)
  next
    case (Cons y Y')
    have sc: "map te_scope (take j Y) = replicate j s" "map te_scope (drop j Y) = replicate (length Y - j) s"
      using map_scope_block [OF b(3)] assms(4) by (simp_all add: take_map [symmetric] drop_map [symmetric])
    have old: "map te_scope ts = map te_scope X @ s # replicate (length Y') s @ map te_scope Z"
      using map_scope_block [OF b(3)] by (simp add: b(1) Cons)
    have "replicate j s @ s # replicate (length Y - j) s = s # s # replicate (length Y') s"
      using assms(4) Cons by (simp add: replicate_append_same flip: replicate_Suc replicate_add append_Cons)
    then have "map te_scope (insert_at k e ts) = map te_scope X @ s # s # replicate (length Y') s @ map te_scope Z"
      using assms(3) sc by (simp add: new Cons)
    then show ?thesis using grouped_dup [of "map te_scope X" s "replicate (length Y') s @ map te_scope Z"] assms(2) old by simp
  qed
qed

section \<open>Changes of the kept positions\<close>

lemma mset_spots_in: "mset (spots_in s m) = image_mset (\<lambda>x. (snd (snd x), fst x)) (filter_mset (\<lambda>x. fst (snd x) = s) (mset m))"
  by (simp add: spots_in_def)

lemma spots_in_insert:
  "omap_ok m \<Longrightarrow> i \<notin> fst ` set m \<Longrightarrow>
     mset (spots_in s (omap_insert i (s', p) m)) = (if s' = s then add_mset (p, i) (mset (spots_in s m)) else mset (spots_in s m))"
  by (simp add: mset_spots_in mset_omap_insert)

lemma spots_in_remove:
  "omap_ok m \<Longrightarrow> map_of m i = Some (s', p) \<Longrightarrow>
     mset (spots_in s m) = (if s' = s then add_mset (p, i) (mset (spots_in s (omap_remove i m))) else mset (spots_in s (omap_remove i m)))"
  by (simp add: mset_spots_in mset_omap_remove)

lemma spots_in_retire:
  "spots_in s (tc_parked (retire_position s' p c)) =
     (if s' = s then map (\<lambda>(q, e). (if p < q then q - 1 else q, e)) (spots_in s (tc_parked c)) else spots_in s (tc_parked c))"
proof -
  have "spots_in s (omap_map (\<lambda>(other, q). (other, if other = s' \<and> p < q then q - 1 else q)) m) =
      (if s' = s then map (\<lambda>(q, e). (if p < q then q - 1 else q, e)) (spots_in s m) else spots_in s m)" for m
    by (induction m) (auto simp: spots_in_def omap_map_def)
  then show ?thesis by (simp add: retire_position_def)
qed

lemma retire_position_simps [simp]:
  "tc_tabs (retire_position s p c) = tc_tabs c" "tc_active (retire_position s p c) = tc_active c"
  "tc_root (retire_position s p c) = tc_root c" "tc_activation_order (retire_position s p c) = tc_activation_order c"
  "tc_next (retire_position s p c) = tc_next c" "fst ` set (tc_parked (retire_position s p c)) = fst ` set (tc_parked c)"
  "omap_ok (tc_parked (retire_position s p c)) \<longleftrightarrow> omap_ok (tc_parked c)"
  by (simp_all add: retire_position_def)

lemma set_active_simps [simp]:
  "tc_tabs (set_active i c) = tc_tabs c" "tc_parked (set_active i c) = tc_parked c" "tc_active (set_active i c) = i"
  "tc_root (set_active i c) = tc_root c" "tc_next (set_active i c) = tc_next c"
  "set (tc_activation_order (set_active i c)) = insert i (set (tc_activation_order c))"
  "distinct (tc_activation_order c) \<Longrightarrow> distinct (tc_activation_order (set_active i c))"
  by (auto simp: set_active_def)

text \<open>The tail of the invariant reads only the identities of the Tabs, the core neither the Active Tab nor the
  Root Tab.\<close>

lemma kept_cong: "tc_tabs c = tc_tabs d \<Longrightarrow> tc_parked c = tc_parked d \<Longrightarrow> kept s c L = kept s d L"
  by (simp add: kept_def)

lemma tabs_core_cong: "tc_tabs c = tc_tabs d \<Longrightarrow> tc_parked c = tc_parked d \<Longrightarrow> tc_next c = tc_next d \<Longrightarrow> tabs_core c = tabs_core d"
  by (simp add: tabs_core_def kept_def)

lemma tab_slots_cong: "tc_tabs c = tc_tabs d \<Longrightarrow> tc_parked c = tc_parked d \<Longrightarrow> tab_slots s c = tab_slots s d"
  by (simp add: tab_slots_def)

section \<open>Taking a Tab\<close>

lemma indices_in_less: "k \<in> set (indices_in s c) \<Longrightarrow> k < length (tc_tabs c)"
  by (simp add: indices_in_def)

lemma fallback_cong:
  "tc_tabs c = tc_tabs d \<Longrightarrow> tc_activation_order c = tc_activation_order d \<Longrightarrow> fallback_tab s k c = fallback_tab s k d"
  by (simp only: fallback_tab_def indices_in_def)

lemma fallback_known:
  assumes "tc_tabs c \<noteq> []" "set (tc_activation_order c) = te_id ` set (tc_tabs c)"
  obtains f where "fallback_tab s k c = Some f" "f \<in> te_id ` set (tc_tabs c)"
proof -
  have known: "te_id (tc_tabs c ! j) \<in> te_id ` set (tc_tabs c)" if "j \<in> set (indices_in s c)" for j
    using indices_in_less [OF that] by simp
  have some: "tc_activation_order c \<noteq> []" using assms by auto
  then have "last (tc_activation_order c) \<in> te_id ` set (tc_tabs c)" using assms(2) last_in_set by blast
  moreover have "indices_in s c ! p \<in> set (indices_in s c)" if "position q (indices_in s c) = Some p" for p q
    using position_SomeD(1) [OF that] by simp
  moreover have "last (indices_in s c) \<in> set (indices_in s c)" if "indices_in s c \<noteq> []" using that by simp
  ultimately have "\<exists>f. fallback_tab s k c = Some f \<and> f \<in> te_id ` set (tc_tabs c)"
    using known some by (cases "position (\<lambda>sibling. k \<le> sibling) (indices_in s c)") (simp_all add: fallback_tab_def Let_def del: position_None_iff)
  then show ?thesis using that by blast
qed

lemma take_tab_taken:
  assumes "tabs_ok c" "tc_tabs c = P @ t # Q" "P @ Q \<noteq> []"
  obtains c' where "take_tab (te_id t) c = Some (Inr (TabClosed (te_id t) (tc_active c') (te_payload t)), c')"
    "tc_tabs c' = P @ Q" "tc_parked c' = tc_parked c" "tc_next c' = tc_next c" "tabs_tail c'"
    "tc_active c = te_id t \<longrightarrow> fallback_tab (te_scope t) (length P)
      (c\<lparr>tc_tabs := P @ Q, tc_activation_order := filter (\<lambda>j. j \<noteq> te_id t) (tc_activation_order c)\<rparr>) = Some (tc_active c')"
proof -
  let ?i = "te_id t" and ?s = "te_scope t"
  note d = tabs_okD [OF assms(1)]
  have away: "?i \<notin> te_id ` set (P @ Q)" using tabs_coreD(1) [OF d(1)] assms(2) by auto
  note index = index_at [OF tabs_coreD(1) [OF d(1)] assms(2)]
  define c1 where "c1 = c\<lparr>tc_tabs := P @ Q, tc_activation_order := filter (\<lambda>j. j \<noteq> ?i) (tc_activation_order c)\<rparr>"
  define c2 where "c2 = (if tc_root c = ?i then c1\<lparr>tc_root := promoted_root ?s c1\<rparr> else c1)"
  have ids: "te_id ` set (tc_tabs c) - {?i} = te_id ` set (P @ Q)" using away assms(2) by auto
  have c2: "tc_tabs c2 = P @ Q" "tc_parked c2 = tc_parked c" "tc_next c2 = tc_next c" "tc_active c2 = tc_active c"
    "distinct (tc_activation_order c2)" "set (tc_activation_order c2) = te_id ` set (P @ Q)"
    using d(4,5) ids by (auto simp: c1_def c2_def)
  have "promoted_root ?s c1 \<in> te_id ` set (P @ Q)"
  proof (cases "List.find (\<lambda>u. te_scope u = ?s) (P @ Q)")
    case None
    have "(P @ Q) ! 0 \<in> set (P @ Q)" using assms(3) by (intro nth_mem) simp
    then show ?thesis using None by (simp add: promoted_root_def c1_def del: set_append)
  next
    case (Some u)
    then have "u \<in> set (P @ Q)" by (auto simp: find_Some_iff simp del: set_append)
    then show ?thesis using Some by (simp add: promoted_root_def c1_def del: set_append)
  qed
  then have root: "tc_root c2 \<in> te_id ` set (P @ Q)" using d(3) ids by (auto simp: c2_def c1_def)
  have not_last: "resolve_close CloseTab (length (tc_tabs c)) \<noteq> Parent" using assms(2,3) by (cases P; cases Q) auto
  have run: "take_tab ?i c = map_option (\<lambda>c. (Inr (TabClosed ?i (tc_active c) (te_payload t)), c))
      (if tc_active c2 = ?i then map_option (\<lambda>f. set_active f c2) (fallback_tab ?s (length P) c2) else Some c2)"
  proof -
    have "tc_tabs c ! length P = t" "remove_at (length P) (tc_tabs c) = P @ Q" by (simp_all add: assms(2))
    then show ?thesis unfolding take_tab_def index sum.case if_not_P [OF not_last] Let_def c2_def c1_def by simp
  qed
  show ?thesis
  proof (cases "tc_active c2 = ?i")
    case True
    obtain f where f: "fallback_tab ?s (length P) c2 = Some f" "f \<in> te_id ` set (P @ Q)"
      using fallback_known [of c2] c2(1,6) assms(3) by metis
    have "fallback_tab ?s (length P) c1 = Some f" using f(1) fallback_cong [of c1 c2] by (simp add: c2_def)
    then show ?thesis using that [of "set_active f c2"] run True c2 root f by (simp add: tabs_tail_def insert_absorb c1_def)
  next
    case False
    then have "tc_active c2 \<in> te_id ` set (P @ Q)" using d(2) c2(4) ids by auto
    then show ?thesis using that [of c2] run False c2 root by (simp add: tabs_tail_def)
  qed
qed

section \<open>Changing the order of one Worktree\<close>

lemma tabs_coreI:
  assumes "distinct (map te_id (tc_tabs c))" "omap_ok (tc_parked c)" "te_id ` set (tc_tabs c) \<inter> fst ` set (tc_parked c) = {}"
    and "\<forall>i\<in>te_id ` set (tc_tabs c) \<union> fst ` set (tc_parked c). i < tc_next c" "tc_next c \<le> u64_max"
    and "grouped (map te_scope (tc_tabs c))" "\<And>s. kept s c (F s)"
  shows "tabs_core c \<and> (\<forall>s. tab_slots s c = F s)"
  unfolding tabs_core_def using assms(1-6) kept_slots [OF assms(7)] assms(7) by blast

lemma known_below: "tabs_core c \<Longrightarrow> \<forall>i\<in>te_id ` set (tc_tabs c) \<union> fst ` set (tc_parked c). i < tc_next c"
  unfolding tabs_core_def by blast

lemma ball_sub: "A \<subseteq> B \<Longrightarrow> \<forall>x\<in>B. P x \<Longrightarrow> \<forall>x\<in>A. P x"
  by blast

text \<open>Another order for the Worktree \<open>s\<close>, the other Worktrees as they were.\<close>

definition reordered :: "scope \<Rightarrow> (bool \<times> u64) list \<Rightarrow> 'a tab_collection \<Rightarrow> 'a tab_collection \<Rightarrow> bool" where
  "reordered s L c c' \<longleftrightarrow> tabs_core c' \<and> (\<forall>s'. tab_slots s' c' = (if s' = s then L else tab_slots s' c))"

lemma core_insert:
  assumes "tabs_core c" "tab_block s (tc_tabs c) X Y Z" "te_scope e = s" "j \<le> length Y"
    and k: "k = (if Y = [] then length (tc_tabs c) else length X + j)"
    and new: "te_id e \<notin> te_id ` set (tc_tabs c)" "te_id e < tc_next c'" "tc_next c \<le> tc_next c'" "tc_next c' \<le> u64_max"
    and parked: "omap_ok (tc_parked c')" "fst ` set (tc_parked c') = fst ` set (tc_parked c) - {te_id e}"
      "\<And>s'. s' \<noteq> s \<Longrightarrow> mset (spots_in s' (tc_parked c')) = mset (spots_in s' (tc_parked c))"
    and L: "insert_at j (te_id e) (ids_in s (tc_tabs c)) = shown L" "mset (spots_in s (tc_parked c')) = mset (hidden_at 0 L)"
    and tabs: "tc_tabs c' = insert_at k e (tc_tabs c)"
  shows "reordered s L c c'"
  unfolding reordered_def
proof (rule tabs_coreI)
  note d = tabs_coreD [OF assms(1)] and i = insert_block [OF assms(2) tabs_coreD(7) [OF assms(1)] assms(3,4) k]
  have m: "mset (tc_tabs c') = add_mset e (mset (tc_tabs c))" by (simp add: tabs)
  then have set: "set (tc_tabs c') = insert e (set (tc_tabs c))" by (metis set_mset_add_mset_insert set_mset_mset)
  have "mset (map te_id (tc_tabs c')) = mset (te_id e # map te_id (tc_tabs c))" using m by simp
  then show "distinct (map te_id (tc_tabs c'))" using d(1) new(1) mset_eq_imp_distinct_iff by fastforce
  show "omap_ok (tc_parked c')" by (rule parked(1))
  show "te_id ` set (tc_tabs c') \<inter> fst ` set (tc_parked c') = {}" unfolding set parked(2) using d(3) by auto
  show "\<forall>i\<in>te_id ` set (tc_tabs c') \<union> fst ` set (tc_parked c'). i < tc_next c'"
    unfolding set parked(2) using d(4,5) new(2,3) by fastforce
  show "tc_next c' \<le> u64_max" by (rule new(4))
  show "grouped (map te_scope (tc_tabs c'))" using i(3) by (simp add: tabs)
  show "kept s' c' (if s' = s then L else tab_slots s' c)" for s'
    using d(8) [of s'] i(1) i(2) [of s'] L parked(3) [of s'] by (simp add: kept_def tabs)
qed

lemma core_remove:
  assumes "tabs_core c" "tc_tabs c = P @ t # Q" "te_scope t = s" "tc_tabs c' = P @ Q" "tc_next c' = tc_next c"
    and parked: "omap_ok (tc_parked c')" "fst ` set (tc_parked c') \<subseteq> insert (te_id t) (fst ` set (tc_parked c))"
      "\<And>s'. s' \<noteq> s \<Longrightarrow> mset (spots_in s' (tc_parked c')) = mset (spots_in s' (tc_parked c))"
    and L: "ids_in s (P @ Q) = shown L" "mset (spots_in s (tc_parked c')) = mset (hidden_at 0 L)"
  shows "reordered s L c c'"
  unfolding reordered_def
proof (rule tabs_coreI)
  note d = tabs_coreD [OF assms(1)]
  show "distinct (map te_id (tc_tabs c'))" using d(1) assms(2,4) by auto
  show "omap_ok (tc_parked c')" by (rule parked(1))
  have ids: "te_id ` set (P @ Q) \<subseteq> te_id ` set (tc_tabs c)" "te_id t \<notin> te_id ` set (P @ Q)" "te_id t \<in> te_id ` set (tc_tabs c)"
    using d(1) assms(2) by auto
  have "te_id ` set (P @ Q) \<inter> insert (te_id t) (fst ` set (tc_parked c)) = {}"
    using ids(2) disjoint_mono [OF ids(1) subset_refl d(3)] by (simp only: Int_insert_right if_False)
  then show "te_id ` set (tc_tabs c') \<inter> fst ` set (tc_parked c') = {}"
    unfolding assms(4) by (rule disjoint_mono [OF subset_refl parked(2)])
  have "te_id ` set (P @ Q) \<union> fst ` set (tc_parked c') \<subseteq> te_id ` set (tc_tabs c) \<union> fst ` set (tc_parked c)"
    by (rule Un_least [OF le_supI1 [OF ids(1)] order_trans [OF parked(2)]]) (simp only: insert_subset Un_iff ids(3) Un_upper2 simp_thms)
  then show "\<forall>i\<in>te_id ` set (tc_tabs c') \<union> fst ` set (tc_parked c'). i < tc_next c'"
    unfolding assms(4,5) using known_below [OF assms(1)] by (rule ball_sub)
  show "tc_next c' \<le> u64_max" using d(6) assms(5) by simp
  show "grouped (map te_scope (tc_tabs c'))" using d(7) assms(2,4) grouped_remove by simp
  show "kept s' c' (if s' = s then L else tab_slots s' c)" for s'
    using d(8) [of s'] L parked(3) [of s'] assms(2-4) by (cases "s' = s") (simp_all add: kept_def)
qed

lemma core_parked:
  assumes "tabs_core c" "tc_tabs c' = tc_tabs c" "tc_next c' = tc_next c"
    and parked: "omap_ok (tc_parked c')" "fst ` set (tc_parked c') \<subseteq> fst ` set (tc_parked c)"
      "\<And>s'. s' \<noteq> s \<Longrightarrow> mset (spots_in s' (tc_parked c')) = mset (spots_in s' (tc_parked c))"
    and L: "ids_in s (tc_tabs c) = shown L" "mset (spots_in s (tc_parked c')) = mset (hidden_at 0 L)"
  shows "reordered s L c c'"
  unfolding reordered_def
proof (rule tabs_coreI)
  note d = tabs_coreD [OF assms(1)]
  show "te_id ` set (tc_tabs c') \<inter> fst ` set (tc_parked c') = {}"
    unfolding assms(2) by (rule disjoint_mono [OF subset_refl parked(2) d(3)])
  show "\<forall>i\<in>te_id ` set (tc_tabs c') \<union> fst ` set (tc_parked c'). i < tc_next c'"
    unfolding assms(2,3) by (rule ball_sub [OF Un_mono [OF subset_refl parked(2)] known_below [OF assms(1)]])
  show "kept s' c' (if s' = s then L else tab_slots s' c)" for s'
    using d(8) [of s'] L parked(3) [of s'] assms(2) by (cases "s' = s") (simp_all add: kept_def)
qed (use tabs_coreD [OF assms(1)] assms(2,3) parked(1) in simp_all)

lemma core_permute:
  assumes "tabs_core c" "tc_tabs c' = ts" "tc_parked c' = tc_parked c" "tc_next c' = tc_next c"
    and "map te_scope ts = map te_scope (tc_tabs c)" "mset ts = mset (tc_tabs c)"
  shows "tabs_core c' \<and> (\<forall>s. tab_slots s c' = refill (ids_in s ts) (tab_slots s c))"
proof (rule tabs_coreI)
  note d = tabs_coreD [OF assms(1)]
  have set: "set (tc_tabs c') = set (tc_tabs c)" using assms(2,6) mset_eq_setD by metis
  have "mset (map te_id ts) = mset (map te_id (tc_tabs c))" using assms(6) by simp
  then show "distinct (map te_id (tc_tabs c'))" using d(1) assms(2) mset_eq_imp_distinct_iff by metis
  show "te_id ` set (tc_tabs c') \<inter> fst ` set (tc_parked c') = {}" unfolding set assms(3) by (rule d(3))
  show "\<forall>i\<in>te_id ` set (tc_tabs c') \<union> fst ` set (tc_parked c'). i < tc_next c'"
    unfolding set assms(3,4) by (rule known_below [OF assms(1)])
  show "kept s c' (refill (ids_in s ts) (tab_slots s c))" for s
    using kept_refill [OF d(8) [of s] length_ids_in [OF assms(5)]] assms(2,3) by (simp add: kept_def)
qed (use tabs_coreD [OF assms(1)] assms(2-5) in simp_all)

end
