(* ===== verification/Tab_Ops.thy ===== *)
theory Tab_Ops
  imports Tab_Laws
begin

text \<open>
  What every operation on the Tabs of a window does to the order of each Worktree, and that it keeps
  the invariant.
\<close>

section \<open>Each operation\<close>

lemma tabs_ok_reordered: "reordered s L c c' \<Longrightarrow> tabs_tail c' \<Longrightarrow> tabs_ok c'"
  by (simp add: tabs_ok_def reordered_def)

lemma reordered_slots: "reordered s L c c' \<Longrightarrow> tab_slots s' c' = (if s' = s then L else tab_slots s' c)"
  by (simp add: reordered_def)

lemma set_active_core: "tabs_core (set_active i c) = tabs_core c" "tab_slots s (set_active i c) = tab_slots s c"
  by (simp_all add: tabs_core_cong [of "set_active i c" c] tab_slots_cong [of "set_active i c" c])

lemma set_active_tail:
  assumes "tc_root c \<in> te_id ` set (tc_tabs c)" "distinct (tc_activation_order c)" "i \<in> te_id ` set (tc_tabs c)"
    and "insert i (set (tc_activation_order c)) = te_id ` set (tc_tabs c)"
  shows "tabs_tail (set_active i c)"
  using assms by (simp add: tabs_tail_def)

lemma retire_spots:
  assumes "mset (spots_in s (tc_parked c)) = mset (hidden_at 0 A @ hidden_at (Suc (length A)) B)"
  shows "mset (spots_in s (tc_parked (retire_position s (length A) c))) = mset (hidden_at 0 (A @ B))"
proof -
  have "mset (map (\<lambda>(q, e). (if length A < q then q - 1 else q, e)) (spots_in s (tc_parked c))) =
      mset (map (\<lambda>(q, e). (if length A < q then q - 1 else q, e)) (hidden_at 0 A @ hidden_at (Suc (length A)) B))"
    using assms by (simp only: mset_map)
  then show ?thesis by (simp only: spots_in_retire if_True hidden_retire simp_thms)
qed

lemma create_ok:
  assumes "tabs_ok c" "tc_next c < u64_max"
  obtains c' where "create_tab_in s f c = (Inr (tc_next c), c')" "tabs_ok c'"
    "reordered s (tab_slots s c @ [(False, tc_next c)]) c c'"
proof -
  note d = tabs_okD [OF assms(1)] and e = tabs_coreD [OF tabs_okD(1) [OF assms(1)]]
  let ?i = "tc_next c" and ?L = "tab_slots s c"
  define t where "t = \<lparr>te_id = ?i, te_scope = s, te_payload = f ?i\<rparr>"
  define c1 where "c1 = c\<lparr>tc_tabs := insert_at (after_last (\<lambda>t. te_scope t = s) (tc_tabs c)) t (tc_tabs c), tc_next := ?i + 1\<rparr>"
  have run: "create_tab_in s f c = (Inr ?i, set_active ?i c1)"
    using assms(2) by (simp add: create_tab_in_def next_tab_id_def checked_add_def c1_def t_def)
  have new: "?i \<notin> te_id ` set (tc_tabs c)" "?i \<notin> fst ` set (tc_parked c)" using e(4,5) by blast+
  obtain X Y Z where b: "tab_block s (tc_tabs c) X Y Z" using tab_block_exists [OF e(7)] .
  have "length (ids_in s (tc_tabs c)) = length Y" by (simp add: tab_block_ids [OF b])
  moreover have "ids_in s (tc_tabs c) = shown ?L" using e(8) [of s] unfolding kept_def by blast
  ultimately have ids: "insert_at (length Y) ?i (ids_in s (tc_tabs c)) = shown (?L @ [(False, ?i)])" by (simp add: insert_at_def)
  have "reordered s (?L @ [(False, ?i)]) c c1"
    by (rule core_insert [OF d(1) b, where e = t and j = "length Y"])
      (use e(2,6,8) new assms(2) ids tab_block_after [OF b] in \<open>auto simp: c1_def t_def kept_def\<close>)
  then have r: "reordered s (?L @ [(False, ?i)]) c (set_active ?i c1)" by (simp add: reordered_def set_active_core)
  have ids': "te_id ` set (tc_tabs c1) = insert ?i (te_id ` set (tc_tabs c))" by (simp add: c1_def t_def set_insert_at)
  have "tabs_tail (set_active ?i c1)" using d(3-5) ids' by (intro set_active_tail) (simp_all add: c1_def)
  then show ?thesis using that [OF run tabs_ok_reordered [OF r] r] by blast
qed

lemma create_exhausted: "tc_next c = u64_max \<Longrightarrow> create_tab_in s f c = (Inl TabIdSpaceExhausted, c)"
  by (simp add: create_tab_in_def next_tab_id_def checked_add_def)

lemma activate_ok:
  assumes "tabs_ok c"
  shows "tabs_ok (snd (activate_tab i c)) \<and> tab_slots s (snd (activate_tab i c)) = tab_slots s c"
proof (cases "index_of i c")
  case (Inr k)
  obtain P t Q where "tc_tabs c = P @ t # Q" "te_id t = i" using index_ofD [OF Inr] by metis
  then have "i \<in> te_id ` set (tc_tabs c)" by auto
  then have "tabs_tail (set_active i c)" using tabs_okD [OF assms] by (intro set_active_tail) (simp_all add: insert_absorb)
  then show ?thesis using tabs_okD(1) [OF assms] by (simp add: activate_tab_def Inr tabs_ok_def set_active_core)
qed (use assms in \<open>simp add: activate_tab_def\<close>)

lemma close_ok:
  assumes "tabs_ok c" "tc_tabs c = P @ t # Q" "P @ Q \<noteq> []"
  obtains A B c' where "tab_slots (te_scope t) c = A @ (False, te_id t) # B"
    "close_tab (te_id t) c = Some (Inr (TabClosed (te_id t) (tc_active c') (te_payload t)), c')" "tabs_ok c'"
    "reordered (te_scope t) (A @ B) c c'" "tc_parked c' = tc_parked (retire_position (te_scope t) (length A) c)"
    "tc_tabs c' = P @ Q"
    "tc_active c = te_id t \<longrightarrow> fallback_tab (te_scope t) (length P)
      (c\<lparr>tc_tabs := P @ Q, tc_activation_order := filter (\<lambda>j. j \<noteq> te_id t) (tc_activation_order c)\<rparr>) = Some (tc_active c')"
proof -
  let ?s = "te_scope t"
  note d = tabs_okD [OF assms(1)] and e = tabs_coreD [OF tabs_okD(1) [OF assms(1)]]
  obtain A B where p: "tab_slots ?s c = A @ (False, te_id t) # B" "shown A = ids_in ?s P" "shown B = ids_in ?s Q"
    "retained_position (te_id t) c = Inr (?s, length A)" using retained_place [OF d(1) assms(2)] by metis
  obtain c1 where t: "take_tab (te_id t) c = Some (Inr (TabClosed (te_id t) (tc_active c1) (te_payload t)), c1)"
    "tc_tabs c1 = P @ Q" "tc_parked c1 = tc_parked c" "tc_next c1 = tc_next c" "tabs_tail c1"
    "tc_active c = te_id t \<longrightarrow> fallback_tab (te_scope t) (length P)
      (c\<lparr>tc_tabs := P @ Q, tc_activation_order := filter (\<lambda>j. j \<noteq> te_id t) (tc_activation_order c)\<rparr>) = Some (tc_active c1)"
    by (rule take_tab_taken [OF assms])
  let ?c = "retire_position ?s (length A) c1"
  have parked: "tc_parked ?c = tc_parked (retire_position ?s (length A) c)" by (simp add: retire_position_def t(3))
  have spots: "mset (spots_in ?s (tc_parked ?c)) = mset (hidden_at 0 (A @ B))"
    unfolding parked by (rule retire_spots) (use e(8) [of ?s] p(1) in \<open>simp add: kept_def\<close>)
  have r: "reordered ?s (A @ B) c ?c"
    by (rule core_remove [OF d(1) assms(2) refl]) (use t(2-4) e(2) p(2,3) spots in \<open>simp_all add: parked spots_in_retire subset_insertI\<close>)
  moreover have "tabs_tail ?c" using t(5) by (simp add: tabs_tail_def)
  ultimately have "tabs_ok ?c" by (rule tabs_ok_reordered)
  moreover have "close_tab (te_id t) c = Some (Inr (TabClosed (te_id t) (tc_active ?c) (te_payload t)), ?c)"
    using p(4) t(1) by (simp add: close_tab_def)
  ultimately show ?thesis using that [OF p(1) _ _ r parked] t(2,6) by simp
qed

lemma park_ok:
  assumes "tabs_ok c" "tc_tabs c = P @ t # Q" "P @ Q \<noteq> []"
  obtains c' where "park_tab (te_id t) c = Some (Inr (Some \<lparr>pk_entry = t, pk_was_root = (tc_root c = te_id t)\<rparr>), c')"
    "tabs_ok c'" "reordered (te_scope t) (mark id True (te_id t) (tab_slots (te_scope t) c)) c c'"
    "\<exists>p. tc_parked c' = omap_insert (te_id t) (te_scope t, p) (tc_parked c)" "tc_tabs c' = P @ Q"
proof -
  let ?s = "te_scope t"
  note d = tabs_okD [OF assms(1)] and e = tabs_coreD [OF tabs_okD(1) [OF assms(1)]]
  obtain A B where p: "tab_slots ?s c = A @ (False, te_id t) # B" "shown A = ids_in ?s P" "shown B = ids_in ?s Q"
    "retained_position (te_id t) c = Inr (?s, length A)" using retained_place [OF d(1) assms(2)] by metis
  obtain c1 where t: "take_tab (te_id t) c = Some (Inr (TabClosed (te_id t) (tc_active c1) (te_payload t)), c1)"
    "tc_tabs c1 = P @ Q" "tc_parked c1 = tc_parked c" "tc_next c1 = tc_next c" "tabs_tail c1"
    by (rule take_tab_taken [OF assms])
  let ?c = "c1\<lparr>tc_parked := omap_insert (te_id t) (?s, length A) (tc_parked c1)\<rparr>"
  have away: "te_id t \<notin> fst ` set (tc_parked c)" using e(3) assms(2) by auto
  have "mset (spots_in ?s (tc_parked c)) = mset (hidden_at 0 (A @ (False, te_id t) # B))" using e(8) [of ?s] p(1) by (simp add: kept_def)
  then have "mset (spots_in ?s (tc_parked ?c)) = mset (hidden_at 0 (A @ (True, te_id t) # B))"
    by (simp add: t(3) spots_in_insert [OF e(2) away])
  then have r: "reordered ?s (A @ (True, te_id t) # B) c ?c"
    by (intro core_remove [OF d(1) assms(2) refl])
      (use t(2-4) e(2) p(2,3) in \<open>simp_all add: spots_in_insert [OF e(2) away] omap_ok_insert keys_omap_insert\<close>)
  have "te_id t \<notin> set (map snd (A @ B))" using slots_keys [OF d(1), of ?s] p(1) by auto
  then have m: "A @ (True, te_id t) # B = mark id True (te_id t) (tab_slots ?s c)"
    using mark_other [of "te_id t" id A True] mark_other [of "te_id t" id B True] p(1) by (simp add: comp_def)
  have "tabs_tail ?c" using t(5) by (simp add: tabs_tail_def)
  then have ok: "tabs_ok ?c" by (rule tabs_ok_reordered [OF r])
  have run: "park_tab (te_id t) c = Some (Inr (Some \<lparr>pk_entry = t, pk_was_root = (tc_root c = te_id t)\<rparr>), ?c)"
    using index_at [OF e(1) assms(2)] p(4) t(1) assms(2) by (simp add: park_tab_def Let_def)
  show ?thesis by (rule that [OF run ok r [unfolded m]]) (use t(2,3) in auto)
qed

lemma parked_place:
  assumes "tabs_core c" "map_of (tc_parked c) i = Some (s, p)"
  obtains A B where "tab_slots s c = A @ (True, i) # B" "p = length A" "ids_in s (tc_tabs c) = shown A @ shown B"
    "mset (spots_in s (omap_remove i (tc_parked c))) = mset (hidden_at 0 A @ hidden_at (Suc (length A)) B)"
proof -
  note e = tabs_coreD [OF assms(1)]
  let ?L = "tab_slots s c"
  have k: "ids_in s (tc_tabs c) = shown ?L" "mset (spots_in s (tc_parked c)) = mset (hidden_at 0 ?L)"
    using e(8) [of s] unfolding kept_def by blast+
  have m: "mset (spots_in s (tc_parked c)) = add_mset (p, i) (mset (spots_in s (omap_remove i (tc_parked c))))"
    using spots_in_remove [OF e(2) assms(2), of s] by simp
  then have "(p, i) \<in> set (hidden_at 0 ?L)" using k(2) by (metis set_mset_mset union_single_eq_member)
  then obtain n where n: "n < length (hidden_at 0 ?L)" "hidden_at 0 ?L ! n = (p, i)" by (metis in_set_conv_nth)
  then obtain A f B where L: "?L = A @ (True, f) # B" "hidden_at 0 ?L ! n = (0 + length A, f)" using hidden_split by metis
  then have "p = length A" "f = i" using n(2) by auto
  then show ?thesis using that [of A B] L(1) k m by simp
qed

lemma before_count:
  assumes "mset (spots_in s m) = mset (hidden_at 0 A @ hidden_at (Suc (length A)) B)"
  shows "length (filter (\<lambda>(other, p). other = s \<and> p < length A) (omap_values m)) = length (hidden_at 0 A)"
proof -
  have "length (filter (\<lambda>(other, p). other = s \<and> p < length A) (omap_values m)) = size (filter_mset (\<lambda>x. fst x < length A) (mset (spots_in s m)))"
    by (induction m) (auto simp: omap_values_def spots_in_def)
  also have "\<dots> = length (filter (\<lambda>x. fst x < length A) (hidden_at 0 A @ hidden_at (Suc (length A)) B))"
    unfolding assms by (simp flip: mset_filter)
  also have "\<dots> = length (hidden_at 0 A)"
  proof -
    have "filter (\<lambda>x. fst x < length A) (hidden_at 0 A) = hidden_at 0 A"
      using hidden_at_range [of _ _ 0 A] by (fastforce simp: filter_id_conv)
    moreover have "filter (\<lambda>x. fst x < length A) (hidden_at (Suc (length A)) B) = []"
      using hidden_at_range [of _ _ "Suc (length A)" B] by (fastforce simp: filter_empty_conv)
    ultimately show ?thesis by simp
  qed
  finally show ?thesis .
qed

lemma restore_ok:
  assumes "tabs_ok c" "map_of (tc_parked c) (te_id e) = Some (te_scope e, p)"
  obtains c' where "restore_parked_tab \<lparr>pk_entry = e, pk_was_root = b\<rparr> c = Some c'" "tabs_ok c'"
    "reordered (te_scope e) (mark id False (te_id e) (tab_slots (te_scope e) c)) c c'"
    "tc_parked c' = omap_remove (te_id e) (tc_parked c)"
proof -
  let ?i = "te_id e" and ?s = "te_scope e"
  note d = tabs_okD [OF assms(1)] and f = tabs_coreD [OF tabs_okD(1) [OF assms(1)]]
  obtain A B where p: "tab_slots ?s c = A @ (True, ?i) # B" "p = length A" "ids_in ?s (tc_tabs c) = shown A @ shown B"
    "mset (spots_in ?s (omap_remove ?i (tc_parked c))) = mset (hidden_at 0 A @ hidden_at (Suc (length A)) B)"
    using parked_place [OF d(1) assms(2)] by metis
  obtain X Y Z where block: "tab_block ?s (tc_tabs c) X Y Z" using tab_block_exists [OF f(7)] .
  have lenY: "length Y = length (shown A) + length (shown B)" using tab_block_ids [OF block] p(3) by (metis length_append length_map)
  define k where "k = (if Y = [] then length (tc_tabs c) else length X + length (shown A))"
  define c1 where "c1 = c\<lparr>tc_parked := omap_remove ?i (tc_parked c), tc_root := (if b then ?i else tc_root c),
      tc_activation_order := ?i # tc_activation_order c, tc_tabs := insert_at k e (tc_tabs c)\<rparr>"
  have known: "?i \<in> fst ` set (tc_parked c)" using assms(2) by (metis domI dom_map_of_conv_image_fst)
  then have away: "?i \<notin> te_id ` set (tc_tabs c)" "?i < tc_next c" using f(3,5) by blast+
  have r: "reordered ?s (A @ (False, ?i) # B) c c1"
  proof (rule core_insert [OF d(1) block refl _ k_def away(1)])
    show "insert_at (length (shown A)) ?i (ids_in ?s (tc_tabs c)) = shown (A @ (False, ?i) # B)" by (simp add: p(3))
    show "mset (spots_in s' (tc_parked c1)) = mset (spots_in s' (tc_parked c))" if "s' \<noteq> ?s" for s'
      using that spots_in_remove [OF f(2) assms(2), of s'] by (simp add: c1_def)
  qed (use f(2,6) away(2) lenY p(4) in \<open>simp_all add: c1_def\<close>)
  have "?i \<notin> set (map snd (A @ B))" using slots_keys [OF d(1), of ?s] p(1) by auto
  then have m: "A @ (False, ?i) # B = mark id False ?i (tab_slots ?s c)"
    using mark_other [of ?i id A False] mark_other [of ?i id B False] p(1) by (simp add: comp_def)
  have "te_id ` set (tc_tabs c1) = insert ?i (te_id ` set (tc_tabs c))" by (simp add: c1_def set_insert_at)
  then have "tabs_tail c1" using d(2-5) away(1) by (simp add: tabs_tail_def c1_def)
  then have ok: "tabs_ok c1" by (rule tabs_ok_reordered [OF r])
  have run: "restore_parked_tab \<lparr>pk_entry = e, pk_was_root = b\<rparr> c = Some c1"
  proof -
    let ?d = "c\<lparr>tc_parked := omap_remove ?i (tc_parked c)\<rparr>"
    have sib: "indices_in ?s ?d = [length X..<length X + length Y]" using tab_block_indices [of ?s ?d X Y Z] block by simp
    have "p - length (filter (\<lambda>(other, q). other = ?s \<and> q < p) (omap_values (tc_parked ?d))) = length (shown A)"
      using before_count [of ?s "omap_remove ?i (tc_parked c)" A B] p(2,4) hidden_length [of A] by simp
    then have "restore_parked_tab \<lparr>pk_entry = e, pk_was_root = b\<rparr> c = Some ((if b then ?d\<lparr>tc_root := ?i\<rparr> else ?d)\<lparr>
        tc_activation_order := ?i # tc_activation_order c, tc_tabs := insert_at
          (if length (shown A) < length Y then length X + length (shown A) else if Y \<noteq> [] then length X + length Y else length (tc_tabs c)) e (tc_tabs c)\<rparr>)"
      using assms(2) by (simp add: restore_parked_tab_def Let_def sib)
    moreover have "(if length (shown A) < length Y then length X + length (shown A) else if Y \<noteq> [] then length X + length Y else length (tc_tabs c)) = k"
      using lenY by (auto simp: k_def)
    ultimately show ?thesis by (simp add: c1_def)
  qed
  show ?thesis by (rule that [OF run ok r [unfolded m]]) (simp add: c1_def)
qed

lemma discard_ok:
  assumes "tabs_ok c" "map_of (tc_parked c) (te_id (pk_entry x)) = Some (s, p)"
  obtains A B where "tab_slots s c = A @ (True, te_id (pk_entry x)) # B" "tabs_ok (snd (discard_parked_tab x c))"
    "reordered s (A @ B) c (snd (discard_parked_tab x c))"
    "tc_parked (snd (discard_parked_tab x c)) = tc_parked (retire_position s p (c\<lparr>tc_parked := omap_remove (te_id (pk_entry x)) (tc_parked c)\<rparr>))"
proof -
  let ?i = "te_id (pk_entry x)" and ?c = "snd (discard_parked_tab x c)"
  note d = tabs_okD [OF assms(1)] and f = tabs_coreD [OF tabs_okD(1) [OF assms(1)]]
  obtain A B where p: "tab_slots s c = A @ (True, ?i) # B" "p = length A" "ids_in s (tc_tabs c) = shown A @ shown B"
    "mset (spots_in s (omap_remove ?i (tc_parked c))) = mset (hidden_at 0 A @ hidden_at (Suc (length A)) B)"
    using parked_place [OF d(1) assms(2)] by metis
  let ?d = "c\<lparr>tc_parked := omap_remove ?i (tc_parked c)\<rparr>"
  have run: "?c = retire_position s p ?d" using assms(2) by (simp add: discard_parked_tab_def)
  have spots: "mset (spots_in s (tc_parked ?c)) = mset (hidden_at 0 (A @ B))"
    using retire_spots [of s ?d A B] p(2,4) by (simp add: run)
  have r: "reordered s (A @ B) c ?c"
    by (rule core_parked [OF d(1)])
      (use f(2) p(3) spots spots_in_remove [OF f(2) assms(2)] in \<open>auto simp: run spots_in_retire\<close>)
  have "tabs_tail ?c" using d(6) by (simp add: tabs_tail_def run)
  then show ?thesis using that [OF p(1) tabs_ok_reordered [OF r] r] run by simp
qed

lemma rescope_ok:
  assumes "tabs_ok c" "tc_tabs c = P @ t # Q" "te_scope t \<noteq> s"
  obtains A B c' where "tab_slots (te_scope t) c = A @ (False, te_id t) # B" "set_tab_scope (te_id t) s c = (Inr (), c')" "tabs_ok c'"
    "tab_slots (te_scope t) c' = A @ B" "tab_slots s c' = tab_slots s c @ [(False, te_id t)]"
    "\<forall>s'. s' \<noteq> s \<longrightarrow> s' \<noteq> te_scope t \<longrightarrow> tab_slots s' c' = tab_slots s' c"
    "tc_parked c' = tc_parked (retire_position (te_scope t) (length A) c)"
proof -
  let ?s = "te_scope t" and ?i = "te_id t"
  note d = tabs_okD [OF assms(1)] and e = tabs_coreD [OF tabs_okD(1) [OF assms(1)]]
  obtain A B where p: "tab_slots ?s c = A @ (False, ?i) # B" "shown A = ids_in ?s P" "shown B = ids_in ?s Q"
    "retained_position ?i c = Inr (?s, length A)" using retained_place [OF d(1) assms(2)] by metis
  define c1 where "c1 = (retire_position ?s (length A) c)\<lparr>tc_tabs := P @ Q\<rparr>"
  define u where "u = t\<lparr>te_scope := s\<rparr>"
  define c2 where "c2 = (retire_position ?s (length A) c)\<lparr>tc_tabs := insert_at (after_last (\<lambda>t. te_scope t = s) (P @ Q)) u (P @ Q)\<rparr>"
  have spots: "mset (spots_in ?s (tc_parked c1)) = mset (hidden_at 0 (A @ B))"
    using retire_spots [of ?s c A B] e(8) [of ?s] p(1) by (simp add: c1_def kept_def)
  have r: "reordered ?s (A @ B) c c1"
    by (rule core_remove [OF d(1) assms(2) refl]) (use e(2) p(2,3) spots in \<open>simp_all add: c1_def spots_in_retire subset_insertI\<close>)
  then have f: "tabs_core c1" by (simp add: reordered_def)
  note g = tabs_coreD [OF f]
  have away: "?i \<notin> te_id ` set (P @ Q)" "?i \<notin> fst ` set (tc_parked c)" "?i < tc_next c" using e(1,3,4) assms(2) by auto
  obtain X Y Z where b: "tab_block s (tc_tabs c1) X Y Z" using tab_block_exists [OF g(7)] .
  have "length (ids_in s (tc_tabs c1)) = length Y" by (simp add: tab_block_ids [OF b])
  moreover have "ids_in s (tc_tabs c1) = shown (tab_slots s c1)" using g(8) [of s] unfolding kept_def by blast
  ultimately have ids: "insert_at (length Y) ?i (ids_in s (tc_tabs c1)) = shown (tab_slots s c1 @ [(False, ?i)])" by (simp add: insert_at_def)
  have r2: "reordered s (tab_slots s c1 @ [(False, ?i)]) c1 c2"
    by (rule core_insert [OF f b, where e = u and j = "length Y"])
      (use g(2,6,8) away ids tab_block_after [OF b] in \<open>auto simp: c1_def c2_def u_def kept_def\<close>)
  have "te_id ` set (tc_tabs c2) = te_id ` set (tc_tabs c)" using assms(2) by (simp add: c2_def u_def set_insert_at)
  then have "tabs_tail c2" using d(2-5) by (simp add: tabs_tail_def c2_def)
  then have ok: "tabs_ok c2" by (rule tabs_ok_reordered [OF r2])
  have "set_tab_scope ?i s c = (Inr (), c2)"
    using index_at [OF e(1) assms(2)] assms(2,3) p(4) by (simp add: set_tab_scope_def Let_def c2_def u_def)
  then show ?thesis
    using that [OF p(1) _ ok] reordered_slots [OF r] reordered_slots [OF r2] assms(3) by (simp add: c2_def)
qed

lemma permute_ok:
  assumes "tabs_ok c" "map te_scope ts = map te_scope (tc_tabs c)" "mset ts = mset (tc_tabs c)"
  shows "tabs_ok (c\<lparr>tc_tabs := ts\<rparr>) \<and> (\<forall>s. tab_slots s (c\<lparr>tc_tabs := ts\<rparr>) = refill (ids_in s ts) (tab_slots s c))"
proof -
  have "tabs_core (c\<lparr>tc_tabs := ts\<rparr>) \<and> (\<forall>s. tab_slots s (c\<lparr>tc_tabs := ts\<rparr>) = refill (ids_in s ts) (tab_slots s c))"
    by (rule core_permute [OF tabs_okD(1) [OF assms(1)] _ _ _ assms(2,3)]) simp_all
  moreover have "tabs_tail (c\<lparr>tc_tabs := ts\<rparr>)" using tabs_okD(6) [OF assms(1)] mset_eq_setD [OF assms(3)] by (simp add: tabs_tail_def)
  ultimately show ?thesis by (simp add: tabs_ok_def)
qed

text \<open>Where a Tab stands within the block of its Worktree.\<close>

lemma block_place:
  assumes "tab_block s ts X Y Z" "ts = P @ t # Q" "te_scope t = s"
  obtains a where "length P = length X + a" "a < length Y" "Y ! a = t"
proof -
  have b: "ts = X @ Y @ Z" "\<forall>t\<in>set X. te_scope t \<noteq> s" "\<forall>t\<in>set Z. te_scope t \<noteq> s" using assms(1) unfolding tab_block_def by blast+
  have t: "(X @ Y @ Z) ! length P = t" "length P < length (X @ Y @ Z)" using assms(2) b(1) by (metis nth_append_length, simp)
  have "\<not> length P < length X" using t(1) b(2) assms(3) nth_mem by (fastforce simp: nth_append)
  moreover have "\<not> length X + length Y \<le> length P"
  proof
    assume "length X + length Y \<le> length P"
    then have "t = Z ! (length P - length X - length Y)" "length P - length X - length Y < length Z"
      using t by (auto simp: nth_append)
    then show False using b(3) assms(3) nth_mem by blast
  qed
  ultimately show ?thesis using that [of "length P - length X"] t(1) by (auto simp: nth_append)
qed

lemma move_within:
  assumes "tab_block s ts X Y Z" "a < length Y" "to < length Y"
  shows "insert_at (length X + to) (ts ! (length X + a)) (remove_at (length X + a) ts) = X @ insert_at to (Y ! a) (remove_at a Y) @ Z"
proof -
  have ts: "ts = X @ Y @ Z" using assms(1) unfolding tab_block_def by blast
  have "remove_at (length X + a) ts = X @ remove_at a Y @ Z" "ts ! (length X + a) = Y ! a"
    using assms(2) by (simp_all add: ts remove_at_def nth_append Suc_diff_le)
  moreover have "to \<le> length (remove_at a Y)" using assms(2,3) by (simp add: length_remove_at)
  ultimately show ?thesis by (simp add: insert_at_def)
qed

lemma move_ok:
  assumes "tabs_ok c"
  shows "tabs_ok (snd (move_tab i to c)) \<and> (\<forall>s. tab_slots s (snd (move_tab i to c)) = refill (ids_in s (tc_tabs (snd (move_tab i to c)))) (tab_slots s c))"
proof -
  note d = tabs_okD [OF assms] and e = tabs_coreD [OF tabs_okD(1) [OF assms]]
  have same: "tabs_ok c \<and> (\<forall>s. tab_slots s c = refill (ids_in s (tc_tabs c)) (tab_slots s c))"
    using assms permute_ok [OF assms refl refl] by simp
  show ?thesis
  proof (cases "index_of i c")
    case (Inl er)
    then show ?thesis using same by (simp add: move_tab_def)
  next
    case (Inr k)
    obtain P t Q where t: "tc_tabs c = P @ t # Q" "length P = k" "te_id t = i" using index_ofD [OF Inr] .
    obtain X Y Z where b: "tab_block (te_scope t) (tc_tabs c) X Y Z" using tab_block_exists [OF e(7)] .
    obtain a where a: "length P = length X + a" "a < length Y" "Y ! a = t" using block_place [OF b t(1) refl] .
    have ts: "tc_tabs c = X @ Y @ Z" "\<forall>u\<in>set Y. te_scope u = te_scope t" using b unfolding tab_block_def by blast+
    have nth: "tc_tabs c ! k = t" using t(1,2) by (metis nth_append_length)
    have run: "move_tab i to c = (if length Y \<le> to then (Inl (TabPositionOutOfRange to (length Y)), c)
        else if k = length X + to then (Inr False, c)
        else (Inr True, c\<lparr>tc_tabs := insert_at (length X + to) t (remove_at k (tc_tabs c))\<rparr>))"
      using Inr nth tab_block_indices [OF b] by (simp add: move_tab_def Let_def)
    show ?thesis
    proof (cases "length Y \<le> to \<or> k = length X + to")
      case True
      then show ?thesis using same run by auto
    next
      case False
      let ?ts = "X @ insert_at to (Y ! a) (remove_at a Y) @ Z"
      have moved: "insert_at (length X + to) t (remove_at k (tc_tabs c)) = ?ts"
        using move_within [OF b a(2), of to] False nth t(2) a(1) by simp
      have m: "mset (insert_at to (Y ! a) (remove_at a Y)) = mset Y" using mset_remove_at [OF a(2)] by simp
      then have "\<forall>u\<in>set (insert_at to (Y ! a) (remove_at a Y)). te_scope u = te_scope t" "length (insert_at to (Y ! a) (remove_at a Y)) = length Y"
        using ts(2) mset_eq_setD [OF m] mset_eq_length [OF m] by simp_all
      then have "map te_scope ?ts = map te_scope (tc_tabs c)" using ts map_scope_block by (metis map_append)
      moreover have "mset ?ts = mset (tc_tabs c)" using m ts(1) by simp
      ultimately show ?thesis using permute_ok [OF assms] run False moved by simp
    qed
  qed
qed

lemma step_index_ok:
  assumes "tabs_ok c" "k < length (tc_tabs c)"
  shows "tabs_ok (snd (step_index k step c)) \<and>
    (\<forall>s. tab_slots s (snd (step_index k step c)) = refill (ids_in s (tc_tabs (snd (step_index k step c)))) (tab_slots s c))"
proof -
  let ?ts = "tc_tabs c"
  have same: "tabs_ok c \<and> (\<forall>s. tab_slots s c = refill (ids_in s ?ts) (tab_slots s c))"
    using assms(1) permute_ok [OF assms(1) refl refl] by simp
  have swap: "tabs_ok (c\<lparr>tc_tabs := ?ts[k := ?ts ! j, j := ?ts ! k]\<rparr>) \<and>
      (\<forall>s. tab_slots s (c\<lparr>tc_tabs := ?ts[k := ?ts ! j, j := ?ts ! k]\<rparr>) = refill (ids_in s (?ts[k := ?ts ! j, j := ?ts ! k])) (tab_slots s c))"
    if "j < length ?ts" "te_scope (?ts ! j) = te_scope (?ts ! k)" for j
  proof (rule permute_ok [OF assms(1)])
    show "mset (?ts[k := ?ts ! j, j := ?ts ! k]) = mset ?ts" using mset_swap [OF that(1) assms(2)] by simp
    have "(map te_scope ?ts)[k := map te_scope ?ts ! k, j := map te_scope ?ts ! j] = map te_scope ?ts" by simp
    then show "map te_scope (?ts[k := ?ts ! j, j := ?ts ! k]) = map te_scope ?ts" using that assms(2) by (simp add: map_update)
  qed
  show ?thesis
    by (cases step) (use same swap assms(2) in \<open>auto simp: step_index_def Let_def split: option.split\<close>)
qed

end
