(* ===== verification/Tab_Runs.thy ===== *)
theory Tab_Runs
  imports Tab_Ops
begin

text \<open>
  The window that holds the parked Tabs beside the collection, and the properties of every history of
  operations on its Tabs.
\<close>

section \<open>A window and its parked Tabs\<close>

text \<open>The window holds each parked Tab until its close is decided.\<close>

type_synonym 'a tab_window = "'a tab_collection \<times> 'a parked_tab list"

datatype 'a tab_op =
  CreateTab scope "u64 \<Rightarrow> 'a"
| RescopeTab u64 scope
| ActivateTab u64
| MoveTab u64 nat
| StepTab u64 tab_step
| StepActive tab_step
| CloseTabNow u64
| ParkTab u64
| RestoreTab u64
| DiscardTab u64

definition held :: "u64 \<Rightarrow> 'a parked_tab list \<Rightarrow> 'a parked_tab option" where
  "held i sh = List.find (\<lambda>x. te_id (pk_entry x) = i) sh"

definition unheld :: "u64 \<Rightarrow> 'a parked_tab list \<Rightarrow> 'a parked_tab list" where
  "unheld i sh = filter (\<lambda>x. te_id (pk_entry x) \<noteq> i) sh"

fun run_tabs :: "'a tab_op \<Rightarrow> 'a tab_window \<Rightarrow> 'a tab_window option" where
  "run_tabs (CreateTab s f) (c, sh) = Some (snd (create_tab_in s f c), sh)"
| "run_tabs (RescopeTab i s) (c, sh) = Some (snd (set_tab_scope i s c), sh)"
| "run_tabs (ActivateTab i) (c, sh) = Some (snd (activate_tab i c), sh)"
| "run_tabs (MoveTab i to) (c, sh) = Some (snd (move_tab i to c), sh)"
| "run_tabs (StepTab i step) (c, sh) = Some (snd (step_tab i step c), sh)"
| "run_tabs (StepActive step) (c, sh) = map_option (\<lambda>r. (snd r, sh)) (move_active_tab step c)"
| "run_tabs (CloseTabNow i) (c, sh) = map_option (\<lambda>r. (snd r, sh)) (close_tab i c)"
| "run_tabs (ParkTab i) (c, sh) =
     map_option (\<lambda>(r, c). case r of Inr (Some x) \<Rightarrow> (c, x # sh) | _ \<Rightarrow> (c, sh)) (park_tab i c)"
| "run_tabs (RestoreTab i) (c, sh) =
     (case held i sh of None \<Rightarrow> Some (c, sh) | Some x \<Rightarrow> map_option (\<lambda>c. (c, unheld i sh)) (restore_parked_tab x c))"
| "run_tabs (DiscardTab i) (c, sh) =
     (case held i sh of None \<Rightarrow> Some (c, sh) | Some x \<Rightarrow> Some (snd (discard_parked_tab x c), unheld i sh))"

fun tab_history :: "'a tab_op list \<Rightarrow> 'a tab_window \<Rightarrow> 'a tab_window option" where
  "tab_history [] w = Some w"
| "tab_history (a # as) w = Option.bind (run_tabs a w) (tab_history as)"

definition tags :: "(u64, scope \<times> nat) omap \<Rightarrow> (u64 \<times> scope) set" where
  "tags m = (\<lambda>x. (fst x, fst (snd x))) ` set m"

definition window_ok :: "'a tab_window \<Rightarrow> bool" where
  "window_ok w \<longleftrightarrow> tabs_ok (fst w) \<and> distinct (map (te_id \<circ> pk_entry) (snd w)) \<and>
     (\<lambda>x. (te_id (pk_entry x), te_scope (pk_entry x))) ` set (snd w) = tags (tc_parked (fst w))"

lemma image_filter: "f ` {x \<in> A. g (f x)} = {y \<in> f ` A. g y}"
  by blast

lemma tags_retire [simp]: "tags (tc_parked (retire_position s p c)) = tags (tc_parked c)"
  by (simp add: tags_def retire_position_def omap_map_def image_image case_prod_beta)

lemma tags_insert:
  assumes "omap_ok m" "i \<notin> fst ` set m"
  shows "tags (omap_insert i (s, p) m) = insert (i, s) (tags m)"
proof -
  have "{x \<in> set m. fst x \<noteq> i} = set m" using assms(2) by auto
  then show ?thesis by (simp add: tags_def set_omap_insert [OF assms(1)])
qed

lemma tags_remove: "tags (omap_remove i m) = {y \<in> tags m. fst y \<noteq> i}"
  using image_filter [of "\<lambda>x. (fst x, fst (snd x))" "set m" "\<lambda>y. fst y \<noteq> i"] by (simp add: tags_def omap_remove_def)

lemma window_cong: "window_ok (c, sh) \<Longrightarrow> tabs_ok c' \<Longrightarrow> tags (tc_parked c') = tags (tc_parked c) \<Longrightarrow> window_ok (c', sh)"
  by (simp add: window_ok_def)

lemma heldD:
  assumes "window_ok (c, sh)" "held i sh = Some x"
  obtains p where "te_id (pk_entry x) = i" "map_of (tc_parked c) i = Some (te_scope (pk_entry x), p)"
proof -
  have x: "x \<in> set sh" "te_id (pk_entry x) = i" using find_SomeD [OF assms(2) [unfolded held_def]] by auto
  then have "(i, te_scope (pk_entry x)) \<in> tags (tc_parked c)" using assms(1) by (force simp: window_ok_def)
  then obtain p where "(i, te_scope (pk_entry x), p) \<in> set (tc_parked c)" by (auto simp: tags_def)
  moreover have "distinct (map fst (tc_parked c))"
    by (rule omap_ok_distinct [OF tabs_coreD(2) [OF tabs_okD(1)]]) (use assms(1) in \<open>simp add: window_ok_def\<close>)
  ultimately have "map_of (tc_parked c) i = Some (te_scope (pk_entry x), p)" by (simp add: map_of_eq_Some_iff)
  then show ?thesis by (rule that [OF x(2)])
qed

lemma unheld_ok:
  assumes "window_ok (c, sh)" "tabs_ok c'" "tags (tc_parked c') = {y \<in> tags (tc_parked c). fst y \<noteq> i}"
  shows "window_ok (c', unheld i sh)"
proof -
  let ?t = "\<lambda>x. (te_id (pk_entry x), te_scope (pk_entry x))"
  have "?t ` set (unheld i sh) = {y \<in> ?t ` set sh. fst y \<noteq> i}"
    using image_filter [of ?t "set sh" "\<lambda>y. fst y \<noteq> i"] by (simp add: unheld_def)
  then show ?thesis using assms by (simp add: window_ok_def unheld_def distinct_map_filter)
qed

lemma tab_split:
  assumes "index_of i c = Inr k"
  obtains P t Q where "tc_tabs c = P @ t # Q" "te_id t = i" "P @ Q \<noteq> [] \<or> length (tc_tabs c) = 1"
proof -
  obtain P t Q where "tc_tabs c = P @ t # Q" "te_id t = i" using index_ofD [OF assms] by metis
  then show ?thesis using that [of P t Q] by auto
qed

lemma last_tab_stays:
  assumes "length (tc_tabs c) = 1" "index_of i c = Inr k"
  shows "take_tab i c = Some (Inr (TabClosesWorkspace i), c)"
  using assms by (simp add: take_tab_def)

lemma run_park:
  assumes "window_ok (c, sh)"
  shows "\<exists>w'. run_tabs (ParkTab i) (c, sh) = Some w' \<and> window_ok w'"
proof (cases "index_of i c")
  case (Inl er)
  then show ?thesis using assms by (simp add: park_tab_def)
next
  case (Inr k)
  have ok: "tabs_ok c" using assms by (simp add: window_ok_def)
  obtain P t Q where t: "tc_tabs c = P @ t # Q" "te_id t = i" "P @ Q \<noteq> [] \<or> length (tc_tabs c) = 1" using tab_split [OF Inr] .
  show ?thesis
  proof (cases "P @ Q = []")
    case True
    have "\<exists>n. retained_position i c = Inr (te_scope t, n)"
      by (rule retained_place [OF tabs_okD(1) [OF ok] t(1)]) (simp add: t(2))
    moreover have "take_tab i c = Some (Inr (TabClosesWorkspace i), c)" using last_tab_stays [OF _ Inr] t(3) True by blast
    ultimately show ?thesis using assms Inr by (auto simp: park_tab_def Let_def)
  next
    case False
    obtain c' p where c': "park_tab i c = Some (Inr (Some \<lparr>pk_entry = t, pk_was_root = (tc_root c = i)\<rparr>), c')" "tabs_ok c'"
      "tc_parked c' = omap_insert i (te_scope t, p) (tc_parked c)" by (rule park_ok [OF ok t(1) False, unfolded t(2)]) (erule exE, rule that)
    have e: "omap_ok (tc_parked c)" "i \<notin> fst ` set (tc_parked c)" using tabs_coreD(2,3) [OF tabs_okD(1) [OF ok]] t(1,2) by auto
    have "i \<notin> fst ` tags (tc_parked c)" using e(2) by (simp add: tags_def image_image)
    moreover have "tags (tc_parked c) = (\<lambda>x. (te_id (pk_entry x), te_scope (pk_entry x))) ` set sh"
      using assms by (simp add: window_ok_def)
    then have "fst ` tags (tc_parked c) = set (map (te_id \<circ> pk_entry) sh)" by (simp add: image_image)
    ultimately have "i \<notin> set (map (te_id \<circ> pk_entry) sh)" by simp
    then have "window_ok (c', \<lparr>pk_entry = t, pk_was_root = (tc_root c = i)\<rparr> # sh)"
      using assms c'(2,3) t(2) by (simp add: window_ok_def tags_insert [OF e])
    then show ?thesis using c'(1) by simp
  qed
qed

lemma run_close:
  assumes "window_ok (c, sh)"
  shows "\<exists>w'. run_tabs (CloseTabNow i) (c, sh) = Some w' \<and> window_ok w'"
proof (cases "index_of i c")
  case (Inl er)
  then show ?thesis using assms by (simp add: close_tab_def retained_position_def)
next
  case (Inr k)
  have ok: "tabs_ok c" using assms by (simp add: window_ok_def)
  obtain P t Q where t: "tc_tabs c = P @ t # Q" "te_id t = i" "P @ Q \<noteq> [] \<or> length (tc_tabs c) = 1" using tab_split [OF Inr] .
  show ?thesis
  proof (cases "P @ Q = []")
    case True
    have "\<exists>n. retained_position i c = Inr (te_scope t, n)"
      by (rule retained_place [OF tabs_okD(1) [OF ok] t(1)]) (simp add: t(2))
    moreover have "take_tab i c = Some (Inr (TabClosesWorkspace i), c)" using last_tab_stays [OF _ Inr] t(3) True by blast
    ultimately show ?thesis using assms by (auto simp: close_tab_def)
  next
    case False
    obtain c' and A :: "(bool \<times> u64) list" where "close_tab i c = Some (Inr (TabClosed i (tc_active c') (te_payload t)), c')" "tabs_ok c'"
      "tc_parked c' = tc_parked (retire_position (te_scope t) (length A) c)" by (rule close_ok [OF ok t(1) False, unfolded t(2)]) (rule that)
    then show ?thesis using window_cong [OF assms] by simp
  qed
qed

lemma run_restore:
  assumes "window_ok (c, sh)"
  shows "\<exists>w'. run_tabs (RestoreTab i) (c, sh) = Some w' \<and> window_ok w'"
proof (cases "held i sh")
  case (Some x)
  obtain p where x: "te_id (pk_entry x) = i" "map_of (tc_parked c) i = Some (te_scope (pk_entry x), p)" using heldD [OF assms Some] .
  have ok: "tabs_ok c" using assms by (simp add: window_ok_def)
  obtain c' where c': "restore_parked_tab \<lparr>pk_entry = pk_entry x, pk_was_root = pk_was_root x\<rparr> c = Some c'" "tabs_ok c'"
      "tc_parked c' = omap_remove i (tc_parked c)"
    by (rule restore_ok [OF ok, of "pk_entry x" p "pk_was_root x"]) (use x that in simp_all)
  moreover have "\<lparr>pk_entry = pk_entry x, pk_was_root = pk_was_root x\<rparr> = x" by simp
  ultimately show ?thesis using Some unheld_ok [OF assms c'(2)] by (simp add: tags_remove)
qed (use assms in simp)

lemma run_discard:
  assumes "window_ok (c, sh)"
  shows "\<exists>w'. run_tabs (DiscardTab i) (c, sh) = Some w' \<and> window_ok w'"
proof (cases "held i sh")
  case (Some x)
  obtain p where x: "te_id (pk_entry x) = i" "map_of (tc_parked c) i = Some (te_scope (pk_entry x), p)" using heldD [OF assms Some] .
  have ok: "tabs_ok c" using assms by (simp add: window_ok_def)
  have "tabs_ok (snd (discard_parked_tab x c)) \<and> tags (tc_parked (snd (discard_parked_tab x c))) = {y \<in> tags (tc_parked c). fst y \<noteq> i}"
    by (rule discard_ok [OF ok, of x "te_scope (pk_entry x)" p]) (use x in \<open>simp_all add: tags_remove\<close>)
  then show ?thesis using Some unheld_ok [OF assms] by simp
qed (use assms in simp)

lemma run_rescope:
  assumes "window_ok (c, sh)"
  shows "window_ok (snd (set_tab_scope i s c), sh)"
proof (cases "index_of i c")
  case (Inr k)
  have ok: "tabs_ok c" using assms by (simp add: window_ok_def)
  obtain P t Q where t: "tc_tabs c = P @ t # Q" "length P = k" "te_id t = i" using index_ofD [OF Inr] .
  show ?thesis
  proof (cases "te_scope t = s")
    case True
    then show ?thesis using assms Inr t by (auto simp: set_tab_scope_def nth_append)
  next
    case False
    have "tabs_ok (snd (set_tab_scope i s c)) \<and> tags (tc_parked (snd (set_tab_scope i s c))) = tags (tc_parked c)"
      by (rule rescope_ok [OF ok t(1) False, unfolded t(3)]) simp
    then show ?thesis using window_cong [OF assms] by blast
  qed
qed (use assms in \<open>simp add: set_tab_scope_def\<close>)

lemma run_step:
  assumes "window_ok (c, sh)" "k < length (tc_tabs c)"
  shows "window_ok (snd (step_index k step c), sh)"
proof -
  have "tabs_ok (snd (step_index k step c))" using step_index_ok [OF _ assms(2)] assms(1) by (simp add: window_ok_def)
  moreover have "tc_parked (snd (step_index k step c)) = tc_parked c"
    by (auto simp: step_index_def Let_def split: option.split)
  ultimately show ?thesis using window_cong [OF assms(1)] by simp
qed

lemma index_of_less: "index_of i c = Inr k \<Longrightarrow> k < length (tc_tabs c)"
  using position_SomeD(1) by (auto simp: index_of_def split: option.splits)

lemma active_index_Some:
  assumes "tabs_ok c"
  obtains P t Q where "tc_tabs c = P @ t # Q" "te_id t = tc_active c" "active_index c = Some (length P)" "active_scope c = Some (te_scope t)"
proof -
  obtain k where k: "index_of (tc_active c) c = Inr k" using index_of_known [OF tabs_okD(2) [OF assms]] .
  obtain P t Q where t: "tc_tabs c = P @ t # Q" "length P = k" "te_id t = tc_active c" using index_ofD [OF k] .
  have "tc_tabs c ! k = t" using t(1,2) by (metis nth_append_length)
  then show ?thesis using that [OF t(1,3)] k t(2) by (simp add: active_index_def active_scope_def)
qed

lemma run_tabs_ok:
  assumes "window_ok w"
  shows "\<exists>w'. run_tabs a w = Some w' \<and> window_ok w'"
proof -
  obtain c sh where w: "w = (c, sh)" by fastforce
  then have c: "window_ok (c, sh)" and ok: "tabs_ok c" using assms by (simp_all add: window_ok_def)
  show ?thesis
  proof (cases a)
    case (CreateTab s f)
    show ?thesis
    proof (cases "tc_next c < u64_max")
      case True
      have "tabs_ok (snd (create_tab_in s f c))" by (rule create_ok [where s = s and f = f, OF ok True]) simp
      moreover have "tc_parked (snd (create_tab_in s f c)) = tc_parked c"
        by (auto simp: create_tab_in_def split: sum.split prod.split)
      ultimately show ?thesis using window_cong [OF c] w CreateTab by simp
    next
      case False
      then have "tc_next c = u64_max" using tabs_coreD(6) [OF tabs_okD(1) [OF ok]] by simp
      then show ?thesis using c w CreateTab by (simp add: create_exhausted)
    qed
  next
    case (ActivateTab i)
    have "tabs_ok (snd (activate_tab i c))" using activate_ok [OF ok] by blast
    moreover have "tc_parked (snd (activate_tab i c)) = tc_parked c" by (auto simp: activate_tab_def split: sum.split)
    ultimately show ?thesis using window_cong [OF c] w ActivateTab by simp
  next
    case (MoveTab i to)
    have "tabs_ok (snd (move_tab i to c))" using move_ok [OF ok] by blast
    moreover have "tc_parked (snd (move_tab i to c)) = tc_parked c" by (auto simp: move_tab_def Let_def split: sum.split)
    ultimately show ?thesis using window_cong [OF c] w MoveTab by simp
  next
    case (StepTab i step)
    then show ?thesis using c w run_step [OF c index_of_less] by (auto simp: step_tab_def case_prod_beta split: sum.split)
  next
    case (StepActive step)
    obtain P t Q where "tc_tabs c = P @ t # Q" "active_index c = Some (length P)" using active_index_Some [OF ok] by metis
    then show ?thesis using w StepActive run_step [OF c, of "length P"] by (simp add: move_active_tab_def)
  qed (use w run_rescope [OF c] run_close [OF c] run_park [OF c] run_restore [OF c] run_discard [OF c] in auto)
qed

lemma tab_history_ok: "window_ok w \<Longrightarrow> \<exists>w'. tab_history as w = Some w' \<and> window_ok w'"
proof (induction as arbitrary: w)
  case (Cons a as)
  then show ?case using run_tabs_ok [OF Cons.prems, of a] by auto
qed simp

lemma new_tabs_ok: "window_ok (new_tabs f, [])"
proof -
  have "kept s (new_tabs f) (if s = None then [(False, 1)] else [])" for s
    by (auto simp: kept_def new_tabs_def ids_in_def spots_in_def)
  then have "tabs_core (new_tabs f)"
    by (intro tabs_coreI [THEN conjunct1]) (auto simp: new_tabs_def u64_max_def grouped_def)
  then show ?thesis by (simp add: window_ok_def tabs_ok_def tabs_tail_def tags_def new_tabs_def)
qed

section \<open>The Tabs of a Worktree as a parked order\<close>

definition stepped :: "'a tab_op \<Rightarrow> 'a tab_window \<Rightarrow> 'a tab_window" where
  "stepped a w = (case run_tabs a w of None \<Rightarrow> w | Some w' \<Rightarrow> w')"

definition may_park :: "'k \<Rightarrow> 'a tab_window \<Rightarrow> bool" where
  "may_park k w \<longleftrightarrow> 1 < length (tc_tabs (fst w))"

lemma window_kept:
  assumes "window_ok w"
  shows "ids_in s (tc_tabs (fst w)) = shown (tab_slots s (fst w))"
    "mset (spots_in s (tc_parked (fst w))) = mset (hidden_at 0 (tab_slots s (fst w)))"
proof -
  have "tabs_core (fst w)" using assms unfolding window_ok_def tabs_ok_def by blast
  then have "kept s (fst w) (tab_slots s (fst w))" by (rule tabs_coreD(8))
  then show "ids_in s (tc_tabs (fst w)) = shown (tab_slots s (fst w))"
    "mset (spots_in s (tc_parked (fst w))) = mset (hidden_at 0 (tab_slots s (fst w)))" unfolding kept_def by blast+
qed

lemma shown_tab:
  assumes "window_ok (c, sh)" "(False, k) \<in> set (tab_slots s c)"
  obtains P t Q where "tc_tabs c = P @ t # Q" "te_id t = k" "te_scope t = s"
proof -
  have "k \<in> set (ids_in s (tc_tabs c))" using window_kept(1) [OF assms(1), of s] assms(2) by (force simp: shown_def)
  then obtain t where "t \<in> set (tc_tabs c)" "te_id t = k" "te_scope t = s" by (auto simp: ids_in_def)
  then show ?thesis using that split_list [of t "tc_tabs c"] by blast
qed

lemma park_stepped:
  assumes "window_ok w" "may_park k w" "(False, k) \<in> set (tab_slots s (fst w))"
  shows "window_ok (stepped (ParkTab k) w) \<and> tab_slots s (fst (stepped (ParkTab k) w)) = mark id True k (tab_slots s (fst w))"
proof -
  obtain c sh where w: "w = (c, sh)" by fastforce
  have ok: "tabs_ok c" using assms(1) by (simp add: w window_ok_def)
  obtain P t Q where t: "tc_tabs c = P @ t # Q" "te_id t = k" "te_scope t = s" using shown_tab [of c sh k s] assms(1,3) w by auto
  have "P @ Q \<noteq> []" using assms(2) t(1) by (auto simp: may_park_def w)
  then have "\<exists>x c'. park_tab k c = Some (Inr (Some x), c') \<and> tab_slots s c' = mark id True k (tab_slots s c)"
    by (rule park_ok [OF ok t(1), unfolded t(2,3)]) (simp add: reordered_slots)
  then show ?thesis using run_tabs_ok [OF assms(1), of "ParkTab k"] by (auto simp: stepped_def w)
qed

lemma hidden_member: "(True, k) \<in> set L \<Longrightarrow> \<exists>p. (p, k) \<in> set (hidden_at n L)"
proof (induction L arbitrary: n)
  case (Cons x L)
  show ?case
  proof (cases "x = (True, k)")
    case False
    then show ?thesis using Cons.IH [of "Suc n"] Cons.prems by (cases x) auto
  qed auto
qed simp

lemma restore_stepped:
  assumes "window_ok w" "(True, k) \<in> set (tab_slots s (fst w))"
  shows "window_ok (stepped (RestoreTab k) w) \<and> tab_slots s (fst (stepped (RestoreTab k) w)) = mark id False k (tab_slots s (fst w))"
proof -
  obtain c sh where w: "w = (c, sh)" by fastforce
  have ok: "tabs_ok c" using assms(1) by (simp add: w window_ok_def)
  obtain p where "(p, k) \<in> set (hidden_at 0 (tab_slots s c))" using hidden_member assms(2) w by (metis fst_conv)
  then have "(p, k) \<in> set (spots_in s (tc_parked c))" using mset_eq_setD [OF window_kept(2) [OF assms(1), of s]] w by simp
  then have spot: "(k, s, p) \<in> set (tc_parked c)" by (auto simp: spots_in_def)
  then have "(k, s) \<in> (\<lambda>x. (te_id (pk_entry x), te_scope (pk_entry x))) ` set sh"
    using assms(1) by (force simp: w window_ok_def tags_def)
  then obtain x where x: "held k sh = Some x" by (cases "held k sh") (auto simp: held_def find_None)
  obtain q where q: "te_id (pk_entry x) = k" "map_of (tc_parked c) k = Some (te_scope (pk_entry x), q)"
    using heldD [OF assms(1) [unfolded w] x] .
  have "distinct (map fst (tc_parked c))" by (rule omap_ok_distinct [OF tabs_coreD(2) [OF tabs_okD(1) [OF ok]]])
  then have s: "te_scope (pk_entry x) = s" using map_of_is_SomeI [OF _ spot] q(2) by simp
  have whole: "\<lparr>pk_entry = pk_entry x, pk_was_root = pk_was_root x\<rparr> = x" by simp
  have "\<exists>c'. restore_parked_tab \<lparr>pk_entry = pk_entry x, pk_was_root = pk_was_root x\<rparr> c = Some c' \<and>
      tab_slots s c' = mark id False k (tab_slots s c)"
    by (rule restore_ok [OF ok, of "pk_entry x" q "pk_was_root x"]) (simp_all add: q s reordered_slots)
  then show ?thesis unfolding whole using run_tabs_ok [OF assms(1), of "RestoreTab k"] x by (auto simp: stepped_def w)
qed

interpretation ts: parked_order "\<lambda>w. tab_slots s (fst w)" id window_ok may_park "\<lambda>k. stepped (ParkTab k)" "\<lambda>k. stepped (RestoreTab k)"
  for s
proof unfold_locales
  fix w :: "'a tab_window" and k e
  assume ok: "window_ok w"
  have "tabs_core (fst w)" using ok unfolding window_ok_def tabs_ok_def by blast
  then show "distinct (map (id \<circ> snd) (tab_slots s (fst w)))" using slots_keys [of "fst w" s] by simp
  show "window_ok (stepped (ParkTab k) w) \<and> tab_slots s (fst (stepped (ParkTab k) w)) = mark id True k (tab_slots s (fst w))"
    if "may_park k w" "(False, e) \<in> set (tab_slots s (fst w))" "id e = k" using park_stepped [OF ok] that by simp
  show "window_ok (stepped (RestoreTab k) w) \<and> tab_slots s (fst (stepped (RestoreTab k) w)) = mark id False k (tab_slots s (fst w))"
    if "(True, e) \<in> set (tab_slots s (fst w))" "id e = k" using restore_stepped [OF ok] that by simp
qed

section \<open>Neighbours\<close>

text \<open>Next Tab and Previous Tab activate the neighbour of the Active Tab.\<close>

definition next_tab :: "tab_step \<Rightarrow> 'a tab_collection \<Rightarrow> 'a tab_collection" where
  "next_tab step c = (case neighbor_of_active_tab step c of None \<Rightarrow> c | Some i \<Rightarrow> snd (activate_tab i c))"

definition neighbor_index :: "tab_step \<Rightarrow> nat \<Rightarrow> nat \<Rightarrow> nat" where
  "neighbor_index step n a = (case step of PreviousTab \<Rightarrow> (a + n - 1) mod n | NextTab \<Rightarrow> (a + 1) mod n)"

lemma neighbor_index_less: "a < n \<Longrightarrow> neighbor_index step n a < n"
  by (cases step) (simp_all add: neighbor_index_def mod_less_divisor)

lemma neighbor_at:
  assumes "tabs_ok c" "tab_block s (tc_tabs c) X Y Z" "a < length Y" "tc_active c = te_id (Y ! a)"
  shows "active_scope c = Some s" "neighbor_of_active_tab step c = Some (te_id (Y ! neighbor_index step (length Y) a))"
proof -
  have ts: "tc_tabs c = X @ Y @ Z" "\<forall>t\<in>set Y. te_scope t = s" using assms(2) unfolding tab_block_def by blast+
  have nth: "tc_tabs c ! (length X + j) = Y ! j" if "j < length Y" for j using that by (simp add: ts(1) nth_append)
  note ids = tabs_coreD(1) [OF tabs_okD(1) [OF assms(1)]]
  obtain P t Q where t: "tc_tabs c = P @ t # Q" "te_id t = tc_active c" "active_scope c = Some (te_scope t)" using active_index_Some [OF assms(1)] by metis
  have "t \<in> set (tc_tabs c)" using t(1) by simp
  moreover have "Y ! a \<in> set (tc_tabs c)" using ts(1) assms(3) by simp
  ultimately have "t = Y ! a" using ids t(2) assms(4) by (simp add: distinct_map inj_on_def)
  then show scope: "active_scope c = Some s" using t(3) ts(2) assms(3) by simp
  let ?sib = "[length X..<length X + length Y]"
  have "position (\<lambda>k. te_id (tc_tabs c ! k) = tc_active c) ?sib = Some a"
    unfolding position_Some_iff
  proof (intro conjI allI impI)
    show "te_id (tc_tabs c ! (?sib ! a)) = tc_active c" using assms(3,4) nth by simp
    fix j assume "j < a"
    moreover have "inj_on te_id (set Y)" "distinct Y" using ids by (simp_all add: ts(1) distinct_map inj_on_Un)
    ultimately show "te_id (tc_tabs c ! (?sib ! j)) \<noteq> tc_active c"
      using assms(3,4) nth by (simp add: inj_on_eq_iff nth_eq_iff_index_eq)
  qed (use assms(3) in simp)
  moreover have "neighbor_index step (length Y) a < length Y" using neighbor_index_less [OF assms(3)] .
  ultimately show "neighbor_of_active_tab step c = Some (te_id (Y ! neighbor_index step (length Y) a))"
    using nth [of "neighbor_index step (length Y) a"]
    by (simp add: neighbor_of_active_tab_def scope tab_block_indices [OF assms(2)] Let_def neighbor_index_def split: tab_step.splits)
qed

lemma next_tab_at:
  assumes "tabs_ok c" "tab_block s (tc_tabs c) X Y Z" "a < length Y" "tc_active c = te_id (Y ! a)"
  shows "tabs_ok (next_tab step c) \<and> tc_tabs (next_tab step c) = tc_tabs c \<and>
    tc_active (next_tab step c) = te_id (Y ! neighbor_index step (length Y) a)"
proof -
  let ?i = "te_id (Y ! neighbor_index step (length Y) a)"
  have "neighbor_index step (length Y) a < length Y" using neighbor_index_less [OF assms(3)] .
  then have "?i \<in> te_id ` set (tc_tabs c)" using assms(2) by (auto simp: tab_block_def)
  then obtain k where "index_of ?i c = Inr k" by (rule index_of_known)
  then have run: "next_tab step c = set_active ?i c" using neighbor_at(2) [OF assms] by (simp add: next_tab_def activate_tab_def)
  have "tabs_ok (snd (activate_tab ?i c))" using activate_ok [OF assms(1)] by blast
  then show ?thesis using run \<open>index_of ?i c = Inr k\<close> by (simp add: activate_tab_def)
qed

lemma next_tabs_at:
  assumes "tabs_ok c" "tab_block s (tc_tabs c) X Y Z" "a < length Y" "tc_active c = te_id (Y ! a)"
  shows "tabs_ok ((next_tab NextTab ^^ k) c) \<and> tc_tabs ((next_tab NextTab ^^ k) c) = tc_tabs c \<and>
    tc_active ((next_tab NextTab ^^ k) c) = te_id (Y ! ((a + k) mod length Y))"
proof (induction k)
  case (Suc k)
  have "(a + k) mod length Y < length Y" using assms(3) by (intro mod_less_divisor) linarith
  moreover have "tab_block s (tc_tabs ((next_tab NextTab ^^ k) c)) X Y Z" using Suc assms(2) by simp
  ultimately have "tabs_ok (next_tab NextTab ((next_tab NextTab ^^ k) c)) \<and>
      tc_tabs (next_tab NextTab ((next_tab NextTab ^^ k) c)) = tc_tabs ((next_tab NextTab ^^ k) c) \<and>
      tc_active (next_tab NextTab ((next_tab NextTab ^^ k) c)) = te_id (Y ! neighbor_index NextTab (length Y) ((a + k) mod length Y))"
    using Suc by (intro next_tab_at) auto
  then show ?case using Suc by (simp add: neighbor_index_def mod_Suc_eq)
qed (use assms in simp)

lemma active_in_block:
  assumes "tabs_ok c" "active_scope c = Some s"
  obtains X Y Z a where "tab_block s (tc_tabs c) X Y Z" "a < length Y" "tc_active c = te_id (Y ! a)"
proof -
  obtain P t Q where t: "tc_tabs c = P @ t # Q" "te_id t = tc_active c" "active_scope c = Some (te_scope t)" using active_index_Some [OF assms(1)] by metis
  obtain X Y Z where b: "tab_block s (tc_tabs c) X Y Z" using tab_block_exists [OF tabs_coreD(7) [OF tabs_okD(1) [OF assms(1)]]] .
  obtain a where "length P = length X + a" "a < length Y" "Y ! a = t" using block_place [OF b t(1)] t(3) assms(2) by auto
  then show ?thesis using that [OF b] t(2) by simp
qed

lemma mod_cycle:
  assumes "a < n" "(j :: nat) < n"
  shows "\<exists>k<n. (a + k) mod n = j"
proof -
  have "(a + (j + (n - a)) mod n) mod n = (a + (j + (n - a))) mod n" by (rule mod_add_right_eq)
  also have "a + (j + (n - a)) = j + n" using assms(1) by simp
  finally show ?thesis using assms by (intro exI [of _ "(j + (n - a)) mod n"]) simp
qed

section \<open>Where activation goes\<close>

lemma indices_between:
  "map (\<lambda>k. te_id ((P @ Q) ! k)) (filter (\<lambda>k. te_scope ((P @ Q) ! k) = s) [0..<length P]) = ids_in s P"
  "map (\<lambda>k. te_id ((P @ Q) ! k)) (filter (\<lambda>k. te_scope ((P @ Q) ! k) = s) [length P..<length P + length Q]) = ids_in s Q"
proof -
  have whole: "map te_id (filter (\<lambda>t. te_scope t = s) ts) = map (\<lambda>k. te_id (ts ! k)) (filter (\<lambda>k. te_scope (ts ! k) = s) [0..<length ts])"
    for ts :: "'a tab_entry list"
    by (subst map_nth [of ts, symmetric], subst filter_map) (simp add: comp_def map_nth)
  have "filter (\<lambda>k. te_scope ((P @ Q) ! k) = s) [0..<length P] = filter (\<lambda>k. te_scope (P ! k) = s) [0..<length P]"
    by (rule filter_cong) (auto simp: nth_append)
  then show "map (\<lambda>k. te_id ((P @ Q) ! k)) (filter (\<lambda>k. te_scope ((P @ Q) ! k) = s) [0..<length P]) = ids_in s P"
    unfolding ids_in_def whole by (auto simp: nth_append)
  have "[length P..<length P + length Q] = map (\<lambda>k. k + length P) [0..<length Q]" by (simp add: map_add_upt add.commute)
  then show "map (\<lambda>k. te_id ((P @ Q) ! k)) (filter (\<lambda>k. te_scope ((P @ Q) ! k) = s) [length P..<length P + length Q]) = ids_in s Q"
    unfolding ids_in_def whole by (simp add: filter_map comp_def nth_append)
qed

lemma fallback_spec:
  assumes "tc_tabs c = P @ Q" "P @ Q \<noteq> []" "tc_activation_order c \<noteq> []"
  shows "fallback_tab s (length P) c = Some (if ids_in s Q \<noteq> [] then hd (ids_in s Q)
    else if ids_in s P \<noteq> [] then last (ids_in s P) else last (tc_activation_order c))"
proof -
  define I where "I = filter (\<lambda>k. te_scope ((P @ Q) ! k) = s) [0..<length P]"
  define J where "J = filter (\<lambda>k. te_scope ((P @ Q) ! k) = s) [length P..<length P + length Q]"
  have split: "indices_in s c = I @ J" unfolding indices_in_def assms(1) I_def J_def
    using upt_add_eq_append [of 0 "length P" "length Q"] by simp
  have ids: "map (\<lambda>k. te_id (tc_tabs c ! k)) I = ids_in s P" "map (\<lambda>k. te_id (tc_tabs c ! k)) J = ids_in s Q"
    using indices_between [of P Q s] by (simp_all add: I_def J_def assms(1))
  have below: "\<forall>k\<in>set I. \<not> length P \<le> k" by (auto simp: I_def)
  show ?thesis
  proof (cases J)
    case Nil
    then have "position (\<lambda>k. length P \<le> k) (indices_in s c) = None" using split below by simp
    moreover have "te_id (tc_tabs c ! last I) = last (ids_in s P)" if "I \<noteq> []" using ids(1) that by (metis last_map)
    ultimately show ?thesis using split Nil ids assms(3) unfolding fallback_tab_def by (auto simp: Let_def simp del: position_None_iff)
  next
    case (Cons k J')
    have "\<forall>j\<in>set J. length P \<le> j" by (auto simp: J_def)
    then have "length P \<le> k" using Cons by simp
    then have "position (\<lambda>k. length P \<le> k) (indices_in s c) = Some (length I)" using split Cons below position_skip [of I] by simp
    moreover have "hd (ids_in s Q) = te_id (tc_tabs c ! k)" "ids_in s Q \<noteq> []" unfolding ids(2) [symmetric] Cons by simp_all
    ultimately show ?thesis using split Cons by (simp add: fallback_tab_def Let_def)
  qed
qed

section \<open>Properties\<close>

text \<open>
  C19. No history of operations on the Tabs of a window panics. Whatever Tabs were created, moved, given
  another Worktree, closed, parked, restored and discarded, in any order, the collection at the end has
  distinct identities, keeps the Tabs of each Worktree adjacent, and its Active Tab and Root Tab are
  among its Tabs; the next and the previous Tab exist, and moving the Active Tab is possible.
\<close>

theorem tab_history_never_panics:
  "\<exists>c sh. tab_history as (new_tabs f, []) = Some (c, sh) \<and> distinct (map te_id (tc_tabs c)) \<and> grouped (map te_scope (tc_tabs c)) \<and>
     tc_active c \<in> te_id ` set (tc_tabs c) \<and> tc_root c \<in> te_id ` set (tc_tabs c) \<and>
     neighbor_of_active_tab step c \<noteq> None \<and> move_active_tab step c \<noteq> None"
proof -
  obtain w where w: "tab_history as (new_tabs f, []) = Some w" "window_ok w" using tab_history_ok [OF new_tabs_ok] by metis
  obtain c sh where c: "w = (c, sh)" by fastforce
  have ok: "tabs_ok c" using w(2) by (simp add: window_ok_def c)
  obtain P t Q where t: "tc_tabs c = P @ t # Q" "te_id t = tc_active c" "active_index c = Some (length P)" "active_scope c = Some (te_scope t)"
    using active_index_Some [OF ok] .
  obtain X Y Z a where b: "tab_block (te_scope t) (tc_tabs c) X Y Z" "a < length Y" "tc_active c = te_id (Y ! a)"
    using active_in_block [OF ok t(4)] .
  then show ?thesis
    using w(1) c t(3) tabs_okD [OF ok] tabs_coreD [OF tabs_okD(1) [OF ok]] neighbor_at(2) [OF ok b] by (simp add: move_active_tab_def)
qed

text \<open>
  C20. Two Tabs of a Worktree that were parked come back to their places in either order. The visible Tabs
  of the Worktree are then the ones shown before the closes were asked for.
\<close>

theorem refused_tabs_keep_order:
  assumes "window_ok w" "2 < length (tc_tabs (fst w))" "i \<noteq> j"
    and "i \<in> set (ids_in s (tc_tabs (fst w)))" "j \<in> set (ids_in s (tc_tabs (fst w)))"
  shows "ids_in s (tc_tabs (fst (stepped (RestoreTab i) (stepped (RestoreTab j) (stepped (ParkTab j) (stepped (ParkTab i) w)))))) =
      ids_in s (tc_tabs (fst w)) \<and>
    ids_in s (tc_tabs (fst (stepped (RestoreTab j) (stepped (RestoreTab i) (stepped (ParkTab j) (stepped (ParkTab i) w)))))) =
      ids_in s (tc_tabs (fst w))"
proof -
  have seen: "(False, k) \<in> set (tab_slots s (fst w))" if "k \<in> set (ids_in s (tc_tabs (fst w)))" for k
    using that window_kept(1) [OF assms(1), of s] by (auto simp: shown_def)
  have may: "may_park i w" using assms(2) by (simp add: may_park_def)
  have "window_ok (stepped a v)" if "window_ok v" for a and v :: "'a tab_window" using run_tabs_ok [OF that, of a] by (auto simp: stepped_def)
  note ok = this
  have "may_park j (stepped (ParkTab i) w)"
  proof -
    obtain c sh where w: "w = (c, sh)" by fastforce
    obtain P t Q where t: "tc_tabs c = P @ t # Q" "te_id t = i" "te_scope t = s" using shown_tab [of c sh i s] assms(1) seen [OF assms(4)] w by auto
    have ok: "tabs_ok c" using assms(1) by (simp add: w window_ok_def)
    have "P @ Q \<noteq> []" using assms(2) t(1) by (auto simp: w)
    then have "\<exists>x c'. park_tab i c = Some (Inr (Some x), c') \<and> tc_tabs c' = P @ Q" by (rule park_ok [OF ok t(1), unfolded t(2,3)]) simp
    then show ?thesis using assms(2) t(1) by (auto simp: may_park_def stepped_def w)
  qed
  then have "tab_slots s (fst (stepped (RestoreTab i) (stepped (RestoreTab j) (stepped (ParkTab j) (stepped (ParkTab i) w))))) = tab_slots s (fst w)"
    "tab_slots s (fst (stepped (RestoreTab j) (stepped (RestoreTab i) (stepped (ParkTab j) (stepped (ParkTab i) w))))) = tab_slots s (fst w)"
    using ts.restore_either_order [of w i j s] assms(1,3-5) may seen by simp_all
  then show ?thesis using window_kept(1) ok assms(1) by metis
qed

definition demo_window :: "unit tab_window" where
  "demo_window = fold stepped [CreateTab None (\<lambda>_. ()), CreateTab (Some 7) (\<lambda>_. ()), CreateTab (Some 7) (\<lambda>_. ())] (new_tabs (\<lambda>_. ()), [])"

lemma fold_stepped_ok: "window_ok w \<Longrightarrow> window_ok (fold stepped as w)"
proof (induction as arbitrary: w)
  case (Cons a as)
  have "window_ok (stepped a w)" using run_tabs_ok [OF Cons.prems, of a] by (auto simp: stepped_def)
  then show ?case using Cons.IH by simp
qed simp

lemma demo_window_ok: "window_ok demo_window"
  unfolding demo_window_def by (rule fold_stepped_ok [OF new_tabs_ok])

lemmas tab_evaluation = stepped_def create_tab_in_def next_tab_id_def checked_add_def u64_max_def set_active_def after_last_def
  insert_at_def new_tabs_def park_tab_def take_tab_def retained_position_def index_of_def parked_in_def omap_values_def remove_at_def
  resolve_close_def promoted_root_def fallback_tab_def indices_in_def restore_parked_tab_def held_def unheld_def omap_remove_def
  upt_rec [of _ "numeral _"] upt_rec [of _ "Suc _"]

lemma demo_window_run:
  "demo_window = (\<lparr>tc_tabs = [\<lparr>te_id = 1, te_scope = None, te_payload = ()\<rparr>, \<lparr>te_id = 2, te_scope = None, te_payload = ()\<rparr>,
      \<lparr>te_id = 3, te_scope = Some 7, te_payload = ()\<rparr>, \<lparr>te_id = 4, te_scope = Some 7, te_payload = ()\<rparr>], tc_parked = [],
      tc_active = 4, tc_root = 1, tc_activation_order = [1, 2, 3, 4], tc_next = 5\<rparr>, [])"
  by (simp add: demo_window_def tab_evaluation)

theorem refused_tabs_keep_order_witness:
  "ids_in None (tc_tabs (fst (fold stepped [ParkTab 1, ParkTab 2, RestoreTab 1, RestoreTab 2] demo_window))) = [1, 2]"
proof -
  have "2 < length (tc_tabs (fst demo_window))" "1 \<in> set (ids_in None (tc_tabs (fst demo_window)))" "2 \<in> set (ids_in None (tc_tabs (fst demo_window)))"
    by (simp_all add: demo_window_run)
  note this = refused_tabs_keep_order [OF demo_window_ok this(1) _ this(2,3)]
  then show ?thesis by (simp add: demo_window_run)
qed

text \<open>
  C21. Next Tab visits every Tab of the Active Worktree. Activating the next Tab again and again reaches each
  Tab of the Worktree within as many steps as it has Tabs, then starts over, and never leaves the
  Worktree; Previous Tab undoes Next Tab.
\<close>

theorem next_tab_visits_all:
  assumes "tabs_ok c" "active_scope c = Some s"
  shows "(\<lambda>k. tc_active ((next_tab NextTab ^^ k) c)) ` {..<length (ids_in s (tc_tabs c))} = set (ids_in s (tc_tabs c)) \<and>
    tc_active ((next_tab NextTab ^^ length (ids_in s (tc_tabs c))) c) = tc_active c \<and>
    tc_active (next_tab PreviousTab (next_tab NextTab c)) = tc_active c"
proof -
  obtain X Y Z a where b: "tab_block s (tc_tabs c) X Y Z" "a < length Y" "tc_active c = te_id (Y ! a)" using active_in_block [OF assms] .
  let ?n = "length Y"
  have ids: "ids_in s (tc_tabs c) = map te_id Y" by (rule tab_block_ids [OF b(1)])
  have at: "tc_active ((next_tab NextTab ^^ k) c) = te_id (Y ! ((a + k) mod ?n))" for k using next_tabs_at [OF assms(1) b] by blast
  have "(\<lambda>k. te_id (Y ! ((a + k) mod ?n))) ` {..<?n} = te_id ` set Y"
  proof (intro subset_antisym subsetI)
    fix i assume "i \<in> te_id ` set Y"
    then obtain j where j: "j < ?n" "i = te_id (Y ! j)" by (auto simp: in_set_conv_nth)
    then obtain k where "k < ?n" "(a + k) mod ?n = j" using mod_cycle [OF b(2) j(1)] by blast
    then show "i \<in> (\<lambda>k. te_id (Y ! ((a + k) mod ?n))) ` {..<?n}" using j(2) by auto
  qed (use b(2) in \<open>auto intro!: nth_mem mod_less_divisor\<close>)
  moreover have "tc_active (next_tab PreviousTab (next_tab NextTab c)) = tc_active c"
  proof -
    let ?j = "neighbor_index NextTab ?n a"
    have j: "?j < ?n" by (rule neighbor_index_less [OF b(2)])
    have n: "tabs_ok (next_tab NextTab c)" "tab_block s (tc_tabs (next_tab NextTab c)) X Y Z" "tc_active (next_tab NextTab c) = te_id (Y ! ?j)"
      using next_tab_at [OF assms(1) b, of NextTab] b(1) by simp_all
    have "neighbor_index PreviousTab ?n ?j = a"
      using b(2) by (cases "a + 1 = ?n") (auto simp: neighbor_index_def mod_less)
    then show ?thesis using next_tab_at [OF n(1,2) j n(3), of PreviousTab] b(3) by simp
  qed
  ultimately show ?thesis using at b(2,3) by (simp add: ids)
qed

theorem next_tab_visits_all_witness:
  "(\<lambda>k. tc_active ((next_tab NextTab ^^ k) (fst demo_window))) ` {..<2} = {3, 4}"
proof -
  have "active_scope (fst demo_window) = Some (Some 7)"
    by (simp add: demo_window_run active_scope_def active_index_def index_of_def)
  moreover have "tabs_ok (fst demo_window)" using demo_window_ok by (simp add: window_ok_def)
  ultimately show ?thesis using next_tab_visits_all [of "fst demo_window" "Some 7"] by (simp add: demo_window_run numeral_2_eq_2)
qed

text \<open>
  C22. Closing the Active Tab activates the Tab of its Worktree that takes its place, or else the last one of
  the Worktree, and only when the Worktree has no Tab left the Tab that was active most recently.
\<close>

theorem close_active_falls_back:
  assumes "tabs_ok c" "tc_tabs c = P @ t # Q" "P @ Q \<noteq> []" "tc_active c = te_id t"
  shows "\<exists>c'. close_tab (te_id t) c = Some (Inr (TabClosed (te_id t) (tc_active c') (te_payload t)), c') \<and> tabs_ok c' \<and> tc_tabs c' = P @ Q \<and>
    tc_active c' = (if ids_in (te_scope t) Q \<noteq> [] then hd (ids_in (te_scope t) Q)
      else if ids_in (te_scope t) P \<noteq> [] then last (ids_in (te_scope t) P)
      else last (filter (\<lambda>i. i \<noteq> te_id t) (tc_activation_order c)))"
proof (rule close_ok [OF assms(1-3)])
  fix A B c'
  let ?order = "filter (\<lambda>i. i \<noteq> te_id t) (tc_activation_order c)"
  let ?d = "c\<lparr>tc_tabs := P @ Q, tc_activation_order := ?order\<rparr>"
  assume c': "close_tab (te_id t) c = Some (Inr (TabClosed (te_id t) (tc_active c') (te_payload t)), c')" "tabs_ok c'" "tc_tabs c' = P @ Q"
    and f: "tc_active c = te_id t \<longrightarrow> fallback_tab (te_scope t) (length P) ?d = Some (tc_active c')"
  have "te_id t \<notin> te_id ` set (P @ Q)" using tabs_coreD(1) [OF tabs_okD(1) [OF assms(1)]] assms(2) by auto
  moreover obtain u where u: "u \<in> set (P @ Q)" using assms(3) by (cases "P @ Q") auto
  ultimately have "te_id u \<noteq> te_id t" by (metis image_eqI)
  moreover have "te_id u \<in> set (tc_activation_order c)" using u tabs_okD(5) [OF assms(1)] assms(2) by auto
  ultimately have "te_id u \<in> set ?order" by simp
  then have "?order \<noteq> []" by (metis empty_iff list.set(1))
  then show ?thesis using c' f assms(3,4) fallback_spec [of ?d P Q "te_scope t"] by auto
qed

theorem close_active_falls_back_witness:
  "\<exists>c'. close_tab 4 (fst demo_window) = Some (Inr (TabClosed 4 3 ()), c') \<and> map te_id (tc_tabs c') = [1, 2, 3]"
proof -
  let ?P = "[\<lparr>te_id = 1, te_scope = None, te_payload = ()\<rparr>, \<lparr>te_id = 2, te_scope = None, te_payload = ()\<rparr>,
      \<lparr>te_id = 3, te_scope = Some 7, te_payload = ()\<rparr>] :: unit tab_entry list"
  let ?t = "\<lparr>te_id = 4, te_scope = Some 7, te_payload = ()\<rparr> :: unit tab_entry"
  have "tabs_ok (fst demo_window)" using demo_window_ok by (simp add: window_ok_def)
  moreover have "tc_tabs (fst demo_window) = ?P @ ?t # []" "?P @ [] \<noteq> []" "tc_active (fst demo_window) = te_id ?t"
    by (simp_all add: demo_window_run)
  ultimately show ?thesis using close_active_falls_back [of "fst demo_window" ?P ?t "[]"] by auto
qed

lemma park_root:
  assumes "window_ok (c, sh)" "1 < length (tc_tabs c)"
  shows "\<exists>c' x. stepped (ParkTab (tc_root c)) (c, sh) = (c', x # sh) \<and> window_ok (c', x # sh) \<and> te_id (pk_entry x) = tc_root c \<and>
    pk_was_root x \<and> length (tc_tabs c') = length (tc_tabs c) - 1 \<and> tc_root c' \<noteq> tc_root c"
proof -
  have ok: "tabs_ok c" using assms(1) by (simp add: window_ok_def)
  obtain k where k: "index_of (tc_root c) c = Inr k" using index_of_known [OF tabs_okD(3) [OF ok]] .
  obtain P t Q where t: "tc_tabs c = P @ t # Q" "te_id t = tc_root c" using tab_split [OF k] by metis
  have more: "P @ Q \<noteq> []" using assms(2) t(1) by auto
  obtain c' where c': "park_tab (tc_root c) c = Some (Inr (Some \<lparr>pk_entry = t, pk_was_root = (tc_root c = tc_root c)\<rparr>), c')" "tabs_ok c'"
      "tc_tabs c' = P @ Q"
    by (rule park_ok [OF ok t(1) more, unfolded t(2)]) (rule that)
  have run: "run_tabs (ParkTab (tc_root c)) (c, sh) = Some (c', \<lparr>pk_entry = t, pk_was_root = True\<rparr> # sh)" using c'(1) by simp
  then have "window_ok (c', \<lparr>pk_entry = t, pk_was_root = True\<rparr> # sh)" using run_tabs_ok [OF assms(1), of "ParkTab (tc_root c)"] by (simp del: run_tabs.simps)
  moreover have "tc_root c \<notin> te_id ` set (P @ Q)" using tabs_coreD(1) [OF tabs_okD(1) [OF ok]] t by auto
  then have "tc_root c' \<noteq> tc_root c" using tabs_okD(3) [OF c'(2)] c'(3) by auto
  ultimately show ?thesis using run t c'(3) by (simp add: stepped_def del: run_tabs.simps)
qed

lemma restore_root:
  assumes "window_ok (c, sh)" "held i sh = Some x" "pk_was_root x"
  shows "\<exists>c'. stepped (RestoreTab i) (c, sh) = (c', unheld i sh) \<and> window_ok (c', unheld i sh) \<and> tc_root c' = i"
proof -
  obtain w' where w': "run_tabs (RestoreTab i) (c, sh) = Some w'" "window_ok w'" using run_tabs_ok [OF assms(1)] by blast
  then obtain c' where c': "restore_parked_tab x c = Some c'" "w' = (c', unheld i sh)" using assms(2) by auto
  obtain p where "te_id (pk_entry x) = i" using heldD [OF assms(1,2)] by metis
  then have "tc_root c' = i" using c'(1) assms(3) by (auto simp: restore_parked_tab_def Let_def split: option.splits)
  then show ?thesis using w' c'(2) by (simp add: stepped_def)
qed

text \<open>
  C31. In every window of three Tabs or more, two refused closes leave the Root Tab to the order of the refusals.
  When the Root Tab is parked and then the Tab that was promoted in its place, each of them remembers that it
  was the Root Tab, and the one whose close is refused last is the Root Tab at the end.
\<close>

theorem root_follows_last_refusal:
  assumes "window_ok w" "3 \<le> length (tc_tabs (fst w))" "a = tc_root (fst w)" "b = tc_root (fst (stepped (ParkTab a) w))"
  shows "b \<noteq> a \<and> tc_root (fst (fold stepped [ParkTab a, ParkTab b, RestoreTab a, RestoreTab b] w)) = b \<and>
    tc_root (fst (fold stepped [ParkTab a, ParkTab b, RestoreTab b, RestoreTab a] w)) = a"
proof -
  obtain c sh where w: "w = (c, sh)" by fastforce
  obtain c1 x where x: "stepped (ParkTab a) w = (c1, x # sh)" "window_ok (c1, x # sh)" "te_id (pk_entry x) = a" "pk_was_root x"
      "2 \<le> length (tc_tabs c1)" "tc_root c1 \<noteq> a"
    using park_root [of c sh] assms(1-3) w by fastforce
  have b: "b = tc_root c1" using assms(4) x(1) by simp
  obtain c2 y where y: "stepped (ParkTab b) (c1, x # sh) = (c2, y # x # sh)" "window_ok (c2, y # x # sh)" "te_id (pk_entry y) = b" "pk_was_root y"
    using park_root [OF x(2)] x(5) b by fastforce
  have ab: "b \<noteq> a" using x(6) b by simp
  have h: "held a (y # x # sh) = Some x" "held b (y # x # sh) = Some y" "held b (unheld a (y # x # sh)) = Some y"
      "held a (unheld b (y # x # sh)) = Some x"
    using x(3) y(3) ab by (simp_all add: held_def unheld_def)
  obtain c3 c4 where "stepped (RestoreTab a) (c2, y # x # sh) = (c3, unheld a (y # x # sh))" "window_ok (c3, unheld a (y # x # sh))"
      "stepped (RestoreTab b) (c2, y # x # sh) = (c4, unheld b (y # x # sh))" "window_ok (c4, unheld b (y # x # sh))"
    using restore_root [OF y(2) h(1) x(4)] restore_root [OF y(2) h(2) y(4)] by blast
  moreover obtain c5 c6 where "stepped (RestoreTab b) (c3, unheld a (y # x # sh)) = (c5, unheld b (unheld a (y # x # sh)))" "tc_root c5 = b"
      "stepped (RestoreTab a) (c4, unheld b (y # x # sh)) = (c6, unheld a (unheld b (y # x # sh)))" "tc_root c6 = a"
    using restore_root [OF calculation(2) h(3) y(4)] restore_root [OF calculation(4) h(4) x(4)] by blast
  ultimately show ?thesis using ab x(1) y(1) by simp
qed

theorem root_follows_last_refusal_witness:
  "tc_root (fst demo_window) = 1 \<and>
   tc_root (fst (fold stepped [ParkTab 1, ParkTab 2, RestoreTab 1, RestoreTab 2] demo_window)) = 2 \<and>
   tc_root (fst (fold stepped [ParkTab 1, ParkTab 2, RestoreTab 2, RestoreTab 1] demo_window)) = 1"
proof -
  have "3 \<le> length (tc_tabs (fst demo_window))" "1 = tc_root (fst demo_window)" "2 = tc_root (fst (stepped (ParkTab 1) demo_window))"
    by (simp_all add: demo_window_run tab_evaluation)
  then show ?thesis using root_follows_last_refusal [OF demo_window_ok, of 1 2] by simp
qed

end
