(* ===== verification/F32.thy ===== *)
theory F32
  imports Prelude
begin

text \<open>
  The single-precision numbers the Pane layout computes with, as the language defines them: a finite
  value is \<open>m * 2 ^ e\<close> with 24 significant bits, every operation rounds the exact result to the nearest
  value, ties to even, and overflows to an infinity. The two zeros are one value here: no comparison
  of the layout tells them apart.
\<close>

datatype f32 = Fin int int | PosInf | NegInf | NaN

definition f32_zero :: f32 where
  "f32_zero = Fin 0 (-149)"

section \<open>Rounding\<close>

function bit_length :: "int \<Rightarrow> int" where
  "bit_length n = (if n \<le> 0 then 0 else 1 + bit_length (n div 2))"
  by pat_completeness auto
termination by (relation "measure nat") auto

declare bit_length.simps [simp del]

definition round_even :: "int \<Rightarrow> nat \<Rightarrow> int" where
  "round_even n d =
     (let q = n div 2 ^ d; r = n mod 2 ^ d
      in if 2 ^ d < 2 * r \<or> 2 * r = 2 ^ d \<and> odd q then q + 1 else q)"

definition round32 :: "int \<Rightarrow> int \<Rightarrow> f32" where
  "round32 m e =
     (if m = 0 then f32_zero
      else
        let n = \<bar>m\<bar>;
            e1 = max (-149) (e + bit_length n - 24);
            q1 = (if e1 \<le> e then n * 2 ^ nat (e - e1) else round_even n (nat (e1 - e)));
            (q, e2) = (if q1 = 2 ^ 24 then (2 ^ 23, e1 + 1) else (q1, e1))
        in if q = 0 then f32_zero
           else if 104 < e2 then if 0 < m then PosInf else NegInf
           else Fin (sgn m * q) e2)"

text \<open>The value nearest to a quotient of integers. The quotient is taken to more bits than a value has, with one
  more bit for what is left over.\<close>

definition quotient32 :: "int \<Rightarrow> int \<Rightarrow> int \<Rightarrow> f32" where
  "quotient32 a b e =
     (let n = \<bar>a\<bar> * 2 ^ 60; q = n div \<bar>b\<bar>; left = (if n mod \<bar>b\<bar> = 0 then 0 else 1)
      in round32 (sgn a * sgn b * (2 * q + left)) (e - 61))"

definition f32_of_int :: "int \<Rightarrow> f32" where
  "f32_of_int n = round32 n 0"

definition f32_of_ratio :: "int \<Rightarrow> int \<Rightarrow> f32" where
  "f32_of_ratio a b = quotient32 a b 0"

section \<open>Arithmetic\<close>

definition is_finite :: "f32 \<Rightarrow> bool" where
  "is_finite x \<longleftrightarrow> (case x of Fin _ _ \<Rightarrow> True | _ \<Rightarrow> False)"

fun fneg :: "f32 \<Rightarrow> f32" where
  "fneg (Fin m e) = Fin (- m) e"
| "fneg PosInf = NegInf"
| "fneg NegInf = PosInf"
| "fneg NaN = NaN"

fun fadd :: "f32 \<Rightarrow> f32 \<Rightarrow> f32" where
  "fadd (Fin m e) (Fin n f) = (let k = min e f in round32 (m * 2 ^ nat (e - k) + n * 2 ^ nat (f - k)) k)"
| "fadd NaN _ = NaN"
| "fadd _ NaN = NaN"
| "fadd PosInf NegInf = NaN"
| "fadd NegInf PosInf = NaN"
| "fadd PosInf _ = PosInf"
| "fadd NegInf _ = NegInf"
| "fadd _ PosInf = PosInf"
| "fadd _ NegInf = NegInf"

definition fsub :: "f32 \<Rightarrow> f32 \<Rightarrow> f32" where
  "fsub x y = fadd x (fneg y)"

definition signed_inf :: "int \<Rightarrow> f32" where
  "signed_inf s = (if 0 < s then PosInf else if s < 0 then NegInf else NaN)"

fun fmul :: "f32 \<Rightarrow> f32 \<Rightarrow> f32" where
  "fmul (Fin m e) (Fin n f) = round32 (m * n) (e + f)"
| "fmul NaN _ = NaN"
| "fmul _ NaN = NaN"
| "fmul (Fin m _) PosInf = signed_inf m"
| "fmul (Fin m _) NegInf = signed_inf (- m)"
| "fmul PosInf (Fin m _) = signed_inf m"
| "fmul NegInf (Fin m _) = signed_inf (- m)"
| "fmul PosInf PosInf = PosInf"
| "fmul NegInf NegInf = PosInf"
| "fmul PosInf NegInf = NegInf"
| "fmul NegInf PosInf = NegInf"

fun fdiv :: "f32 \<Rightarrow> f32 \<Rightarrow> f32" where
  "fdiv (Fin m e) (Fin n f) = (if n = 0 then signed_inf m else quotient32 m n (e - f))"
| "fdiv NaN _ = NaN"
| "fdiv _ NaN = NaN"
| "fdiv (Fin _ _) _ = f32_zero"
| "fdiv PosInf (Fin m _) = (if m < 0 then NegInf else PosInf)"
| "fdiv NegInf (Fin m _) = (if m < 0 then PosInf else NegInf)"
| "fdiv _ _ = NaN"

section \<open>Comparison\<close>

fun fle :: "f32 \<Rightarrow> f32 \<Rightarrow> bool" where
  "fle (Fin m e) (Fin n f) \<longleftrightarrow> (let k = min e f in m * 2 ^ nat (e - k) \<le> n * 2 ^ nat (f - k))"
| "fle NaN _ \<longleftrightarrow> False"
| "fle _ NaN \<longleftrightarrow> False"
| "fle NegInf _ \<longleftrightarrow> True"
| "fle _ PosInf \<longleftrightarrow> True"
| "fle _ _ \<longleftrightarrow> False"

definition flt :: "f32 \<Rightarrow> f32 \<Rightarrow> bool" where
  "flt x y \<longleftrightarrow> fle x y \<and> \<not> fle y x"

text \<open>\<open>max\<close> and \<open>min\<close> ignore one operand that is not a number.\<close>

definition fmax :: "f32 \<Rightarrow> f32 \<Rightarrow> f32" where
  "fmax x y = (if x = NaN then y else if y = NaN then x else if fle x y then y else x)"

definition fmin :: "f32 \<Rightarrow> f32 \<Rightarrow> f32" where
  "fmin x y = (if x = NaN then y else if y = NaN then x else if fle x y then x else y)"

definition fabs :: "f32 \<Rightarrow> f32" where
  "fabs x = (if flt x f32_zero then fneg x else x)"

text \<open>\<open>clamp\<close> panics unless its bounds are in order.\<close>

definition clamp_value :: "f32 \<Rightarrow> f32 \<Rightarrow> f32 \<Rightarrow> f32" where
  "clamp_value lo hi x = (if flt x lo then lo else if flt hi x then hi else x)"

definition fclamp :: "f32 \<Rightarrow> f32 \<Rightarrow> f32 \<Rightarrow> f32 option" where
  "fclamp lo hi x = (if fle lo hi then Some (clamp_value lo hi x) else None)"

text \<open>\<open>total_cmp\<close>: the order of the numbers, with what is not a number above all of them.\<close>

definition total_less :: "f32 \<Rightarrow> f32 \<Rightarrow> bool" where
  "total_less x y \<longleftrightarrow> (if y = NaN then x \<noteq> NaN else flt x y)"

section \<open>Laws\<close>

lemma is_finite_simps [simp]: "is_finite (Fin m e)" "\<not> is_finite PosInf" "\<not> is_finite NegInf" "\<not> is_finite NaN"
  by (simp_all add: is_finite_def)

lemma fle_refl_finite: "is_finite x \<Longrightarrow> fle x x"
  by (cases x) simp_all

lemma fle_total_finite: "is_finite x \<Longrightarrow> is_finite y \<Longrightarrow> fle x y \<or> fle y x"
  by (cases x; cases y) (auto simp: Let_def min.commute)

lemma clamp_value_between: "fle lo hi \<Longrightarrow> is_finite lo \<Longrightarrow> is_finite hi \<Longrightarrow> is_finite x \<Longrightarrow>
    fle lo (clamp_value lo hi x) \<and> fle (clamp_value lo hi x) hi"
  using fle_total_finite [of lo x] fle_total_finite [of x hi] fle_refl_finite by (auto simp: clamp_value_def flt_def)

lemma fmax_finite: "is_finite x \<Longrightarrow> is_finite y \<Longrightarrow> is_finite (fmax x y)"
  by (auto simp: fmax_def)

end
