(* ===== verification/Pane_Layout.thy ===== *)
theory Pane_Layout
  imports Closing Ordered_Map F32
begin

text \<open>
  The Panes of a Tab and their layout in a window (\<open>domain/tab.rs\<close>): a tree of splits whose leaves are the
  Panes, the Panes themselves, focus and its history, the zoomed Pane, and every operation that splits,
  moves, swaps, closes, parks, restores and resizes. Where the code would panic the model has the value
  \<open>None\<close>.
\<close>

section \<open>Sizes\<close>

datatype split_axis = SplitHorizontal | SplitVertical

record pane_size =
  ps_width :: f32
  ps_height :: f32

datatype pane_size_error = InvalidWidth f32 | InvalidHeight f32

definition new_pane_size :: "f32 \<Rightarrow> f32 \<Rightarrow> pane_size_error + pane_size" where
  "new_pane_size width height =
     (if \<not> is_finite width \<or> fle width f32_zero then Inl (InvalidWidth width)
      else if \<not> is_finite height \<or> fle height f32_zero then Inl (InvalidHeight height)
      else Inr \<lparr>ps_width = width, ps_height = height\<rparr>)"

definition extent :: "split_axis \<Rightarrow> pane_size \<Rightarrow> f32" where
  "extent axis s = (case axis of SplitHorizontal \<Rightarrow> ps_width s | SplitVertical \<Rightarrow> ps_height s)"

datatype pane_edge = EdgeLeft | EdgeRight | EdgeTop | EdgeBottom

definition edge_axis :: "pane_edge \<Rightarrow> split_axis" where
  "edge_axis e = (case e of EdgeLeft \<Rightarrow> SplitHorizontal | EdgeRight \<Rightarrow> SplitHorizontal | EdgeTop \<Rightarrow> SplitVertical | EdgeBottom \<Rightarrow> SplitVertical)"

definition edge_leads :: "pane_edge \<Rightarrow> bool" where
  "edge_leads e \<longleftrightarrow> e = EdgeLeft \<or> e = EdgeTop"

datatype pane_drop = DropEdge pane_edge | DropSwap

datatype focus_direction = FocusLeft | FocusRight | FocusUp | FocusDown

datatype zoom_state = Restored | Zoomed u64

datatype pane_error =
  PaneNotFound u64
| SplitNotFound u64
| PaneIdExhausted
| SplitIdExhausted
| InvalidDividerSize f32
| InvalidSplitRatio f32
| InsufficientSpace pane_size pane_size  \<comment> \<open>available, required\<close>
| LayoutSizeOverflow
| MissingPane u64

definition validate_divider_size :: "f32 \<Rightarrow> pane_error + unit" where
  "validate_divider_size d = (if is_finite d \<and> fle f32_zero d then Inr () else Inl (InvalidDividerSize d))"

definition combined_minimum :: "pane_size \<Rightarrow> pane_size \<Rightarrow> split_axis \<Rightarrow> f32 \<Rightarrow> pane_error + pane_size" where
  "combined_minimum a b axis d =
     (let (width, height) = (case axis of
            SplitHorizontal \<Rightarrow> (fadd (fadd (ps_width a) d) (ps_width b), fmax (ps_height a) (ps_height b))
          | SplitVertical \<Rightarrow> (fmax (ps_width a) (ps_width b), fadd (fadd (ps_height a) d) (ps_height b)))
      in if \<not> is_finite width \<or> \<not> is_finite height then Inl LayoutSizeOverflow
         else Inr \<lparr>ps_width = width, ps_height = height\<rparr>)"

definition ensure_space :: "pane_size \<Rightarrow> pane_size \<Rightarrow> pane_error + unit" where
  "ensure_space available required =
     (if fle (ps_width required) (ps_width available) \<and> fle (ps_height required) (ps_height available) then Inr ()
      else Inl (InsufficientSpace available required))"

section \<open>The tree of splits\<close>

datatype pane_node =
  Leaf u64
| Split u64 split_axis f32 pane_node pane_node  \<comment> \<open>identity, axis, ratio, first, second\<close>

fun contains_pane :: "u64 \<Rightarrow> pane_node \<Rightarrow> bool" where
  "contains_pane target (Leaf p) \<longleftrightarrow> p = target"
| "contains_pane target (Split _ _ _ first second) \<longleftrightarrow> contains_pane target first \<or> contains_pane target second"

fun first_pane_id :: "pane_node \<Rightarrow> u64" where
  "first_pane_id (Leaf p) = p"
| "first_pane_id (Split _ _ _ first _) = first_pane_id first"

fun last_pane_id :: "pane_node \<Rightarrow> u64" where
  "last_pane_id (Leaf p) = p"
| "last_pane_id (Split _ _ _ _ second) = last_pane_id second"

definition half :: f32 where
  "half = f32_of_ratio 1 2"

fun with_split :: "u64 \<Rightarrow> u64 \<Rightarrow> u64 \<Rightarrow> pane_edge \<Rightarrow> pane_node \<Rightarrow> pane_node option" where
  "with_split target new split_id edge (Leaf p) =
     (if p = target then
        let (first, second) = (if edge_leads edge then (new, p) else (p, new))
        in Some (Split split_id (edge_axis edge) half (Leaf first) (Leaf second))
      else None)"
| "with_split target new split_id edge (Split i axis ratio first second) =
     (case with_split target new split_id edge first of
        Some updated \<Rightarrow> Some (Split i axis ratio updated second)
      | None \<Rightarrow> map_option (Split i axis ratio first) (with_split target new split_id edge second))"

text \<open>The layout without a Pane, if another one is left, and the Pane that focus falls back to.\<close>

fun without_pane :: "u64 \<Rightarrow> pane_node \<Rightarrow> (pane_node option \<times> u64) option" where
  "without_pane target (Leaf p) = (if p = target then Some (None, p) else None)"
| "without_pane target (Split i axis ratio first second) =
     (case without_pane target first of
        Some (Some updated, fallback) \<Rightarrow> Some (Some (Split i axis ratio updated second), fallback)
      | Some (None, _) \<Rightarrow> Some (Some second, first_pane_id second)
      | None \<Rightarrow>
          map_option
            (\<lambda>(replacement, fallback). case replacement of
               Some updated \<Rightarrow> (Some (Split i axis ratio first updated), fallback)
             | None \<Rightarrow> (Some first, last_pane_id first))
            (without_pane target second))"

fun exchange_panes :: "u64 \<Rightarrow> u64 \<Rightarrow> pane_node \<Rightarrow> pane_node" where
  "exchange_panes a b (Leaf p) = (if p = a then Leaf b else if p = b then Leaf a else Leaf p)"
| "exchange_panes a b (Split i axis ratio first second) =
     Split i axis ratio (exchange_panes a b first) (exchange_panes a b second)"

fun has_arrangement_of :: "pane_node \<Rightarrow> pane_node \<Rightarrow> bool" where
  "has_arrangement_of (Leaf p) (Leaf q) \<longleftrightarrow> p = q"
| "has_arrangement_of (Split _ axis _ first second) (Split _ axis' _ first' second') \<longleftrightarrow>
     axis = axis' \<and> has_arrangement_of first first' \<and> has_arrangement_of second second'"
| "has_arrangement_of _ _ \<longleftrightarrow> False"

text \<open>Equality of layouts as the language derives it: ratios compare as numbers.\<close>

fun same_layout :: "pane_node \<Rightarrow> pane_node \<Rightarrow> bool" where
  "same_layout (Leaf p) (Leaf q) \<longleftrightarrow> p = q"
| "same_layout (Split i axis ratio first second) (Split i' axis' ratio' first' second') \<longleftrightarrow>
     i = i' \<and> axis = axis' \<and> fle ratio ratio' \<and> fle ratio' ratio \<and> same_layout first first' \<and> same_layout second second'"
| "same_layout _ _ \<longleftrightarrow> False"

fun minimum_size :: "pane_size \<Rightarrow> f32 \<Rightarrow> pane_node \<Rightarrow> pane_error + pane_size" where
  "minimum_size leaf d (Leaf _) = Inr leaf"
| "minimum_size leaf d (Split _ axis _ first second) =
     (case minimum_size leaf d first of
        Inl e \<Rightarrow> Inl e
      | Inr a \<Rightarrow> (case minimum_size leaf d second of Inl e \<Rightarrow> Inl e | Inr b \<Rightarrow> combined_minimum a b axis d))"

fun minimum_size_with :: "pane_size \<Rightarrow> u64 \<Rightarrow> pane_size \<Rightarrow> f32 \<Rightarrow> pane_node \<Rightarrow> pane_error + pane_size" where
  "minimum_size_with leaf p own d (Leaf q) = Inr (if q = p then own else leaf)"
| "minimum_size_with leaf p own d (Split _ axis _ first second) =
     (case minimum_size_with leaf p own d first of
        Inl e \<Rightarrow> Inl e
      | Inr a \<Rightarrow> (case minimum_size_with leaf p own d second of Inl e \<Rightarrow> Inl e | Inr b \<Rightarrow> combined_minimum a b axis d))"

fun find_split :: "u64 \<Rightarrow> pane_node \<Rightarrow> (split_axis \<times> pane_node \<times> pane_node) option" where
  "find_split target (Leaf _) = None"
| "find_split target (Split i axis _ first second) =
     (if i = target then Some (axis, first, second)
      else case find_split target first of Some s \<Rightarrow> Some s | None \<Rightarrow> find_split target second)"

text \<open>The write through \<open>split_mut\<close>.\<close>

fun set_ratio :: "u64 \<Rightarrow> f32 \<Rightarrow> pane_node \<Rightarrow> pane_node option" where
  "set_ratio target r (Leaf _) = None"
| "set_ratio target r (Split i axis ratio first second) =
     (if i = target then Some (Split i axis r first second)
      else case set_ratio target r first of
        Some updated \<Rightarrow> Some (Split i axis ratio updated second)
      | None \<Rightarrow> map_option (Split i axis ratio first) (set_ratio target r second))"

fun fit_ratios :: "pane_size \<Rightarrow> pane_size \<Rightarrow> f32 \<Rightarrow> pane_node \<Rightarrow> pane_node" where
  "fit_ratios available minimum d (Leaf p) = Leaf p"
| "fit_ratios available minimum d (Split i axis ratio first second) =
     (case (minimum_size minimum d first, minimum_size minimum d second) of
        (Inr first_minimum, Inr second_minimum) \<Rightarrow>
          let content = fsub (extent axis available) d
          in if fle content f32_zero then Split i axis ratio first second
             else
               let lowest = fdiv (extent axis first_minimum) content;
                   highest = fsub (f32_of_int 1) (fdiv (extent axis second_minimum) content);
                   ratio = (if fle lowest highest then clamp_value lowest highest ratio else ratio);
                   child = (\<lambda>share. case axis of
                     SplitHorizontal \<Rightarrow> new_pane_size (fmul content share) (ps_height available)
                   | SplitVertical \<Rightarrow> new_pane_size (ps_width available) (fmul content share))
               in case (child ratio, child (fsub (f32_of_int 1) ratio)) of
                    (Inr first_size, Inr second_size) \<Rightarrow>
                      Split i axis ratio (fit_ratios first_size minimum d first) (fit_ratios second_size minimum d second)
                  | _ \<Rightarrow> Split i axis ratio first second
      | _ \<Rightarrow> Split i axis ratio first second)"

definition placed_minimum_size :: "pane_size \<Rightarrow> f32 \<Rightarrow> (nat \<times> pane_edge) list \<Rightarrow> pane_error + pane_size" where
  "placed_minimum_size minimum d placements =
     (case validate_divider_size d of
        Inl e \<Rightarrow> Inl e
      | Inr _ \<Rightarrow>
          case fold (\<lambda>(index, (beside, edge)) root. case root of
                 Inl e \<Rightarrow> Inl e
               | Inr root \<Rightarrow> (case with_split beside (index + 1) (index + 1) edge root of
                   None \<Rightarrow> Inl (PaneNotFound beside) | Some root \<Rightarrow> Inr root))
               (zip [0..<length placements] placements) (Inr (Leaf 0)) of
            Inl e \<Rightarrow> Inl e
          | Inr root \<Rightarrow> minimum_size minimum d root)"

section \<open>Panes in a direction\<close>

record bounds =
  b_left :: f32
  b_top :: f32
  b_right :: f32
  b_bottom :: f32

definition root_bounds :: bounds where
  "root_bounds = \<lparr>b_left = f32_zero, b_top = f32_zero, b_right = f32_of_int 1, b_bottom = f32_of_int 1\<rparr>"

definition center_x :: "bounds \<Rightarrow> f32" where
  "center_x b = fdiv (fadd (b_left b) (b_right b)) (f32_of_int 2)"

definition center_y :: "bounds \<Rightarrow> f32" where
  "center_y b = fdiv (fadd (b_top b) (b_bottom b)) (f32_of_int 2)"

record directional_score =
  ds_primary :: f32
  ds_perpendicular :: f32
  ds_overlap :: f32

definition edge_epsilon :: f32 where
  "edge_epsilon = f32_of_ratio 1 1000000"

definition directional_score_of :: "bounds \<Rightarrow> bounds \<Rightarrow> focus_direction \<Rightarrow> directional_score option" where
  "directional_score_of focused candidate direction =
     (let (in_direction, primary, perpendicular, overlap) = (case direction of
            FocusLeft \<Rightarrow> (fle (b_right candidate) (fadd (b_left focused) edge_epsilon),
              fsub (b_left focused) (b_right candidate),
              fabs (fsub (center_y focused) (center_y candidate)),
              fsub (fmin (b_bottom focused) (b_bottom candidate)) (fmax (b_top focused) (b_top candidate)))
          | FocusRight \<Rightarrow> (fle (fsub (b_right focused) edge_epsilon) (b_left candidate),
              fsub (b_left candidate) (b_right focused),
              fabs (fsub (center_y focused) (center_y candidate)),
              fsub (fmin (b_bottom focused) (b_bottom candidate)) (fmax (b_top focused) (b_top candidate)))
          | FocusUp \<Rightarrow> (fle (b_bottom candidate) (fadd (b_top focused) edge_epsilon),
              fsub (b_top focused) (b_bottom candidate),
              fabs (fsub (center_x focused) (center_x candidate)),
              fsub (fmin (b_right focused) (b_right candidate)) (fmax (b_left focused) (b_left candidate)))
          | FocusDown \<Rightarrow> (fle (fsub (b_bottom focused) edge_epsilon) (b_top candidate),
              fsub (b_top candidate) (b_bottom focused),
              fabs (fsub (center_x focused) (center_x candidate)),
              fsub (fmin (b_right focused) (b_right candidate)) (fmax (b_left focused) (b_left candidate))))
      in if in_direction \<and> flt edge_epsilon overlap
         then Some \<lparr>ds_primary = fmax primary f32_zero, ds_perpendicular = perpendicular, ds_overlap = overlap\<rparr>
         else None)"

definition score_less :: "directional_score \<times> u64 \<Rightarrow> directional_score \<times> u64 \<Rightarrow> bool" where
  "score_less x y =
     (let (a, i) = x; (b, j) = y
      in if total_less (ds_primary a) (ds_primary b) then True
         else if total_less (ds_primary b) (ds_primary a) then False
         else if total_less (ds_perpendicular a) (ds_perpendicular b) then True
         else if total_less (ds_perpendicular b) (ds_perpendicular a) then False
         else if total_less (ds_overlap b) (ds_overlap a) then True
         else if total_less (ds_overlap a) (ds_overlap b) then False
         else i < j)"

fun collect_pane_bounds :: "bounds \<Rightarrow> pane_node \<Rightarrow> (u64 \<times> bounds) list" where
  "collect_pane_bounds b (Leaf p) = [(p, b)]"
| "collect_pane_bounds b (Split _ axis ratio first second) =
     (let (first_bounds, second_bounds) = (case axis of
            SplitHorizontal \<Rightarrow>
              let divider = fadd (b_left b) (fmul (fsub (b_right b) (b_left b)) ratio)
              in (b\<lparr>b_right := divider\<rparr>, b\<lparr>b_left := divider\<rparr>)
          | SplitVertical \<Rightarrow>
              let divider = fadd (b_top b) (fmul (fsub (b_bottom b) (b_top b)) ratio)
              in (b\<lparr>b_bottom := divider\<rparr>, b\<lparr>b_top := divider\<rparr>))
      in collect_pane_bounds first_bounds first @ collect_pane_bounds second_bounds second)"

text \<open>\<open>min_by\<close> keeps the first of equal elements.\<close>

fun least_by :: "('e \<Rightarrow> 'e \<Rightarrow> bool) \<Rightarrow> 'e list \<Rightarrow> 'e option" where
  "least_by lt [] = None"
| "least_by lt (x # xs) = (case least_by lt xs of None \<Rightarrow> Some x | Some y \<Rightarrow> Some (if lt y x then y else x))"

definition pane_in_direction :: "u64 \<Rightarrow> focus_direction \<Rightarrow> pane_node \<Rightarrow> u64 option" where
  "pane_in_direction focused direction root =
     (let panes = collect_pane_bounds root_bounds root
      in case find_map (\<lambda>(p, b). if p = focused then Some b else None) panes of
           None \<Rightarrow> None
         | Some focused_bounds \<Rightarrow>
             map_option snd (least_by score_less
               (List.map_filter (\<lambda>(p, b). map_option (\<lambda>score. (score, p)) (directional_score_of focused_bounds b direction)) panes)))"

section \<open>The Tab\<close>

record 'a pane_tab =
  pt_id :: u64
  pt_root :: pane_node
  pt_panes :: "(u64, 'a) omap"
  pt_focused :: u64
  pt_focus_history :: "u64 list"
  pt_root_pane :: u64
  pt_zoom :: zoom_state
  pt_minimum :: pane_size
  pt_next_pane :: u64
  pt_next_split :: u64

record 'a parked_pane =
  pp_id :: u64
  pp_payload :: 'a
  pp_original :: pane_node
  pp_remaining :: pane_node
  pp_was_root :: bool

definition new_pane_tab :: "u64 \<Rightarrow> pane_size \<Rightarrow> (u64 \<Rightarrow> 'a) \<Rightarrow> 'a pane_tab" where
  "new_pane_tab i minimum create =
     \<lparr>pt_id = i, pt_root = Leaf 1, pt_panes = [(1, create 1)], pt_focused = 1, pt_focus_history = [1], pt_root_pane = 1,
      pt_zoom = Restored, pt_minimum = minimum, pt_next_pane = 2, pt_next_split = 1\<rparr>"

definition pane_total :: "'a pane_tab \<Rightarrow> nat" where
  "pane_total t = length (pt_panes t)"

definition set_minimum_pane_size :: "pane_size \<Rightarrow> 'a pane_tab \<Rightarrow> 'a pane_tab" where
  "set_minimum_pane_size s t = t\<lparr>pt_minimum := s\<rparr>"

datatype pane_arrangement =
  ArrangedPane u64
| ArrangedSplit split_axis f32 pane_arrangement pane_arrangement

text \<open>Building a layout from an arrangement, with the Panes seen and the next split identity threaded through.\<close>

fun build_arrangement :: "pane_arrangement \<Rightarrow> u64 list \<Rightarrow> u64 \<Rightarrow> pane_error + pane_node \<times> u64 list \<times> u64" where
  "build_arrangement (ArrangedPane p) seen n =
     (if p \<in> set seen then Inl (MissingPane p) else Inr (Leaf p, p # seen, n))"
| "build_arrangement (ArrangedSplit axis ratio first second) seen n =
     (if \<not> is_finite ratio \<or> fle ratio f32_zero \<or> fle (f32_of_int 1) ratio then Inl (InvalidSplitRatio ratio)
      else case checked_add n 1 of
          None \<Rightarrow> Inl SplitIdExhausted
        | Some n' \<Rightarrow>
            case build_arrangement first seen n' of
              Inl e \<Rightarrow> Inl e
            | Inr (a, seen, n') \<Rightarrow>
                (case build_arrangement second seen n' of
                   Inl e \<Rightarrow> Inl e
                 | Inr (b, seen, n') \<Rightarrow> Inr (Split n axis ratio a b, seen, n')))"

definition restore_arrangement :: "pane_arrangement \<Rightarrow> 'a pane_tab \<Rightarrow> (pane_error + unit) \<times> 'a pane_tab" where
  "restore_arrangement arrangement t =
     (case build_arrangement arrangement [] (pt_next_split t) of
        Inl e \<Rightarrow> (Inl e, t)
      | Inr (root, seen, n) \<Rightarrow>
          if length seen \<noteq> length (pt_panes t) \<or> list_ex (\<lambda>x. fst x \<notin> set seen) (pt_panes t)
          then (Inl (MissingPane (pt_root_pane t)), t)
          else (Inr (), t\<lparr>pt_root := root, pt_next_split := n\<rparr>))"

subsection \<open>Focus\<close>

definition apply_focused_pane :: "u64 \<Rightarrow> 'a pane_tab \<Rightarrow> 'a pane_tab" where
  "apply_focused_pane p t =
     t\<lparr>pt_focused := p, pt_zoom := (case pt_zoom t of Zoomed _ \<Rightarrow> Zoomed p | Restored \<Rightarrow> Restored)\<rparr>"

definition set_focused_pane :: "u64 \<Rightarrow> 'a pane_tab \<Rightarrow> 'a pane_tab" where
  "set_focused_pane p t =
     apply_focused_pane p (t\<lparr>pt_focus_history := filter (\<lambda>q. q \<noteq> p) (pt_focus_history t) @ [p]\<rparr>)"

definition focus_pane :: "u64 \<Rightarrow> 'a pane_tab \<Rightarrow> (pane_error + unit) \<times> 'a pane_tab" where
  "focus_pane p t = (if \<not> contains_pane p (pt_root t) then (Inl (PaneNotFound p), t) else (Inr (), set_focused_pane p t))"

definition focus_pane_in_direction :: "focus_direction \<Rightarrow> 'a pane_tab \<Rightarrow> u64 option \<times> 'a pane_tab" where
  "focus_pane_in_direction direction t =
     (case pane_in_direction (pt_focused t) direction (pt_root t) of
        None \<Rightarrow> (None, t)
      | Some p \<Rightarrow> (Some p, set_focused_pane p t))"

datatype history_step = PreviousPane | NextPane

definition focus_pane_in_history :: "history_step \<Rightarrow> 'a pane_tab \<Rightarrow> u64 option \<times> 'a pane_tab" where
  "focus_pane_in_history step t =
     (let history = pt_focus_history t
      in if length history \<le> 1 then (None, t)
         else case position (\<lambda>p. p = pt_focused t) history of
             None \<Rightarrow> (None, t)
           | Some current \<Rightarrow>
               let n = (case step of
                     PreviousPane \<Rightarrow> if 1 \<le> current then current - 1 else length history - 1
                   | NextPane \<Rightarrow> (current + 1) mod length history)
               in (Some (history ! n), apply_focused_pane (history ! n) t))"

definition restore_focus :: "u64 list \<Rightarrow> u64 option \<Rightarrow> bool \<Rightarrow> 'a pane_tab \<Rightarrow> 'a pane_tab" where
  "restore_focus history focused zoomed t =
     (let known = (\<lambda>p. p \<in> fst ` set (pt_panes t));
          restored = filter (\<lambda>p. p \<notin> set history) (pt_focus_history t);
          restored = fold (\<lambda>p restored. if known p \<and> p \<notin> set restored then restored @ [p] else restored) history restored;
          focused = (case focused of Some p \<Rightarrow> if known p then Some p else None | None \<Rightarrow> None);
          p = (case focused of Some p \<Rightarrow> p | None \<Rightarrow> pt_root_pane t);
          restored = (if p \<in> set restored then restored else restored @ [p])
      in t\<lparr>pt_focus_history := restored, pt_focused := p,
           pt_zoom := (if zoomed \<and> focused \<noteq> None \<and> 1 < pane_total t then Zoomed p else Restored)\<rparr>)"

definition toggle_zoom :: "'a pane_tab \<Rightarrow> zoom_state option \<times> 'a pane_tab" where
  "toggle_zoom t =
     (if pane_total t \<le> 1 then (None, t)
      else let z = (case pt_zoom t of Restored \<Rightarrow> Zoomed (pt_focused t) | Zoomed _ \<Rightarrow> Restored)
           in (Some z, t\<lparr>pt_zoom := z\<rparr>))"

subsection \<open>Splitting, moving and swapping\<close>

definition next_split_ids :: "'a pane_tab \<Rightarrow> pane_error + u64 \<times> u64 \<times> u64 \<times> u64" where
  "next_split_ids t =
     (case checked_add (pt_next_pane t) 1 of
        None \<Rightarrow> Inl PaneIdExhausted
      | Some p \<Rightarrow>
          (case checked_add (pt_next_split t) 1 of
             None \<Rightarrow> Inl SplitIdExhausted
           | Some s \<Rightarrow> Inr (pt_next_pane t, pt_next_split t, p, s)))"

definition insert_pane :: "u64 \<Rightarrow> pane_edge \<Rightarrow> (u64 \<Rightarrow> 'a) \<Rightarrow> 'a pane_tab \<Rightarrow> (pane_error + u64) \<times> 'a pane_tab" where
  "insert_pane source edge create t =
     (case next_split_ids t of
        Inl e \<Rightarrow> (Inl e, t)
      | Inr (p, s, next_pane, next_split) \<Rightarrow>
          (case with_split source p s edge (pt_root t) of
             None \<Rightarrow> (Inl (PaneNotFound source), t)
           | Some root \<Rightarrow>
               (Inr p, t\<lparr>pt_root := root, pt_panes := omap_insert p (create p) (pt_panes t), pt_next_pane := next_pane,
                 pt_next_split := next_split, pt_focus_history := p # pt_focus_history t\<rparr>)))"

definition validate_split :: "u64 \<Rightarrow> split_axis \<Rightarrow> pane_size \<Rightarrow> f32 \<Rightarrow> 'a pane_tab \<Rightarrow> pane_error + unit" where
  "validate_split target axis available d t =
     (if \<not> contains_pane target (pt_root t) then Inl (PaneNotFound target)
      else case validate_divider_size d of
          Inl e \<Rightarrow> Inl e
        | Inr _ \<Rightarrow>
            (case combined_minimum (pt_minimum t) (pt_minimum t) axis d of
               Inl e \<Rightarrow> Inl e
             | Inr required \<Rightarrow> ensure_space available required))"

text \<open>The layout after a move. \<open>None\<close> is the panic of the two \<open>unreachable!\<close> cases.\<close>

definition moved_root :: "u64 \<Rightarrow> u64 \<Rightarrow> pane_edge \<Rightarrow> 'a pane_tab \<Rightarrow> pane_node option" where
  "moved_root p target edge t =
     (case without_pane p (pt_root t) of
        Some (Some remaining, _) \<Rightarrow> with_split target p (pt_next_split t) edge remaining
      | _ \<Rightarrow> None)"

definition move_pane_to :: "u64 \<Rightarrow> u64 \<Rightarrow> pane_edge \<Rightarrow> pane_size \<Rightarrow> f32 \<Rightarrow> 'a pane_tab \<Rightarrow> ((pane_error + bool) \<times> 'a pane_tab) option" where
  "move_pane_to p target edge available d t =
     (if \<not> contains_pane p (pt_root t) then Some (Inl (PaneNotFound p), t)
      else case validate_split target (edge_axis edge) available d t of
          Inl e \<Rightarrow> Some (Inl e, t)
        | Inr _ \<Rightarrow>
            if p = target then Some (Inr False, t)
            else case checked_add (pt_next_split t) 1 of
                None \<Rightarrow> Some (Inl SplitIdExhausted, t)
              | Some next_split \<Rightarrow>
                  map_option
                    (\<lambda>root.
                       if has_arrangement_of root (pt_root t) then (Inr False, t)
                       else (Inr True, set_focused_pane p (t\<lparr>pt_root := root, pt_next_split := next_split, pt_zoom := Restored\<rparr>)))
                    (moved_root p target edge t))"

definition swap_panes :: "u64 \<Rightarrow> u64 \<Rightarrow> 'a pane_tab \<Rightarrow> (pane_error + bool) \<times> 'a pane_tab" where
  "swap_panes p target t =
     (if \<not> contains_pane p (pt_root t) then (Inl (PaneNotFound p), t)
      else if \<not> contains_pane target (pt_root t) then (Inl (PaneNotFound target), t)
      else if p = target then (Inr False, t)
      else (Inr True, set_focused_pane p (t\<lparr>pt_root := exchange_panes p target (pt_root t), pt_zoom := Restored\<rparr>)))"

definition can_receive :: "u64 \<Rightarrow> pane_edge \<Rightarrow> pane_size \<Rightarrow> pane_size \<Rightarrow> f32 \<Rightarrow> 'a pane_tab \<Rightarrow> bool" where
  "can_receive target edge incoming available d t \<longleftrightarrow>
     contains_pane target (pt_root t) \<and> (case validate_divider_size d of Inl _ \<Rightarrow> False | Inr _ \<Rightarrow> True) \<and>
     (case combined_minimum (pt_minimum t) incoming (edge_axis edge) d of
        Inl _ \<Rightarrow> False
      | Inr required \<Rightarrow> (case ensure_space available required of Inl _ \<Rightarrow> False | Inr _ \<Rightarrow> True))"

text \<open>The outer \<open>None\<close> is the panic of \<open>moved_root\<close>.\<close>

definition resolve_drop :: "u64 \<Rightarrow> u64 \<Rightarrow> pane_drop \<Rightarrow> pane_size \<Rightarrow> f32 \<Rightarrow> 'a pane_tab \<Rightarrow> pane_drop option option" where
  "resolve_drop p target released available d t =
     (if p = target \<or> \<not> contains_pane p (pt_root t) \<or> \<not> contains_pane target (pt_root t) then Some None
      else case released of
          DropSwap \<Rightarrow> Some (Some DropSwap)
        | DropEdge edge \<Rightarrow>
            map_option
              (\<lambda>moved.
                 if has_arrangement_of moved (pt_root t) then None
                 else if has_arrangement_of moved (exchange_panes p target (pt_root t)) then Some DropSwap
                 else if can_receive target edge (pt_minimum t) available d t then Some released else None)
              (moved_root p target edge t))"

definition can_insert :: "u64 \<Rightarrow> pane_edge \<Rightarrow> pane_size \<Rightarrow> pane_size \<Rightarrow> f32 \<Rightarrow> 'a pane_tab \<Rightarrow> bool" where
  "can_insert beside edge incoming available d t =
     (let p = pt_next_pane t;
          incoming = \<lparr>ps_width = fmax (ps_width incoming) (ps_width (pt_minimum t)), ps_height = fmax (ps_height incoming) (ps_height (pt_minimum t))\<rparr>
      in case with_split beside p (pt_next_split t) edge (pt_root t) of
           None \<Rightarrow> False
         | Some root \<Rightarrow>
             (case minimum_size_with (pt_minimum t) p incoming d root of
                Inl _ \<Rightarrow> False
              | Inr required \<Rightarrow> (case ensure_space available required of Inl _ \<Rightarrow> False | Inr _ \<Rightarrow> True)))"

subsection \<open>Closing, parking and restoring\<close>

definition close_pane :: "u64 \<Rightarrow> 'a pane_tab \<Rightarrow> ((pane_error + 'a close_pane_outcome) \<times> 'a pane_tab) option" where
  "close_pane p t =
     (case without_pane p (pt_root t) of
        None \<Rightarrow> Some (Inl (PaneNotFound p), t)
      | Some (replacement, fallback) \<Rightarrow>
          if resolve_close ClosePane (pane_total t) = Parent then Some (Inr (PaneClosesTab (pt_id t)), t)
          else case replacement of
              None \<Rightarrow> None
            | Some root \<Rightarrow>
                (case map_of (pt_panes t) p of
                   None \<Rightarrow> Some (Inl (MissingPane p), t)
                 | Some payload \<Rightarrow>
                     let t = t\<lparr>pt_panes := omap_remove p (pt_panes t), pt_root := root\<rparr>;
                         t = (if pt_root_pane t = p then t\<lparr>pt_root_pane := first_pane_id (pt_root t)\<rparr> else t);
                         t = t\<lparr>pt_focus_history := filter (\<lambda>q. q \<noteq> p) (pt_focus_history t)\<rparr>;
                         t = (if pt_focused t = p then set_focused_pane fallback t else t);
                         t = (if pane_total t = 1 \<or> pt_zoom t = Zoomed p then t\<lparr>pt_zoom := Restored\<rparr> else t)
                     in Some (Inr (PaneClosed p (pt_focused t) payload), t)))"

definition park_pane :: "u64 \<Rightarrow> 'a pane_tab \<Rightarrow> ((pane_error + 'a parked_pane option) \<times> 'a pane_tab) option" where
  "park_pane p t =
     (let original = pt_root t; was_root = (pt_root_pane t = p)
      in map_option
           (\<lambda>(r, t). case r of
              Inl e \<Rightarrow> (Inl e, t)
            | Inr (PaneClosed _ _ payload) \<Rightarrow>
                (Inr (Some \<lparr>pp_id = p, pp_payload = payload, pp_original = original, pp_remaining = pt_root t, pp_was_root = was_root\<rparr>), t)
            | Inr (PaneClosesTab _) \<Rightarrow> (Inr None, t))
           (close_pane p t))"

definition restore_parked_pane :: "'a parked_pane \<Rightarrow> u64 \<Rightarrow> pane_edge \<Rightarrow> 'a pane_tab \<Rightarrow> (pane_error + u64) \<times> 'a pane_tab" where
  "restore_parked_pane parked source edge t =
     (let placed =
        (if same_layout (pt_root t) (pp_remaining parked) then Inr (t\<lparr>pt_root := pp_original parked\<rparr>)
         else case checked_add (pt_next_split t) 1 of
             None \<Rightarrow> Inl SplitIdExhausted
           | Some n \<Rightarrow>
               (case with_split source (pp_id parked) (pt_next_split t) edge (pt_root t) of
                  None \<Rightarrow> Inl (PaneNotFound source)
                | Some root \<Rightarrow> Inr (t\<lparr>pt_root := root, pt_next_split := n\<rparr>)))
      in case placed of
           Inl e \<Rightarrow> (Inl e, t)
         | Inr t \<Rightarrow>
             let t = (if pp_was_root parked then t\<lparr>pt_root_pane := pp_id parked\<rparr> else t)
             in (Inr (pp_id parked),
                 t\<lparr>pt_panes := omap_insert (pp_id parked) (pp_payload parked) (pt_panes t),
                   pt_focus_history := pp_id parked # pt_focus_history t\<rparr>))"

subsection \<open>Ratios\<close>

definition fit_split_ratios :: "pane_size \<Rightarrow> f32 \<Rightarrow> 'a pane_tab \<Rightarrow> 'a pane_tab" where
  "fit_split_ratios available d t =
     (case validate_divider_size d of
        Inr _ \<Rightarrow> t\<lparr>pt_root := fit_ratios available (pt_minimum t) d (pt_root t)\<rparr>
      | Inl _ \<Rightarrow> t)"

definition tab_minimum_size :: "f32 \<Rightarrow> 'a pane_tab \<Rightarrow> pane_error + pane_size" where
  "tab_minimum_size d t =
     (case validate_divider_size d of Inl e \<Rightarrow> Inl e | Inr _ \<Rightarrow> minimum_size (pt_minimum t) d (pt_root t))"

definition split_ratio_range :: "u64 \<Rightarrow> pane_size \<Rightarrow> f32 \<Rightarrow> 'a pane_tab \<Rightarrow> pane_error + f32 \<times> f32" where
  "split_ratio_range i available d t =
     (case validate_divider_size d of
        Inl e \<Rightarrow> Inl e
      | Inr _ \<Rightarrow>
          case find_split i (pt_root t) of
            None \<Rightarrow> Inl (SplitNotFound i)
          | Some (axis, first, second) \<Rightarrow>
              case minimum_size (pt_minimum t) d first of
                Inl e \<Rightarrow> Inl e
              | Inr first_minimum \<Rightarrow>
                  case minimum_size (pt_minimum t) d second of
                    Inl e \<Rightarrow> Inl e
                  | Inr second_minimum \<Rightarrow>
                      case combined_minimum first_minimum second_minimum axis d of
                        Inl e \<Rightarrow> Inl e
                      | Inr required \<Rightarrow>
                          case ensure_space available required of
                            Inl e \<Rightarrow> Inl e
                          | Inr _ \<Rightarrow>
                              let content = fsub (extent axis available) d
                              in Inr (fdiv (extent axis first_minimum) content,
                                      fsub (f32_of_int 1) (fdiv (extent axis second_minimum) content)))"

text \<open>\<open>None\<close> is the panic of \<open>clamp\<close>.\<close>

definition resize_split :: "u64 \<Rightarrow> pane_size \<Rightarrow> f32 \<Rightarrow> f32 \<Rightarrow> 'a pane_tab \<Rightarrow> ((pane_error + f32) \<times> 'a pane_tab) option" where
  "resize_split i available d requested t =
     (case validate_divider_size d of
        Inl e \<Rightarrow> Some (Inl e, t)
      | Inr _ \<Rightarrow>
          if \<not> is_finite requested then Some (Inl (InvalidSplitRatio requested), t)
          else case split_ratio_range i available d t of
              Inl e \<Rightarrow> Some (Inl e, t)
            | Inr (lo, hi) \<Rightarrow>
                map_option
                  (\<lambda>ratio. case set_ratio i ratio (pt_root t) of
                     None \<Rightarrow> (Inl (SplitNotFound i), t)
                   | Some root \<Rightarrow> (Inr ratio, t\<lparr>pt_root := root\<rparr>))
                  (fclamp lo hi requested))"

end
