(* ===== verification/Pane_Laws.thy ===== *)
theory Pane_Laws
  imports Pane_Layout
begin

text \<open>
  What the operations on the tree of splits do to its Panes and to its split identities, and the
  invariant of a Tab with the Panes parked out of it: every Pane is in the layout exactly once, in the
  map of Panes, and in the focus history; the focused and the root Pane exist; zoom follows focus; and
  every identity is below the next one to be given.
\<close>

section \<open>The tree\<close>

fun leaves :: "pane_node \<Rightarrow> u64 list" where
  "leaves (Leaf p) = [p]"
| "leaves (Split _ _ _ first second) = leaves first @ leaves second"

fun split_ids :: "pane_node \<Rightarrow> u64 list" where
  "split_ids (Leaf _) = []"
| "split_ids (Split i _ _ first second) = i # split_ids first @ split_ids second"

fun ratios :: "pane_node \<Rightarrow> f32 list" where
  "ratios (Leaf _) = []"
| "ratios (Split _ _ r first second) = r # ratios first @ ratios second"

lemma contains_pane_iff [simp]: "contains_pane p n \<longleftrightarrow> p \<in> set (leaves n)"
  by (induction n) auto

lemma first_pane_id_leaf [simp]: "first_pane_id n \<in> set (leaves n)"
  by (induction n) auto

lemma last_pane_id_leaf [simp]: "last_pane_id n \<in> set (leaves n)"
  by (induction n) auto

lemma leaves_nonempty [simp]: "leaves n \<noteq> []"
  by (induction n) auto

lemma with_split_None: "with_split target p s edge n = None \<longleftrightarrow> target \<notin> set (leaves n)"
  by (induction n) (auto split: option.splits)

lemma with_split_mset:
  "with_split target p s edge n = Some n' \<Longrightarrow>
   mset (leaves n') = add_mset p (mset (leaves n)) \<and> mset (split_ids n') = add_mset s (mset (split_ids n))"
proof (induction n arbitrary: n')
  case (Leaf q)
  then show ?case by (auto split: if_splits prod.splits)
next
  case (Split i axis ratio first second)
  then show ?case by (auto split: option.splits)
qed

lemma without_pane_None: "without_pane p n = None \<longleftrightarrow> p \<notin> set (leaves n)"
  by (induction n) (auto split: option.splits)

lemma without_pane_last: "without_pane p n = Some (None, f) \<longleftrightarrow> n = Leaf p \<and> f = p"
  by (cases n) (auto split: option.splits)

lemma without_pane_mset:
  "without_pane p n = Some (Some n', f) \<Longrightarrow>
   mset (leaves n) = add_mset p (mset (leaves n')) \<and> (\<exists>i. mset (split_ids n) = add_mset i (mset (split_ids n'))) \<and>
   f \<in> set (leaves n')"
proof (induction n arbitrary: n' f)
  case (Leaf q)
  then show ?case by (auto split: if_splits)
next
  case (Split i axis ratio first second)
  show ?case
  proof (cases "without_pane p first")
    case None
    then obtain r g where r: "without_pane p second = Some (r, g)"
      using Split.prems by auto
    show ?thesis
    proof (cases r)
      case None
      then have "second = Leaf p" using r by (simp add: without_pane_last)
      then show ?thesis using Split.prems \<open>without_pane p first = None\<close> by auto
    next
      case (Some second')
      then show ?thesis using Split.IH(2) [of second' g] Split.prems \<open>without_pane p first = None\<close> r by auto
    qed
  next
    case (Some a)
    then obtain r g where r: "without_pane p first = Some (r, g)" by (cases a) auto
    show ?thesis
    proof (cases r)
      case None
      then have "first = Leaf p" using r by (simp add: without_pane_last)
      then show ?thesis using Split.prems by auto
    next
      case (Some first')
      then show ?thesis using Split.IH(1) [of first' g] Split.prems r by auto
    qed
  qed
qed

lemma without_pane_shape:
  assumes "without_pane p n = Some (Some n', f)" "distinct (leaves n)"
  shows "set (leaves n') = set (leaves n) - {p}" and "distinct (leaves n')" and "f \<in> set (leaves n')"
    and "p \<in> set (leaves n)" and "length (leaves n) = Suc (length (leaves n'))"
proof -
  have m: "mset (leaves n) = add_mset p (mset (leaves n'))" and f: "f \<in> set (leaves n')"
    using without_pane_mset [OF assms(1)] by simp_all
  have "mset (leaves n) = mset (p # leaves n')" using m by simp
  then have d: "distinct (p # leaves n')" and s: "set (leaves n) = set (p # leaves n')"
    and l: "length (leaves n) = length (p # leaves n')"
    using assms(2) mset_eq_imp_distinct_iff mset_eq_setD mset_eq_length by blast+
  show "set (leaves n') = set (leaves n) - {p}" "distinct (leaves n')" "p \<in> set (leaves n)"
    "length (leaves n) = Suc (length (leaves n'))" using d s l by auto
  show "f \<in> set (leaves n')" by (rule f)
qed

lemma without_pane_splits:
  assumes "without_pane p n = Some (Some n', f)"
  shows "set (split_ids n') \<subseteq> set (split_ids n)" and "distinct (split_ids n) \<Longrightarrow> distinct (split_ids n')"
proof -
  obtain i where "mset (split_ids n) = mset (i # split_ids n')" using without_pane_mset [OF assms] by auto
  then have "set (split_ids n) = set (i # split_ids n')" and "distinct (split_ids n) = distinct (i # split_ids n')"
    using mset_eq_setD mset_eq_imp_distinct_iff by blast+
  then show "set (split_ids n') \<subseteq> set (split_ids n)" and "distinct (split_ids n) \<Longrightarrow> distinct (split_ids n')" by auto
qed

lemma with_split_shape:
  assumes "with_split target p s edge n = Some n'"
  shows "set (leaves n') = insert p (set (leaves n))" and "set (split_ids n') = insert s (set (split_ids n))"
    and "distinct (leaves n') \<longleftrightarrow> p \<notin> set (leaves n) \<and> distinct (leaves n)"
    and "distinct (split_ids n') \<longleftrightarrow> s \<notin> set (split_ids n) \<and> distinct (split_ids n)"
    and "length (leaves n') = Suc (length (leaves n))"
proof -
  have "mset (leaves n') = mset (p # leaves n)" and "mset (split_ids n') = mset (s # split_ids n)"
    using with_split_mset [OF assms] by simp_all
  note m = this
  show "set (leaves n') = insert p (set (leaves n))" "set (split_ids n') = insert s (set (split_ids n))"
    using m [THEN mset_eq_setD] by simp_all
  show "distinct (leaves n') \<longleftrightarrow> p \<notin> set (leaves n) \<and> distinct (leaves n)"
    "distinct (split_ids n') \<longleftrightarrow> s \<notin> set (split_ids n) \<and> distinct (split_ids n)"
    using m [THEN mset_eq_imp_distinct_iff] by simp_all
  show "length (leaves n') = Suc (length (leaves n))" using m(1) [THEN mset_eq_length] by simp
qed

text \<open>Taking out the Pane that a split put in gives the layout back.\<close>

lemma without_with_split:
  "with_split target p s edge n = Some n' \<Longrightarrow> p \<notin> set (leaves n) \<Longrightarrow> \<exists>f. without_pane p n' = Some (Some n, f)"
proof (induction n arbitrary: n')
  case (Leaf q)
  then show ?case by (auto split: if_splits prod.splits)
next
  case (Split i axis ratio first second)
  show ?case
  proof (cases "with_split target p s edge first")
    case None
    then obtain second' where s: "with_split target p s edge second = Some second'" "n' = Split i axis ratio first second'"
      using Split.prems by auto
    then obtain f where "without_pane p second' = Some (Some second, f)" using Split.IH(2) Split.prems by auto
    moreover have "without_pane p first = None" using Split.prems by (simp add: without_pane_None)
    ultimately show ?thesis using s by simp
  next
    case (Some first')
    then obtain f where "without_pane p first' = Some (Some first, f)" using Split.IH(1) Split.prems by auto
    then show ?thesis using Some Split.prems by auto
  qed
qed

definition swapped :: "u64 \<Rightarrow> u64 \<Rightarrow> u64 \<Rightarrow> u64" where
  "swapped a b p = (if p = a then b else if p = b then a else p)"

lemma leaves_exchange: "leaves (exchange_panes a b n) = map (swapped a b) (leaves n)"
  by (induction n) (auto simp: swapped_def)

lemma split_ids_exchange [simp]: "split_ids (exchange_panes a b n) = split_ids n"
  by (induction n) auto

lemma exchange_exchange [simp]: "exchange_panes a b (exchange_panes a b n) = n"
  by (induction n) auto

lemma exchange_commute: "exchange_panes a b n = exchange_panes b a n"
  by (induction n) auto

lemma set_leaves_exchange:
  "a \<in> set (leaves n) \<Longrightarrow> b \<in> set (leaves n) \<Longrightarrow> set (leaves (exchange_panes a b n)) = set (leaves n)"
  by (auto simp: leaves_exchange swapped_def image_iff)

lemma distinct_leaves_exchange: "distinct (leaves (exchange_panes a b n)) \<longleftrightarrow> distinct (leaves n)"
proof -
  have "inj_on (swapped a b) (set (leaves n))" by (auto simp: inj_on_def swapped_def split: if_splits)
  then show ?thesis by (simp add: leaves_exchange distinct_map)
qed

lemma fit_ratios_keeps [simp]:
  "leaves (fit_ratios available minimum d n) = leaves n" "split_ids (fit_ratios available minimum d n) = split_ids n"
  by (induction n arbitrary: available) (auto simp: Let_def split: sum.splits)

lemma set_ratio_keeps: "set_ratio i r n = Some n' \<Longrightarrow> leaves n' = leaves n \<and> split_ids n' = split_ids n"
  by (induction n arbitrary: n') (auto split: if_splits option.splits)

lemma set_ratio_None: "set_ratio i r n = None \<longleftrightarrow> i \<notin> set (split_ids n)"
  by (induction n) (auto split: option.splits)

lemma find_split_None: "find_split i n = None \<longleftrightarrow> i \<notin> set (split_ids n)"
  by (induction n) (auto split: option.splits)

lemma half_number: "half \<noteq> NaN"
  by code_simp

lemma fle_refl [simp]: "fle x x \<longleftrightarrow> x \<noteq> NaN"
  by (cases x) (auto simp: Let_def)

lemma fle_numbers: "fle x y \<Longrightarrow> x \<noteq> NaN \<and> y \<noteq> NaN"
  by (cases x; cases y) auto

lemma ratios_with_split: "with_split target p s edge n = Some n' \<Longrightarrow> set (ratios n') \<subseteq> insert half (set (ratios n))"
  by (induction n arbitrary: n') (auto split: if_splits option.splits prod.splits)

lemma ratios_without_pane: "without_pane p n = Some (Some n', f) \<Longrightarrow> set (ratios n') \<subseteq> set (ratios n)"
  by (induction n arbitrary: n' f) (auto split: if_splits option.splits prod.splits)

lemma ratios_exchange [simp]: "ratios (exchange_panes a b n) = ratios n"
  by (induction n) auto

lemma clamp_number: "fle lo hi \<Longrightarrow> r \<noteq> NaN \<Longrightarrow> clamp_value lo hi r \<noteq> NaN"
  using fle_numbers [of lo hi] by (auto simp: clamp_value_def)

lemma ratios_fit: "NaN \<notin> set (ratios n) \<Longrightarrow> NaN \<notin> set (ratios (fit_ratios available minimum d n))"
  by (induction n arbitrary: available) (auto simp: Let_def clamp_number [THEN not_sym] clamp_number split: sum.splits)

lemma ratios_set_ratio: "set_ratio i r n = Some n' \<Longrightarrow> set (ratios n') \<subseteq> insert r (set (ratios n))"
  by (induction n arbitrary: n') (auto split: if_splits option.splits)

lemma same_layout_refl: "NaN \<notin> set (ratios n) \<Longrightarrow> same_layout n n"
  by (induction n) auto

lemma same_layout_leaves: "same_layout a b \<Longrightarrow> leaves a = leaves b \<and> split_ids a = split_ids b"
  by (induction a b rule: same_layout.induct) auto

lemma arrangement_leaves: "has_arrangement_of a b \<Longrightarrow> leaves a = leaves b"
  by (induction a b rule: has_arrangement_of.induct) auto

lemma has_arrangement_refl [simp]: "has_arrangement_of n n"
  by (induction n) auto

lemma bounds_leaves [simp]: "map fst (collect_pane_bounds b n) = leaves n"
  by (induction n arbitrary: b) (auto simp: Let_def split: split_axis.splits)

lemma least_by_in: "least_by lt xs = Some x \<Longrightarrow> x \<in> set xs"
  by (induction xs arbitrary: x) (auto split: option.splits if_splits)

lemma pane_in_direction_leaf: "pane_in_direction p direction n = Some q \<Longrightarrow> q \<in> set (leaves n)"
  unfolding pane_in_direction_def
  by (auto simp: Let_def List.map_filter_def bounds_leaves [of root_bounds n, symmetric] simp del: bounds_leaves
      split: option.splits dest!: least_by_in) force

section \<open>The invariant\<close>

definition layout_ok :: "u64 \<Rightarrow> u64 \<Rightarrow> pane_node \<Rightarrow> bool" where
  "layout_ok next_pane next_split n \<longleftrightarrow>
     distinct (leaves n) \<and> (\<forall>p\<in>set (leaves n). p < next_pane) \<and> distinct (split_ids n) \<and> (\<forall>i\<in>set (split_ids n). i < next_split) \<and>
     NaN \<notin> set (ratios n)"

definition tab_ok :: "'a pane_tab \<Rightarrow> bool" where
  "tab_ok t \<longleftrightarrow>
     layout_ok (pt_next_pane t) (pt_next_split t) (pt_root t) \<and>
     omap_ok (pt_panes t) \<and> fst ` set (pt_panes t) = set (leaves (pt_root t)) \<and>
     distinct (pt_focus_history t) \<and> set (pt_focus_history t) = set (leaves (pt_root t)) \<and>
     pt_focused t \<in> set (leaves (pt_root t)) \<and> pt_root_pane t \<in> set (leaves (pt_root t)) \<and>
     (pt_zoom t = Restored \<or> pt_zoom t = Zoomed (pt_focused t) \<and> 1 < pane_total t)"

definition parked_ok :: "'a pane_tab \<Rightarrow> 'a parked_pane \<Rightarrow> bool" where
  "parked_ok t x \<longleftrightarrow>
     pp_id x \<notin> set (leaves (pt_root t)) \<and> pp_id x < pt_next_pane t \<and>
     layout_ok (pt_next_pane t) (pt_next_split t) (pp_original x) \<and>
     set (leaves (pp_original x)) = insert (pp_id x) (set (leaves (pp_remaining x)))"

lemma pane_total_leaves:
  assumes "tab_ok t" shows "pane_total t = length (leaves (pt_root t))"
proof -
  have "length (map fst (pt_panes t)) = card (set (map fst (pt_panes t)))"
    using assms by (intro distinct_card [symmetric] omap_ok_distinct) (simp add: tab_ok_def)
  also have "\<dots> = length (leaves (pt_root t))" using assms by (simp add: tab_ok_def layout_ok_def distinct_card)
  finally show ?thesis by (simp add: pane_total_def)
qed

lemma layout_ok_mono: "layout_ok p s n \<Longrightarrow> p \<le> p' \<Longrightarrow> s \<le> s' \<Longrightarrow> layout_ok p' s' n"
  by (force simp: layout_ok_def)

lemma parked_ok_mono:
  "parked_ok t x \<Longrightarrow> pt_next_pane t \<le> pt_next_pane t' \<Longrightarrow> pt_next_split t \<le> pt_next_split t' \<Longrightarrow>
   pp_id x \<notin> set (leaves (pt_root t')) \<Longrightarrow> parked_ok t' x"
  by (auto simp: parked_ok_def intro: layout_ok_mono)

text \<open>A step that keeps the Panes of the layout keeps what is parked.\<close>

definition advances :: "'a pane_tab \<Rightarrow> 'a pane_tab \<Rightarrow> bool" where
  "advances t t' \<longleftrightarrow> pt_id t' = pt_id t \<and> pt_next_pane t \<le> pt_next_pane t' \<and> pt_next_split t \<le> pt_next_split t'"

lemma advances_refl [simp]: "advances t t"
  by (simp add: advances_def)

section \<open>Focus\<close>

lemma set_focused_pane_ok:
  assumes "tab_ok t" "p \<in> set (leaves (pt_root t))"
  shows "tab_ok (set_focused_pane p t)"
  using assms by (auto simp: tab_ok_def set_focused_pane_def apply_focused_pane_def pane_total_def split: zoom_state.split)

lemma apply_focused_pane_ok:
  "tab_ok t \<Longrightarrow> p \<in> set (leaves (pt_root t)) \<Longrightarrow> tab_ok (apply_focused_pane p t)"
  by (auto simp: tab_ok_def apply_focused_pane_def pane_total_def split: zoom_state.split)

lemma focus_keeps [simp]:
  "pt_root (set_focused_pane p t) = pt_root t" "pt_panes (set_focused_pane p t) = pt_panes t"
  "pt_root_pane (set_focused_pane p t) = pt_root_pane t" "pt_next_pane (set_focused_pane p t) = pt_next_pane t"
  "pt_next_split (set_focused_pane p t) = pt_next_split t" "pt_id (set_focused_pane p t) = pt_id t"
  "pt_minimum (set_focused_pane p t) = pt_minimum t"
  "pt_root (apply_focused_pane p t) = pt_root t" "pt_panes (apply_focused_pane p t) = pt_panes t"
  "pt_root_pane (apply_focused_pane p t) = pt_root_pane t" "pt_next_pane (apply_focused_pane p t) = pt_next_pane t"
  "pt_next_split (apply_focused_pane p t) = pt_next_split t" "pt_id (apply_focused_pane p t) = pt_id t"
  "pt_minimum (apply_focused_pane p t) = pt_minimum t"
  by (simp_all add: set_focused_pane_def apply_focused_pane_def)

lemma focus_pane_ok: "tab_ok t \<Longrightarrow> tab_ok (snd (focus_pane p t))"
  by (simp add: focus_pane_def set_focused_pane_ok)

lemma focus_pane_in_direction_ok: "tab_ok t \<Longrightarrow> tab_ok (snd (focus_pane_in_direction direction t))"
  by (auto simp: focus_pane_in_direction_def split: option.split dest: pane_in_direction_leaf intro: set_focused_pane_ok)

lemma focus_pane_in_history_ok:
  assumes "tab_ok t" shows "tab_ok (snd (focus_pane_in_history step t))"
proof (cases "length (pt_focus_history t) \<le> 1")
  case False
  let ?h = "pt_focus_history t"
  have history: "set ?h = set (leaves (pt_root t))" and "pt_focused t \<in> set ?h" using assms by (auto simp: tab_ok_def)
  then obtain c where c: "position (\<lambda>p. p = pt_focused t) ?h = Some c" by (cases "position (\<lambda>p. p = pt_focused t) ?h") auto
  define n where "n = (case step of PreviousPane \<Rightarrow> if 1 \<le> c then c - 1 else length ?h - 1 | NextPane \<Rightarrow> (c + 1) mod length ?h)"
  have "n < length ?h" using False position_SomeD(1) [OF c] by (auto simp: n_def split: history_step.split intro!: mod_less_divisor)
  then have "?h ! n \<in> set (leaves (pt_root t))" using history nth_mem by metis
  moreover have "snd (focus_pane_in_history step t) = apply_focused_pane (?h ! n) t"
    using False c by (simp add: focus_pane_in_history_def Let_def n_def)
  ultimately show ?thesis using assms by (simp add: apply_focused_pane_ok)
qed (use assms in \<open>simp add: focus_pane_in_history_def\<close>)

lemma toggle_zoom_ok: "tab_ok t \<Longrightarrow> tab_ok (snd (toggle_zoom t))"
  by (auto simp: tab_ok_def toggle_zoom_def Let_def pane_total_def split: zoom_state.split)

lemma restore_history_fold:
  "set (fold (\<lambda>p r. if known p \<and> p \<notin> set r then r @ [p] else r) history r) = set r \<union> {p \<in> set history. known p}"
  "distinct r \<Longrightarrow> distinct (fold (\<lambda>p r. if known p \<and> p \<notin> set r then r @ [p] else r) history r)"
  by (induction history arbitrary: r) auto

lemma restore_focus_ok:
  assumes "tab_ok t" shows "tab_ok (restore_focus history focused zoomed t)"
proof -
  let ?known = "\<lambda>p. p \<in> fst ` set (pt_panes t)"
  define r where "r = fold (\<lambda>p r. if ?known p \<and> p \<notin> set r then r @ [p] else r) history
    (filter (\<lambda>p. p \<notin> set history) (pt_focus_history t))"
  define f where "f = (case focused of Some p \<Rightarrow> if ?known p then Some p else None | None \<Rightarrow> None)"
  define p where "p = (case f of Some p \<Rightarrow> p | None \<Rightarrow> pt_root_pane t)"
  have keys: "fst ` set (pt_panes t) = set (leaves (pt_root t))" using assms by (simp add: tab_ok_def)
  have r: "set r = set (leaves (pt_root t))" "distinct r"
    using assms by (auto simp: r_def restore_history_fold tab_ok_def)
  have p: "p \<in> set (leaves (pt_root t))"
    using assms keys by (auto simp: p_def f_def tab_ok_def split: option.splits if_splits)
  have "restore_focus history focused zoomed t =
      t\<lparr>pt_focus_history := r, pt_focused := p, pt_zoom := (if zoomed \<and> f \<noteq> None \<and> 1 < pane_total t then Zoomed p else Restored)\<rparr>"
    using r(1) p unfolding restore_focus_def Let_def r_def [symmetric] f_def [symmetric] p_def [symmetric] by simp
  then show ?thesis using assms r p by (simp add: tab_ok_def pane_total_def)
qed

end
