(* ===== verification/Pane_Ops.thy ===== *)
theory Pane_Ops
  imports Pane_Laws
begin

text \<open>
  Every operation that changes the layout of a Tab keeps its invariant and what is parked out of it, and
  none of the cases the code calls unreachable is reached.
\<close>

section \<open>Splitting\<close>

lemma layout_ok_split:
  assumes "with_split target p next_split edge n = Some n'" "layout_ok next_pane next_split n"
    "p \<notin> set (leaves n)" "p < next_pane'" "next_pane \<le> next_pane'"
  shows "layout_ok next_pane' (Suc next_split) n'"
proof -
  note shape = with_split_shape [OF assms(1)]
  have "next_split \<notin> set (split_ids n)" using assms(2) by (auto simp: layout_ok_def)
  moreover have "NaN \<notin> set (ratios n')" using ratios_with_split [OF assms(1)] half_number assms(2) by (auto simp: layout_ok_def)
  ultimately show ?thesis using assms(2-) unfolding layout_ok_def shape by (auto simp: less_Suc_eq)
qed

lemma length_omap_insert: "omap_ok m \<Longrightarrow> k \<notin> fst ` set m \<Longrightarrow> length (omap_insert k v m) = Suc (length m)"
  by (metis mset_omap_insert size_add_mset size_mset)

lemma insert_pane_ok:
  assumes "tab_ok t"
  shows "tab_ok (snd (insert_pane source edge create t)) \<and> advances t (snd (insert_pane source edge create t)) \<and>
    set (leaves (pt_root (snd (insert_pane source edge create t)))) \<subseteq> set (leaves (pt_root t)) \<union> {pt_next_pane t}"
proof (cases "\<exists>root. checked_add (pt_next_pane t) 1 \<noteq> None \<and> checked_add (pt_next_split t) 1 \<noteq> None \<and>
    with_split source (pt_next_pane t) (pt_next_split t) edge (pt_root t) = Some root")
  case True
  then obtain root where root: "with_split source (pt_next_pane t) (pt_next_split t) edge (pt_root t) = Some root"
    and ids: "checked_add (pt_next_pane t) 1 = Some (Suc (pt_next_pane t))" "checked_add (pt_next_split t) 1 = Some (Suc (pt_next_split t))"
    by (auto simp: checked_add_def split: if_splits)
  define t' where "t' = t\<lparr>pt_root := root, pt_panes := omap_insert (pt_next_pane t) (create (pt_next_pane t)) (pt_panes t),
    pt_next_pane := Suc (pt_next_pane t), pt_next_split := Suc (pt_next_split t), pt_focus_history := pt_next_pane t # pt_focus_history t\<rparr>"
  have run: "snd (insert_pane source edge create t) = t'" using root ids by (simp add: insert_pane_def next_split_ids_def t'_def checked_add_def)
  have new: "pt_next_pane t \<notin> set (leaves (pt_root t))" using assms by (auto simp: tab_ok_def layout_ok_def)
  note shape = with_split_shape [OF root]
  have "layout_ok (Suc (pt_next_pane t)) (Suc (pt_next_split t)) root"
    using assms new by (intro layout_ok_split [OF root]) (auto simp: tab_ok_def)
  moreover have "pane_total t' = Suc (pane_total t)"
    using assms new by (simp add: t'_def pane_total_def tab_ok_def length_omap_insert)
  ultimately have "tab_ok t'"
    using assms new shape by (auto simp: tab_ok_def t'_def omap_ok_insert keys_omap_insert)
  then show ?thesis using shape(1) by (simp add: run) (simp add: t'_def advances_def)
next
  case False
  then have "snd (insert_pane source edge create t) = t"
    by (auto simp: insert_pane_def next_split_ids_def split: option.split)
  then show ?thesis using assms by auto
qed

section \<open>Moving and swapping\<close>

lemma moved_root_ok:
  assumes "layout_ok np (pt_next_split t) (pt_root t)" "p \<in> set (leaves (pt_root t))" "target \<in> set (leaves (pt_root t))" "p \<noteq> target"
  shows "\<exists>root. moved_root p target edge t = Some root \<and> set (leaves root) = set (leaves (pt_root t)) \<and>
    layout_ok np (Suc (pt_next_split t)) root"
proof -
  obtain r f where r: "without_pane p (pt_root t) = Some (r, f)"
    using assms(2) by (cases "without_pane p (pt_root t)") (auto simp: without_pane_None)
  then obtain n where n: "without_pane p (pt_root t) = Some (Some n, f)"
    using assms(2-) by (cases r) (auto simp: without_pane_last)
  have d: "distinct (leaves (pt_root t))" using assms(1) by (simp add: layout_ok_def)
  note shape = without_pane_shape [OF n d] and splits = without_pane_splits [OF n]
  have "target \<in> set (leaves n)" using shape(1) assms(3,4) by simp
  then obtain root where root: "with_split target p (pt_next_split t) edge n = Some root"
    by (cases "with_split target p (pt_next_split t) edge n") (auto simp: with_split_None)
  have "layout_ok np (pt_next_split t) n" using assms(1) shape splits ratios_without_pane [OF n] by (auto simp: layout_ok_def)
  then have "layout_ok np (Suc (pt_next_split t)) root"
    using assms(1,2) shape by (intro layout_ok_split [OF root]) (auto simp: layout_ok_def)
  moreover have "set (leaves root) = set (leaves (pt_root t))" using with_split_shape(1) [OF root] shape by auto
  ultimately show ?thesis using n root by (simp add: moved_root_def)
qed

lemma relayout_ok:
  assumes "tab_ok t" "set (leaves root) = set (leaves (pt_root t))" "layout_ok (pt_next_pane t) next_split root"
  shows "tab_ok (t\<lparr>pt_root := root, pt_next_split := next_split\<rparr>)"
  using assms by (simp add: tab_ok_def pane_total_def)

lemma restored_ok: "tab_ok t \<Longrightarrow> tab_ok (t\<lparr>pt_zoom := Restored\<rparr>)"
  by (simp add: tab_ok_def)

definition keeps_panes :: "'a pane_tab \<Rightarrow> 'a pane_tab \<Rightarrow> bool" where
  "keeps_panes t t' \<longleftrightarrow> advances t t' \<and> set (leaves (pt_root t')) = set (leaves (pt_root t))"

lemma keeps_panes_refl [simp]: "keeps_panes t t"
  by (simp add: keeps_panes_def)

lemma move_pane_ok:
  assumes "tab_ok t"
  shows "\<exists>r t'. move_pane_to p target edge available d t = Some (r, t') \<and> tab_ok t' \<and> keeps_panes t t'"
proof (cases "p \<in> set (leaves (pt_root t)) \<and> validate_split target (edge_axis edge) available d t = Inr () \<and> p \<noteq> target \<and>
    checked_add (pt_next_split t) 1 \<noteq> None")
  case True
  then have target: "target \<in> set (leaves (pt_root t))" and s: "checked_add (pt_next_split t) 1 = Some (Suc (pt_next_split t))"
    by (auto simp: validate_split_def checked_add_def split: if_splits)
  obtain root where root: "moved_root p target edge t = Some root" "set (leaves root) = set (leaves (pt_root t))"
    "layout_ok (pt_next_pane t) (Suc (pt_next_split t)) root"
    using moved_root_ok [of "pt_next_pane t" t p target edge] True target assms by (auto simp: tab_ok_def)
  let ?t = "t\<lparr>pt_root := root, pt_next_split := Suc (pt_next_split t), pt_zoom := Restored\<rparr>"
  have "tab_ok ?t" using restored_ok [OF relayout_ok [OF assms root(2,3)]] by simp
  then have "tab_ok (set_focused_pane p ?t)" using True root by (intro set_focused_pane_ok) simp_all
  moreover have "keeps_panes t (set_focused_pane p ?t)" using root by (simp add: keeps_panes_def advances_def)
  ultimately show ?thesis using True root s assms by (simp add: move_pane_to_def checked_add_def)
next
  case False
  then have "\<exists>r. move_pane_to p target edge available d t = Some (r, t)"
    by (auto simp: move_pane_to_def split: sum.split option.split)
  then show ?thesis using assms by auto
qed

lemma swap_panes_ok:
  assumes "tab_ok t"
  shows "tab_ok (snd (swap_panes p target t)) \<and> keeps_panes t (snd (swap_panes p target t))"
proof (cases "p \<in> set (leaves (pt_root t)) \<and> target \<in> set (leaves (pt_root t)) \<and> p \<noteq> target")
  case True
  let ?root = "exchange_panes p target (pt_root t)"
  let ?t = "t\<lparr>pt_root := ?root, pt_zoom := Restored\<rparr>"
  have leaves: "set (leaves ?root) = set (leaves (pt_root t))" using True by (simp add: set_leaves_exchange)
  have "layout_ok (pt_next_pane t) (pt_next_split t) ?root"
    using assms leaves by (simp add: tab_ok_def layout_ok_def distinct_leaves_exchange)
  then have "tab_ok ?t" using assms leaves by (simp add: tab_ok_def)
  then have "tab_ok (set_focused_pane p ?t)" using True leaves by (intro set_focused_pane_ok) simp_all
  then show ?thesis using True leaves by (simp add: swap_panes_def keeps_panes_def advances_def)
next
  case False
  then have "snd (swap_panes p target t) = t" by (auto simp: swap_panes_def)
  then show ?thesis using assms by simp
qed

section \<open>Ratios and arrangements\<close>

lemma fit_split_ratios_ok: "tab_ok t \<Longrightarrow> tab_ok (fit_split_ratios available d t) \<and> keeps_panes t (fit_split_ratios available d t)"
  by (auto simp: fit_split_ratios_def tab_ok_def layout_ok_def ratios_fit pane_total_def keeps_panes_def advances_def split: sum.split)

lemma resize_split_ok:
  assumes "tab_ok t" "resize_split i available d requested t = Some (r, t')"
  shows "tab_ok t' \<and> keeps_panes t t'"
proof (cases "t' = t")
  case False
  then obtain lo hi root where fit: "fle lo hi" "is_finite requested" "t' = t\<lparr>pt_root := root\<rparr>"
    and root: "set_ratio i (clamp_value lo hi requested) (pt_root t) = Some root"
    using assms(2) by (auto simp: resize_split_def fclamp_def split: sum.splits if_splits option.splits)
  have "clamp_value lo hi requested \<noteq> NaN" using fit by (intro clamp_number) (auto simp: is_finite_def)
  then show ?thesis using assms(1) fit set_ratio_keeps [OF root] ratios_set_ratio [OF root]
    by (auto simp add: tab_ok_def layout_ok_def pane_total_def keeps_panes_def advances_def)
qed (use assms in simp)

lemma build_arrangement_ok:
  "build_arrangement a seen n = Inr (root, seen', n') \<Longrightarrow> distinct seen \<Longrightarrow>
   n \<le> n' \<and> distinct seen' \<and> set seen' = set seen \<union> set (leaves root) \<and> set seen \<inter> set (leaves root) = {} \<and> distinct (leaves root) \<and>
   distinct (split_ids root) \<and> (\<forall>i\<in>set (split_ids root). n \<le> i \<and> i < n') \<and> NaN \<notin> set (ratios root)"
proof (induction a seen n arbitrary: root seen' n' rule: build_arrangement.induct)
  case (2 axis ratio first second seen n)
  obtain a m b where a: "build_arrangement first seen (Suc n) = Inr (a, m)" "build_arrangement second (fst m) (snd m) = Inr (b, seen', n')"
    and root: "root = Split n axis ratio a b" and c: "checked_add n 1 = Some (Suc n)"
    and g: "\<not> (\<not> is_finite ratio \<or> fle ratio f32_zero \<or> fle (f32_of_int 1) ratio)"
    using "2.prems"(1) by (auto simp: checked_add_def split: if_splits option.splits sum.splits)
  obtain seen1 n1 where m: "m = (seen1, n1)" by (cases m)
  have 1: "Suc n \<le> n1 \<and> distinct seen1 \<and> set seen1 = set seen \<union> set (leaves a) \<and> set seen \<inter> set (leaves a) = {} \<and> distinct (leaves a) \<and>
      distinct (split_ids a) \<and> (\<forall>i\<in>set (split_ids a). Suc n \<le> i \<and> i < n1) \<and> NaN \<notin> set (ratios a)"
    by (rule "2.IH"(1) [OF g c]) (use a m "2.prems" in simp_all)
  have 2: "n1 \<le> n' \<and> distinct seen' \<and> set seen' = set seen1 \<union> set (leaves b) \<and> set seen1 \<inter> set (leaves b) = {} \<and> distinct (leaves b) \<and>
      distinct (split_ids b) \<and> (\<forall>i\<in>set (split_ids b). n1 \<le> i \<and> i < n') \<and> NaN \<notin> set (ratios b)"
    by (rule "2.IH"(2) [OF g c a(1) refl m [symmetric]]) (use a m 1 in simp_all)
  have "ratio \<noteq> NaN" using g by (auto simp: is_finite_def)
  then show ?case using 1 2 by (fastforce simp: root)
qed (auto split: if_splits)

lemma restore_arrangement_ok:
  assumes "tab_ok t"
  shows "tab_ok (snd (restore_arrangement a t)) \<and> keeps_panes t (snd (restore_arrangement a t))"
proof (cases "snd (restore_arrangement a t) = t")
  case False
  then obtain root seen n where b: "build_arrangement a [] (pt_next_split t) = Inr (root, seen, n)"
    and cond: "length seen = length (pt_panes t)" "\<not> list_ex (\<lambda>x. fst x \<notin> set seen) (pt_panes t)"
    and t': "snd (restore_arrangement a t) = t\<lparr>pt_root := root, pt_next_split := n\<rparr>"
    by (auto simp: restore_arrangement_def split: sum.splits if_splits)
  note built = build_arrangement_ok [OF b, simplified]
  have "fst ` set (pt_panes t) \<subseteq> set seen" using cond by (auto simp: list_ex_iff)
  moreover have "card (fst ` set (pt_panes t)) = length (pt_panes t)"
    using assms distinct_card [OF omap_ok_distinct, of "pt_panes t"] by (simp add: tab_ok_def)
  moreover have "card (set seen) = length seen" using built distinct_card [of seen] by blast
  ultimately have "fst ` set (pt_panes t) = set seen" using cond by (intro card_subset_eq) simp_all
  then have leaves: "set (leaves root) = set (leaves (pt_root t))" using assms built by (simp add: tab_ok_def)
  moreover have "layout_ok (pt_next_pane t) n root" using assms leaves built by (auto simp: layout_ok_def tab_ok_def)
  ultimately show ?thesis using relayout_ok [OF assms leaves, of n] built by (simp add: t' keeps_panes_def advances_def)
qed (use assms in simp)

section \<open>Closing, parking and restoring\<close>

lemma close_pane_ok:
  assumes "tab_ok t"
  shows "\<exists>r t'. close_pane p t = Some (r, t') \<and> tab_ok t' \<and> advances t t' \<and>
    (t' = t \<and> (\<forall>x y z. r \<noteq> Inr (PaneClosed x y z)) \<or>
     (\<exists>f x. without_pane p (pt_root t) = Some (Some (pt_root t'), f) \<and> map_of (pt_panes t) p = Some x \<and>
        r = Inr (PaneClosed p (pt_focused t') x) \<and> pt_panes t' = omap_remove p (pt_panes t) \<and>
        pt_next_pane t' = pt_next_pane t \<and> pt_next_split t' = pt_next_split t \<and>
        pt_root_pane t' = (if pt_root_pane t = p then first_pane_id (pt_root t') else pt_root_pane t)))"
proof (cases "p \<in> set (leaves (pt_root t)) \<and> 1 < pane_total t")
  case True
  have keys: "fst ` set (pt_panes t) = set (leaves (pt_root t))" and lay: "layout_ok (pt_next_pane t) (pt_next_split t) (pt_root t)"
    using assms by (simp_all add: tab_ok_def)
  obtain r f where r: "without_pane p (pt_root t) = Some (r, f)"
    using True by (cases "without_pane p (pt_root t)") (auto simp: without_pane_None)
  then obtain root where root: "without_pane p (pt_root t) = Some (Some root, f)"
    using True pane_total_leaves [OF assms] by (cases r) (auto simp: without_pane_last)
  have d: "distinct (leaves (pt_root t))" using lay by (simp add: layout_ok_def)
  note shape = without_pane_shape [OF root d] and splits = without_pane_splits [OF root]
  obtain x where x: "map_of (pt_panes t) p = Some x"
    using True keys by (cases "map_of (pt_panes t) p") (auto simp: map_of_eq_None_iff)
  define rp where "rp = (if pt_root_pane t = p then first_pane_id root else pt_root_pane t)"
  define t1 where "t1 = t\<lparr>pt_panes := omap_remove p (pt_panes t), pt_root := root, pt_root_pane := rp,
    pt_focus_history := filter (\<lambda>q. q \<noteq> p) (pt_focus_history t)\<rparr>"
  define t2 where "t2 = (if pt_focused t = p then set_focused_pane f t1 else t1)"
  define t3 where "t3 = (if pane_total t2 = 1 \<or> pt_zoom t2 = Zoomed p then t2\<lparr>pt_zoom := Restored\<rparr> else t2)"
  have run: "close_pane p t = Some (Inr (PaneClosed p (pt_focused t3) x), t3)"
    using root True x unfolding close_pane_def t3_def t2_def t1_def rp_def Let_def by simp
  have lay': "layout_ok (pt_next_pane t) (pt_next_split t) root"
    using lay shape splits ratios_without_pane [OF root] by (auto simp: layout_ok_def)
  have old: "omap_ok (pt_panes t)" "distinct (pt_focus_history t)" "set (pt_focus_history t) = set (leaves (pt_root t))"
    "pt_focused t \<in> set (leaves (pt_root t))" "pt_root_pane t \<in> set (leaves (pt_root t))"
    "pt_zoom t = Restored \<or> pt_zoom t = Zoomed (pt_focused t)" using assms by (auto simp: tab_ok_def)
  have "length (omap_remove p (pt_panes t)) = length (pt_panes t) - 1" using old(1) True keys by (simp add: length_omap_remove)
  then have total: "1 \<le> pane_total t2" using True by (auto simp: t2_def t1_def pane_total_def)
  have fixed: "pt_root t2 = root" "pt_panes t2 = omap_remove p (pt_panes t)" "pt_root_pane t2 = rp"
    "pt_next_pane t2 = pt_next_pane t" "pt_next_split t2 = pt_next_split t" "pt_id t2 = pt_id t"
    by (simp_all add: t2_def t1_def)
  have rp: "rp \<in> set (leaves root)" using old(5) shape(1) first_pane_id_leaf [of root] by (auto simp: rp_def)
  have focus: "distinct (pt_focus_history t2)" "set (pt_focus_history t2) = set (leaves root)" "pt_focused t2 \<in> set (leaves root)"
    "pt_zoom t2 = Restored \<or> pt_zoom t2 = Zoomed (pt_focused t2)"
    using old shape(1,3) unfolding t2_def t1_def set_focused_pane_def apply_focused_pane_def
    by (auto split: zoom_state.split)
  have "tab_ok t3" using lay' old(1) keys shape(1) rp focus total fixed
    by (auto simp: tab_ok_def t3_def pane_total_def)
  then show ?thesis using root x shape
    by (simp add: run) (auto simp: t3_def fixed rp_def advances_def)
next
  case False
  then have "\<exists>r. close_pane p t = Some (r, t) \<and> (\<forall>x y z. r \<noteq> Inr (PaneClosed x y z))"
    by (cases "without_pane p (pt_root t)") (auto simp: close_pane_def without_pane_None [symmetric])
  then obtain r where "close_pane p t = Some (r, t)" "\<forall>x y z. r \<noteq> Inr (PaneClosed x y z)" by blast
  then show ?thesis using assms by (intro exI [of _ r] exI [of _ t]) simp
qed

lemma park_pane_ok:
  assumes "tab_ok t"
  shows "\<exists>r t'. park_pane p t = Some (r, t') \<and> tab_ok t' \<and> advances t t' \<and>
    (t' = t \<and> (\<forall>x. r \<noteq> Inr (Some x)) \<or>
     (\<exists>x. r = Inr (Some x) \<and> pp_id x = p \<and> map_of (pt_panes t) p = Some (pp_payload x) \<and> pp_original x = pt_root t \<and>
        pp_remaining x = pt_root t' \<and> (pp_was_root x \<longleftrightarrow> pt_root_pane t = p) \<and> parked_ok t' x \<and>
        set (leaves (pt_root t')) = set (leaves (pt_root t)) - {p} \<and> pt_panes t' = omap_remove p (pt_panes t) \<and>
        pt_next_split t' = pt_next_split t \<and>
        (pt_root_pane t \<noteq> p \<longrightarrow> pt_root_pane t' = pt_root_pane t)))"
proof -
  obtain r t' where close: "close_pane p t = Some (r, t')" and ok: "tab_ok t'" "advances t t'" and
    outcome: "t' = t \<and> (\<forall>x y z. r \<noteq> Inr (PaneClosed x y z)) \<or>
     (\<exists>f x. without_pane p (pt_root t) = Some (Some (pt_root t'), f) \<and> map_of (pt_panes t) p = Some x \<and>
        r = Inr (PaneClosed p (pt_focused t') x) \<and> pt_panes t' = omap_remove p (pt_panes t) \<and>
        pt_next_pane t' = pt_next_pane t \<and> pt_next_split t' = pt_next_split t \<and>
        pt_root_pane t' = (if pt_root_pane t = p then first_pane_id (pt_root t') else pt_root_pane t))"
    using close_pane_ok [OF assms, of p] by blast
  show ?thesis
  proof (cases "\<exists>x y z. r = Inr (PaneClosed x y z)")
    case True
    then obtain f x where w: "without_pane p (pt_root t) = Some (Some (pt_root t'), f)" and x: "map_of (pt_panes t) p = Some x"
      and r: "r = Inr (PaneClosed p (pt_focused t') x)" and panes: "pt_panes t' = omap_remove p (pt_panes t)"
      and ids: "pt_next_pane t' = pt_next_pane t" "pt_next_split t' = pt_next_split t"
      and rp: "pt_root_pane t' = (if pt_root_pane t = p then first_pane_id (pt_root t') else pt_root_pane t)"
      using outcome by blast
    have lay: "layout_ok (pt_next_pane t) (pt_next_split t) (pt_root t)" using assms by (simp add: tab_ok_def)
    then have "distinct (leaves (pt_root t))" by (simp add: layout_ok_def)
    note shape = without_pane_shape [OF w this]
    let ?x = "\<lparr>pp_id = p, pp_payload = x, pp_original = pt_root t, pp_remaining = pt_root t', pp_was_root = (pt_root_pane t = p)\<rparr>"
    have "p < pt_next_pane t" using lay shape(4) by (simp add: layout_ok_def)
    then have "parked_ok t' ?x" using shape(1,4) lay ids by (auto simp: parked_ok_def)
    then show ?thesis using close r ok x shape(1) panes ids rp
      by (simp add: park_pane_def Let_def)
  next
    case False
    then have "t' = t" using outcome by blast
    then show ?thesis using close False assms
      by (cases r; cases "projr r") (auto simp: park_pane_def Let_def)
  qed
qed

lemma restore_parked_pane_ok:
  assumes "tab_ok t" "parked_ok t x"
  shows "tab_ok (snd (restore_parked_pane x source edge t)) \<and> advances t (snd (restore_parked_pane x source edge t)) \<and>
    set (leaves (pt_root (snd (restore_parked_pane x source edge t)))) \<subseteq> insert (pp_id x) (set (leaves (pt_root t)))"
proof (cases "snd (restore_parked_pane x source edge t) = t")
  case False
  have "\<exists>root n. snd (restore_parked_pane x source edge t) =
      t\<lparr>pt_root := root, pt_next_split := n, pt_root_pane := (if pp_was_root x then pp_id x else pt_root_pane t),
        pt_panes := omap_insert (pp_id x) (pp_payload x) (pt_panes t), pt_focus_history := pp_id x # pt_focus_history t\<rparr> \<and>
      set (leaves root) = insert (pp_id x) (set (leaves (pt_root t))) \<and> pt_next_split t \<le> n \<and> layout_ok (pt_next_pane t) n root"
  proof (cases "same_layout (pt_root t) (pp_remaining x)")
    case True
    then have "set (leaves (pp_original x)) = insert (pp_id x) (set (leaves (pt_root t)))"
      using assms(2) same_layout_leaves by (fastforce simp: parked_ok_def)
    then show ?thesis using True assms(2)
      by (intro exI [of _ "pp_original x"] exI [of _ "pt_next_split t"]) (auto simp: restore_parked_pane_def parked_ok_def Let_def)
  next
    case other: False
    then obtain root where s: "Suc (pt_next_split t) \<le> u64_max"
      and root: "with_split source (pp_id x) (pt_next_split t) edge (pt_root t) = Some root"
      using False by (auto simp: restore_parked_pane_def Let_def split: option.splits)
    have "layout_ok (pt_next_pane t) (Suc (pt_next_split t)) root"
      using assms by (intro layout_ok_split [OF root]) (auto simp: tab_ok_def parked_ok_def)
    then show ?thesis using other s root with_split_shape(1) [OF root]
      by (intro exI [of _ root] exI [of _ "Suc (pt_next_split t)"]) (auto simp: restore_parked_pane_def Let_def checked_add_def)
  qed
  then obtain root n where t': "snd (restore_parked_pane x source edge t) =
      t\<lparr>pt_root := root, pt_next_split := n, pt_root_pane := (if pp_was_root x then pp_id x else pt_root_pane t),
        pt_panes := omap_insert (pp_id x) (pp_payload x) (pt_panes t), pt_focus_history := pp_id x # pt_focus_history t\<rparr>"
    and l: "set (leaves root) = insert (pp_id x) (set (leaves (pt_root t)))" and n: "pt_next_split t \<le> n"
    and lay: "layout_ok (pt_next_pane t) n root" by blast
  have "pp_id x \<notin> set (leaves (pt_root t))" using assms(2) by (simp add: parked_ok_def)
  then show ?thesis using assms(1) l n lay unfolding t'
    by (auto simp: tab_ok_def omap_ok_insert keys_omap_insert length_omap_insert pane_total_def advances_def)
qed (use assms in auto)

end
