(* ===== verification/Pane_Runs.thy ===== *)
theory Pane_Runs
  imports Pane_Ops
begin

text \<open>
  A Tab with the Panes parked out of it while the server decides on their close, the history of operations
  a window performs on it, and what holds of every history.
\<close>

section \<open>Histories\<close>

record 'a pane_window =
  pw_tab :: "'a pane_tab"
  pw_parked :: "(u64, 'a parked_pane) omap"

datatype 'a pane_op =
  OpFocus u64
| OpFocusDirection focus_direction
| OpFocusHistory history_step
| OpRestoreFocus "u64 list" "u64 option" bool
| OpToggleZoom
| OpSetMinimum pane_size
| OpInsert u64 pane_edge "u64 \<Rightarrow> 'a"
| OpMove u64 u64 pane_edge pane_size f32
| OpSwap u64 u64
| OpClose u64
| OpPark u64
| OpRestore u64 u64 pane_edge
| OpDiscard u64
| OpRestoreArrangement pane_arrangement
| OpFitRatios pane_size f32
| OpResize u64 pane_size f32 f32

text \<open>
  One operation. A parked Pane is taken out of the parked ones before it is restored, and only when the Tab
  does not have it. \<open>None\<close> is a panic.
\<close>

definition with_tab :: "'a pane_window \<Rightarrow> 'a pane_tab \<Rightarrow> 'a pane_window" where
  "with_tab w t = w\<lparr>pw_tab := t\<rparr>"

fun pane_step :: "'a pane_op \<Rightarrow> 'a pane_window \<Rightarrow> 'a pane_window option" where
  "pane_step (OpFocus p) w = Some (with_tab w (snd (focus_pane p (pw_tab w))))"
| "pane_step (OpFocusDirection direction) w = Some (with_tab w (snd (focus_pane_in_direction direction (pw_tab w))))"
| "pane_step (OpFocusHistory s) w = Some (with_tab w (snd (focus_pane_in_history s (pw_tab w))))"
| "pane_step (OpRestoreFocus history focused zoomed) w = Some (with_tab w (restore_focus history focused zoomed (pw_tab w)))"
| "pane_step OpToggleZoom w = Some (with_tab w (snd (toggle_zoom (pw_tab w))))"
| "pane_step (OpSetMinimum s) w = Some (with_tab w (set_minimum_pane_size s (pw_tab w)))"
| "pane_step (OpInsert source edge create) w = Some (with_tab w (snd (insert_pane source edge create (pw_tab w))))"
| "pane_step (OpMove p target edge available d) w =
     map_option (\<lambda>(_, t). with_tab w t) (move_pane_to p target edge available d (pw_tab w))"
| "pane_step (OpSwap p target) w = Some (with_tab w (snd (swap_panes p target (pw_tab w))))"
| "pane_step (OpClose p) w = map_option (\<lambda>(_, t). with_tab w t) (close_pane p (pw_tab w))"
| "pane_step (OpPark p) w =
     map_option
       (\<lambda>(r, t). case r of
          Inr (Some x) \<Rightarrow> w\<lparr>pw_tab := t, pw_parked := omap_insert p x (pw_parked w)\<rparr>
        | _ \<Rightarrow> with_tab w t)
       (park_pane p (pw_tab w))"
| "pane_step (OpRestore p source edge) w =
     Some (case map_of (pw_parked w) p of
        Some x \<Rightarrow>
          if map_of (pt_panes (pw_tab w)) p = None
          then w\<lparr>pw_parked := omap_remove p (pw_parked w), pw_tab := snd (restore_parked_pane x source edge (pw_tab w))\<rparr>
          else w
      | None \<Rightarrow> w)"
| "pane_step (OpDiscard p) w = Some (w\<lparr>pw_parked := omap_remove p (pw_parked w)\<rparr>)"
| "pane_step (OpRestoreArrangement a) w = Some (with_tab w (snd (restore_arrangement a (pw_tab w))))"
| "pane_step (OpFitRatios available d) w = Some (with_tab w (fit_split_ratios available d (pw_tab w)))"
| "pane_step (OpResize i available d requested) w =
     map_option (\<lambda>(_, t). with_tab w t) (resize_split i available d requested (pw_tab w))"

fun run_panes :: "'a pane_op list \<Rightarrow> 'a pane_window \<Rightarrow> 'a pane_window option" where
  "run_panes [] w = Some w"
| "run_panes (op # ops) w = (case pane_step op w of None \<Rightarrow> None | Some w' \<Rightarrow> run_panes ops w')"

definition new_pane_window :: "u64 \<Rightarrow> pane_size \<Rightarrow> (u64 \<Rightarrow> 'a) \<Rightarrow> 'a pane_window" where
  "new_pane_window i minimum create = \<lparr>pw_tab = new_pane_tab i minimum create, pw_parked = []\<rparr>"

section \<open>The invariant of a history\<close>

definition panes_ok :: "'a pane_window \<Rightarrow> bool" where
  "panes_ok w \<longleftrightarrow> tab_ok (pw_tab w) \<and> omap_ok (pw_parked w) \<and>
     (\<forall>(k, x)\<in>set (pw_parked w). pp_id x = k \<and> parked_ok (pw_tab w) x)"

text \<open>A resize asked of a Split whose lowest ratio exceeds its highest one.\<close>

fun inverted_resize :: "'a pane_op \<Rightarrow> 'a pane_window \<Rightarrow> bool" where
  "inverted_resize (OpResize i available d requested) w =
     (case split_ratio_range i available d (pw_tab w) of
        Inr (lo, hi) \<Rightarrow> is_finite requested \<and> \<not> fle lo hi
      | Inl _ \<Rightarrow> False)"
| "inverted_resize _ w = False"

lemma new_pane_window_ok: "panes_ok (new_pane_window i minimum create)"
  by (simp add: panes_ok_def new_pane_window_def new_pane_tab_def tab_ok_def layout_ok_def pane_total_def omap_ok_Cons)

lemma panes_okI:
  assumes "panes_ok w" "tab_ok t" "advances (pw_tab w) t"
    and "\<And>k. k \<in> fst ` set (pw_parked w) \<Longrightarrow> k < pt_next_pane (pw_tab w) \<Longrightarrow> k \<notin> set (leaves (pt_root (pw_tab w))) \<Longrightarrow> k \<notin> set (leaves (pt_root t))"
  shows "panes_ok (with_tab w t)"
proof -
  have "pp_id x = k \<and> parked_ok t x" if "(k, x) \<in> set (pw_parked w)" for k x
  proof -
    have x: "pp_id x = k" "parked_ok (pw_tab w) x" using assms(1) that by (auto simp: panes_ok_def)
    have "k \<in> fst ` set (pw_parked w)" using that by force
    then have "pp_id x \<notin> set (leaves (pt_root t))" using assms(4) x by (auto simp: parked_ok_def)
    then show ?thesis using x assms(3) parked_ok_mono [of "pw_tab w" x t] by (simp add: advances_def)
  qed
  then show ?thesis using assms by (auto simp: panes_ok_def with_tab_def)
qed

lemma panes_ok_keep: "panes_ok w \<Longrightarrow> tab_ok t \<Longrightarrow> keeps_panes (pw_tab w) t \<Longrightarrow> panes_ok (with_tab w t)"
  by (rule panes_okI) (auto simp: keeps_panes_def)

lemma focus_keeps_panes:
  "keeps_panes t (snd (focus_pane p t))" "keeps_panes t (snd (focus_pane_in_direction direction t))"
  "keeps_panes t (snd (focus_pane_in_history s t))" "keeps_panes t (restore_focus history focused zoomed t)"
  "keeps_panes t (snd (toggle_zoom t))" "keeps_panes t (set_minimum_pane_size z t)"
  by (auto simp: focus_pane_def focus_pane_in_direction_def focus_pane_in_history_def restore_focus_def toggle_zoom_def
      set_minimum_pane_size_def Let_def keeps_panes_def advances_def split: option.split)

lemma resize_split_panics:
  "resize_split i available d requested t = None \<longleftrightarrow>
   (\<exists>lo hi. split_ratio_range i available d t = Inr (lo, hi) \<and> is_finite requested \<and> \<not> fle lo hi)"
  by (auto simp: resize_split_def fclamp_def split_ratio_range_def split: sum.splits option.splits)

lemma discard_parked_ok:
  assumes "panes_ok w" shows "panes_ok (w\<lparr>pw_parked := omap_remove p (pw_parked w)\<rparr>)"
proof -
  have "set (omap_remove p (pw_parked w)) \<subseteq> set (pw_parked w)" by (auto simp: omap_remove_def)
  then show ?thesis using assms by (auto simp: panes_ok_def)
qed

lemma park_step_ok:
  assumes "panes_ok w" shows "\<exists>w'. pane_step (OpPark p) w = Some w' \<and> panes_ok w'"
proof -
  have ok: "tab_ok (pw_tab w)" using assms by (simp add: panes_ok_def)
  obtain r t where park: "park_pane p (pw_tab w) = Some (r, t)" "tab_ok t" "advances (pw_tab w) t" and
    cases: "t = pw_tab w \<and> (\<forall>x. r \<noteq> Inr (Some x)) \<or>
     (\<exists>x. r = Inr (Some x) \<and> pp_id x = p \<and> parked_ok t x \<and> set (leaves (pt_root t)) = set (leaves (pt_root (pw_tab w))) - {p})"
    using park_pane_ok [OF ok, of p] by blast
  from cases show ?thesis
  proof
    assume none: "t = pw_tab w \<and> (\<forall>x. r \<noteq> Inr (Some x))"
    then have "pane_step (OpPark p) w = Some w" using park(1) by (auto simp: with_tab_def split: sum.split option.split)
    then show ?thesis using assms by blast
  next
    assume "\<exists>x. r = Inr (Some x) \<and> pp_id x = p \<and> parked_ok t x \<and> set (leaves (pt_root t)) = set (leaves (pt_root (pw_tab w))) - {p}"
    then obtain x where x: "r = Inr (Some x)" "pp_id x = p" "parked_ok t x" "set (leaves (pt_root t)) = set (leaves (pt_root (pw_tab w))) - {p}"
      by blast
    have "panes_ok (with_tab w t)" by (rule panes_okI [OF assms park(2,3)]) (use x in simp)
    then have "panes_ok (w\<lparr>pw_tab := t, pw_parked := omap_insert p x (pw_parked w)\<rparr>)"
      using x by (auto simp: panes_ok_def with_tab_def omap_ok_insert set_omap_insert)
    then show ?thesis using park x by simp
  qed
qed

lemma restore_step_ok:
  assumes "panes_ok w" shows "\<exists>w'. pane_step (OpRestore p source edge) w = Some w' \<and> panes_ok w'"
proof (cases "\<exists>x. map_of (pw_parked w) p = Some x \<and> map_of (pt_panes (pw_tab w)) p = None")
  case True
  then obtain x where x: "map_of (pw_parked w) p = Some x" "map_of (pt_panes (pw_tab w)) p = None" by blast
  let ?w = "w\<lparr>pw_parked := omap_remove p (pw_parked w)\<rparr>" and ?t = "snd (restore_parked_pane x source edge (pw_tab w))"
  have px: "pp_id x = p" "parked_ok (pw_tab w) x" "tab_ok (pw_tab w)" using assms map_of_SomeD [OF x(1)] by (auto simp: panes_ok_def)
  note restored = restore_parked_pane_ok [OF px(3,2), of source edge]
  have "panes_ok ?w" using assms by (rule discard_parked_ok)
  then have "panes_ok (with_tab ?w ?t)"
  proof (rule panes_okI)
    show "k \<notin> set (leaves (pt_root ?t))" if "k \<in> fst ` set (pw_parked ?w)" "k \<notin> set (leaves (pt_root (pw_tab ?w)))" for k
      using that restored px(1) by auto
  qed (use restored in simp_all)
  then show ?thesis using x by (simp add: with_tab_def)
next
  case False
  then have "pane_step (OpRestore p source edge) w = Some w" by (auto split: option.split)
  then show ?thesis using assms by blast
qed

lemma panes_ok_tab: "panes_ok w \<Longrightarrow> tab_ok (pw_tab w)"
  by (simp add: panes_ok_def)

lemma set_minimum_pane_size_ok: "tab_ok t \<Longrightarrow> tab_ok (set_minimum_pane_size z t)"
  by (simp add: set_minimum_pane_size_def tab_ok_def pane_total_def)

lemmas kept_steps =
  focus_pane_ok focus_pane_in_direction_ok focus_pane_in_history_ok restore_focus_ok toggle_zoom_ok set_minimum_pane_size_ok
  swap_panes_ok [THEN conjunct1] restore_arrangement_ok [THEN conjunct1] fit_split_ratios_ok [THEN conjunct1]
  focus_keeps_panes swap_panes_ok [THEN conjunct2] restore_arrangement_ok [THEN conjunct2] fit_split_ratios_ok [THEN conjunct2]

lemma changed_step_ok:
  assumes "panes_ok w"
  shows "\<exists>w'. pane_step (OpInsert source edge create) w = Some w' \<and> panes_ok w'"
    and "\<exists>w'. pane_step (OpMove p target edge available d) w = Some w' \<and> panes_ok w'"
    and "\<exists>w'. pane_step (OpClose p) w = Some w' \<and> panes_ok w'"
proof -
  have ok: "tab_ok (pw_tab w)" using assms by (rule panes_ok_tab)
  have "panes_ok (with_tab w (snd (insert_pane source edge create (pw_tab w))))"
    using insert_pane_ok [OF ok, of source edge create] by (intro panes_okI [OF assms]) auto
  then show "\<exists>w'. pane_step (OpInsert source edge create) w = Some w' \<and> panes_ok w'" by simp
  obtain r t where "move_pane_to p target edge available d (pw_tab w) = Some (r, t)" "tab_ok t" "keeps_panes (pw_tab w) t"
    using move_pane_ok [OF ok] by blast
  then show "\<exists>w'. pane_step (OpMove p target edge available d) w = Some w' \<and> panes_ok w'" using panes_ok_keep [OF assms] by simp
  obtain r t where t: "close_pane p (pw_tab w) = Some (r, t)" "tab_ok t" "advances (pw_tab w) t"
    and c: "t = pw_tab w \<or> (\<exists>f. without_pane p (pt_root (pw_tab w)) = Some (Some (pt_root t), f))"
    using close_pane_ok [OF ok, of p] by blast
  have "set (leaves (pt_root t)) \<subseteq> set (leaves (pt_root (pw_tab w)))"
    using c without_pane_shape(1) [of p "pt_root (pw_tab w)" "pt_root t"] ok by (auto simp: tab_ok_def layout_ok_def)
  then have "panes_ok (with_tab w t)" using t by (intro panes_okI [OF assms]) auto
  then show "\<exists>w'. pane_step (OpClose p) w = Some w' \<and> panes_ok w'" using t by simp
qed

lemma pane_step_ok:
  assumes "panes_ok w" shows "(\<exists>w'. pane_step op w = Some w' \<and> panes_ok w') \<or> pane_step op w = None \<and> inverted_resize op w"
proof (cases op)
  case (OpResize i available d requested)
  show ?thesis
  proof (cases "resize_split i available d requested (pw_tab w)")
    case None
    then show ?thesis using OpResize by (auto simp: resize_split_panics)
  next
    case (Some a)
    then obtain r t where t: "resize_split i available d requested (pw_tab w) = Some (r, t)" by (cases a) simp
    then have "panes_ok (with_tab w t)"
      using resize_split_ok [OF panes_ok_tab [OF assms] t] by (intro panes_ok_keep [OF assms]) simp_all
    then show ?thesis using OpResize t by simp
  qed
qed (use assms panes_ok_tab [OF assms] in \<open>simp_all add: changed_step_ok park_step_ok restore_step_ok discard_parked_ok panes_ok_keep kept_steps
    del: pane_step.simps(7,8,10,11,12)\<close>)

lemma run_panes_ok:
  "panes_ok w \<Longrightarrow> (\<exists>w'. run_panes ops w = Some w' \<and> panes_ok w') \<or>
   (\<exists>before op after w'. ops = before @ op # after \<and> run_panes before w = Some w' \<and> panes_ok w' \<and> inverted_resize op w')"
proof (induction ops arbitrary: w)
  case (Cons op ops)
  from pane_step_ok [OF Cons.prems, of op] show ?case
  proof
    assume "\<exists>w'. pane_step op w = Some w' \<and> panes_ok w'"
    then obtain w' where w': "pane_step op w = Some w'" "panes_ok w'" by blast
    from Cons.IH [OF w'(2)] show ?case
    proof
      assume "\<exists>before op' after v. ops = before @ op' # after \<and> run_panes before w' = Some v \<and> panes_ok v \<and> inverted_resize op' v"
      then obtain before op' after v where
        "ops = before @ op' # after" "run_panes before w' = Some v" "panes_ok v" "inverted_resize op' v" by blast
      then have "op # ops = (op # before) @ op' # after \<and> run_panes (op # before) w = Some v \<and> panes_ok v \<and> inverted_resize op' v"
        using w' by simp
      then show ?case by blast
    qed (use w' in simp)
  next
    assume "pane_step op w = None \<and> inverted_resize op w"
    then have "op # ops = [] @ op # ops \<and> run_panes [] w = Some w \<and> panes_ok w \<and> inverted_resize op w" using Cons.prems by simp
    then show ?case by blast
  qed
qed simp

lemma run_panes_append: "run_panes (xs @ ys) w = (case run_panes xs w of None \<Rightarrow> None | Some w' \<Rightarrow> run_panes ys w')"
  by (induction xs arbitrary: w) (auto split: option.split)

lemma park_succeeds:
  assumes "tab_ok t" "1 < pane_total t" "p \<in> set (leaves (pt_root t))"
  shows "\<exists>x t'. park_pane p t = Some (Inr (Some x), t')"
proof -
  obtain r f where r: "without_pane p (pt_root t) = Some (r, f)"
    using assms(3) by (cases "without_pane p (pt_root t)") (auto simp: without_pane_None)
  then obtain root where root: "without_pane p (pt_root t) = Some (Some root, f)"
    using assms(2) pane_total_leaves [OF assms(1)] by (cases r) (auto simp: without_pane_last)
  have "p \<in> fst ` set (pt_panes t)" using assms(1,3) by (simp add: tab_ok_def)
  then obtain x where "map_of (pt_panes t) p = Some x" by (cases "map_of (pt_panes t) p") (auto simp: map_of_eq_None_iff)
  then show ?thesis using root assms(2) by (simp add: park_pane_def close_pane_def Let_def)
qed

section \<open>Properties\<close>

text \<open>
  C23. Every history of operations on the Panes of a new Tab, parked Panes included, either runs to its end
  with the invariant intact (each Pane once in the layout, in the map of Panes and in the focus history, the
  focused and root Panes among them, zoom only on the focused Pane, identities never reused), or reaches a
  resize of a Split whose lowest ratio exceeds its highest; no other operation can panic.
\<close>

theorem pane_history_safe:
  "(\<exists>w. run_panes ops (new_pane_window i minimum create) = Some w \<and> panes_ok w) \<or>
   (\<exists>before op after w. ops = before @ op # after \<and> run_panes before (new_pane_window i minimum create) = Some w \<and>
      panes_ok w \<and> inverted_resize op w)"
  by (rule run_panes_ok [OF new_pane_window_ok])

text \<open>Operations that change neither the layout nor the Panes.\<close>

fun is_focus_op :: "'a pane_op \<Rightarrow> bool" where
  "is_focus_op (OpFocus _) = True"
| "is_focus_op (OpFocusDirection _) = True"
| "is_focus_op (OpFocusHistory _) = True"
| "is_focus_op (OpRestoreFocus _ _ _) = True"
| "is_focus_op OpToggleZoom = True"
| "is_focus_op (OpSetMinimum _) = True"
| "is_focus_op _ = False"

definition same_panes :: "'a pane_tab \<Rightarrow> 'a pane_tab \<Rightarrow> bool" where
  "same_panes t t' \<longleftrightarrow> pt_root t' = pt_root t \<and> pt_panes t' = pt_panes t \<and> pt_root_pane t' = pt_root_pane t"

lemma focus_same_panes:
  "same_panes t (snd (focus_pane p t))" "same_panes t (snd (focus_pane_in_direction direction t))"
  "same_panes t (snd (focus_pane_in_history s t))" "same_panes t (restore_focus history focused zoomed t)"
  "same_panes t (snd (toggle_zoom t))" "same_panes t (set_minimum_pane_size z t)"
  by (auto simp: focus_pane_def focus_pane_in_direction_def focus_pane_in_history_def restore_focus_def toggle_zoom_def
      set_minimum_pane_size_def Let_def same_panes_def split: option.split)

lemma focus_run_same_panes:
  "list_all is_focus_op ops \<Longrightarrow> \<exists>w'. run_panes ops w = Some w' \<and> same_panes (pw_tab w) (pw_tab w') \<and> pw_parked w' = pw_parked w"
proof (induction ops arbitrary: w)
  case (Cons op ops)
  have "\<exists>w'. pane_step op w = Some w' \<and> same_panes (pw_tab w) (pw_tab w') \<and> pw_parked w' = pw_parked w"
    using Cons.prems by (cases op) (simp_all add: with_tab_def focus_same_panes)
  then obtain w' where w': "pane_step op w = Some w'" "same_panes (pw_tab w) (pw_tab w')" "pw_parked w' = pw_parked w" by blast
  obtain v where "run_panes ops w' = Some v \<and> same_panes (pw_tab w') (pw_tab v) \<and> pw_parked v = pw_parked w'"
    using Cons.IH [of w'] Cons.prems by auto
  then show ?case using w' by (auto simp: same_panes_def)
qed (simp add: same_panes_def)

lemma omap_insert_least: "\<forall>x\<in>set m. k < fst x \<Longrightarrow> omap_insert k v m = (k, v) # m"
  by (cases m) auto

lemma omap_insert_remove: "omap_ok m \<Longrightarrow> map_of m k = Some v \<Longrightarrow> omap_insert k v (omap_remove k m) = m"
proof (induction m)
  case (Cons x m)
  obtain j w where x: "x = (j, w)" by (cases x)
  have rest: "omap_ok m" "\<forall>y\<in>set m. j < fst y" using Cons.prems(1) by (simp_all add: x omap_ok_Cons)
  show ?case
  proof (cases "j = k")
    case True
    then have "omap_remove k (x # m) = m" using rest(2) by (auto simp: omap_remove_def x filter_id_conv)
    then show ?thesis using True Cons.prems(2) rest(2) by (simp add: x omap_insert_least)
  next
    case False
    then have m: "map_of m k = Some v" using Cons.prems(2) by (simp add: x)
    then have "j < k" using rest(2) by (fastforce dest: map_of_SomeD)
    then show ?thesis using Cons.IH [OF rest(1) m] False by (simp add: x omap_remove_def)
  qed
qed simp

text \<open>
  C24. A Pane whose approved close the server refuses comes back to its place: whatever a person does to focus
  and zoom while the Pane is parked, restoring it gives the Tab the same layout with the same split
  identities and ratios, the same Panes and the same root Pane as before the close.
\<close>

theorem refused_pane_close_restores_layout:
  assumes "panes_ok w" "1 < pane_total (pw_tab w)" "p \<in> set (leaves (pt_root (pw_tab w)))" "list_all is_focus_op ops"
  shows "\<exists>w'. run_panes (OpPark p # ops @ [OpRestore p source edge]) w = Some w' \<and> same_panes (pw_tab w) (pw_tab w') \<and>
    map_of (pw_parked w') p = None"
proof -
  have ok: "tab_ok (pw_tab w)" using assms(1) by (rule panes_ok_tab)
  obtain r t where park: "park_pane p (pw_tab w) = Some (r, t)" and t: "tab_ok t" and
    "t = pw_tab w \<and> (\<forall>x. r \<noteq> Inr (Some x)) \<or>
     (\<exists>x. r = Inr (Some x) \<and> pp_id x = p \<and> map_of (pt_panes (pw_tab w)) p = Some (pp_payload x) \<and> pp_original x = pt_root (pw_tab w) \<and>
        pp_remaining x = pt_root t \<and> (pp_was_root x \<longleftrightarrow> pt_root_pane (pw_tab w) = p) \<and> pt_panes t = omap_remove p (pt_panes (pw_tab w)) \<and>
        (pt_root_pane (pw_tab w) \<noteq> p \<longrightarrow> pt_root_pane t = pt_root_pane (pw_tab w)))"
    using park_pane_ok [OF ok, of p] by blast
  moreover have "\<exists>x. r = Inr (Some x)"
    using park park_succeeds [OF ok assms(2,3)] by auto
  ultimately obtain x where x: "r = Inr (Some x)" "pp_id x = p" "map_of (pt_panes (pw_tab w)) p = Some (pp_payload x)"
    "pp_original x = pt_root (pw_tab w)" "pp_remaining x = pt_root t" "pp_was_root x \<longleftrightarrow> pt_root_pane (pw_tab w) = p"
    "pt_panes t = omap_remove p (pt_panes (pw_tab w))" "pt_root_pane (pw_tab w) \<noteq> p \<longrightarrow> pt_root_pane t = pt_root_pane (pw_tab w)"
    by blast
  let ?w1 = "w\<lparr>pw_tab := t, pw_parked := omap_insert p x (pw_parked w)\<rparr>"
  obtain w2 where w2: "run_panes ops ?w1 = Some w2" "same_panes t (pw_tab w2)" "pw_parked w2 = omap_insert p x (pw_parked w)"
    using focus_run_same_panes [OF assms(4), of ?w1] by auto
  have "same_layout (pt_root t) (pp_remaining x)" using t x(5) by (simp add: same_layout_refl tab_ok_def layout_ok_def)
  then have "same_panes (pw_tab w) (snd (restore_parked_pane x source edge (pw_tab w2)))"
    using w2(2) x ok by (auto simp: same_panes_def restore_parked_pane_def Let_def omap_insert_remove tab_ok_def)
  moreover have "map_of (pw_parked w2) p = Some x" "map_of (pt_panes (pw_tab w2)) p = None"
    using assms(1) w2 x(7) by (simp_all add: panes_ok_def map_of_omap_insert same_panes_def map_of_omap_remove)
  ultimately show ?thesis using park x(1) w2(1)
    by (simp add: run_panes_append map_of_omap_remove)
qed

text \<open>A Tab of three Panes, the second of them focused and zoomed.\<close>

definition demo_panes :: "u64 pane_window" where
  "demo_panes =
     \<lparr>pw_tab = \<lparr>pt_id = 1, pt_root = Split 1 SplitHorizontal half (Leaf 1) (Split 2 SplitVertical half (Leaf 2) (Leaf 3)),
        pt_panes = [(1, 10), (2, 20), (3, 30)], pt_focused = 2, pt_focus_history = [3, 1, 2], pt_root_pane = 1, pt_zoom = Zoomed 2,
        pt_minimum = \<lparr>ps_width = f32_of_int 100, ps_height = f32_of_int 100\<rparr>, pt_next_pane = 4, pt_next_split = 3\<rparr>,
      pw_parked = []\<rparr>"

lemma demo_panes_ok: "panes_ok demo_panes"
  using half_number
  by (auto simp: demo_panes_def panes_ok_def tab_ok_def layout_ok_def omap_ok_Cons pane_total_def)

theorem refused_pane_close_restores_layout_witness:
  "panes_ok demo_panes \<and> 1 < pane_total (pw_tab demo_panes) \<and> 2 \<in> set (leaves (pt_root (pw_tab demo_panes))) \<and>
   list_all is_focus_op [OpToggleZoom, OpFocus 3 :: u64 pane_op] \<and>
   (\<exists>w'. run_panes (OpPark 2 # [OpToggleZoom, OpFocus 3] @ [OpRestore 2 1 EdgeRight]) demo_panes = Some w' \<and>
      same_panes (pw_tab demo_panes) (pw_tab w') \<and> map_of (pw_parked w') 2 = None)"
proof -
  have h: "1 < pane_total (pw_tab demo_panes)" "2 \<in> set (leaves (pt_root (pw_tab demo_panes)))"
    "list_all is_focus_op [OpToggleZoom, OpFocus 3 :: u64 pane_op]"
    by (simp_all add: demo_panes_def pane_total_def)
  show ?thesis using refused_pane_close_restores_layout [OF demo_panes_ok h, of 1 EdgeRight] demo_panes_ok h by blast
qed

text \<open>
  C25. Releasing a dragged Pane does what the drop showed. An edge shown as an edge moves the Pane and changes
  the arrangement; an edge shown as a swap has the arrangement of the swap; and where nothing is shown the
  move would be refused or change nothing. Neither asks for a layout the code calls unreachable.
\<close>

theorem drop_does_what_it_shows:
  assumes "tab_ok t" "p \<in> set (leaves (pt_root t))" "target \<in> set (leaves (pt_root t))" "p \<noteq> target" "pt_next_split t < u64_max"
  shows "case resolve_drop p target (DropEdge edge) available d t of
      None \<Rightarrow> False
    | Some None \<Rightarrow> (\<exists>r. move_pane_to p target edge available d t = Some (r, t) \<and> r \<noteq> Inr True)
    | Some (Some (DropEdge e)) \<Rightarrow> e = edge \<and> (\<exists>t'. move_pane_to p target edge available d t = Some (Inr True, t') \<and>
        pt_focused t' = p \<and> \<not> has_arrangement_of (pt_root t') (pt_root t))
    | Some (Some DropSwap) \<Rightarrow> (\<exists>moved t'. moved_root p target edge t = Some moved \<and> swap_panes p target t = (Inr True, t') \<and>
        pt_focused t' = p \<and> has_arrangement_of moved (pt_root t'))"
proof -
  obtain moved where moved: "moved_root p target edge t = Some moved"
    using moved_root_ok [of "pt_next_pane t" t p target edge] assms by (auto simp: tab_ok_def)
  have room: "can_receive target edge (pt_minimum t) available d t \<longleftrightarrow> validate_split target (edge_axis edge) available d t = Inr ()"
    using assms(3) by (auto simp: can_receive_def validate_split_def split: sum.splits)
  have s: "checked_add (pt_next_split t) 1 = Some (Suc (pt_next_split t))" using assms(5) by (simp add: checked_add_def)
  let ?t = "t\<lparr>pt_root := moved, pt_next_split := Suc (pt_next_split t), pt_zoom := Restored\<rparr>"
  have move: "move_pane_to p target edge available d t =
      (case validate_split target (edge_axis edge) available d t of
         Inl e \<Rightarrow> Some (Inl e, t)
       | Inr _ \<Rightarrow> Some (if has_arrangement_of moved (pt_root t) then (Inr False, t) else (Inr True, set_focused_pane p ?t)))"
    unfolding move_pane_to_def s using assms moved by (simp split: sum.split)
  have focus: "pt_focused (set_focused_pane p u) = p" for u :: "'a pane_tab"
    by (simp add: set_focused_pane_def apply_focused_pane_def)
  show ?thesis using assms moved room
    by (auto simp: resolve_drop_def move swap_panes_def focus split: sum.splits)
qed

theorem drop_does_what_it_shows_witness:
  "let t = pw_tab demo_panes; room = \<lparr>ps_width = f32_of_int 600, ps_height = f32_of_int 400\<rparr>
   in tab_ok t \<and> 3 \<in> set (leaves (pt_root t)) \<and> 1 \<in> set (leaves (pt_root t)) \<and> (3 :: u64) \<noteq> 1 \<and> pt_next_split t < u64_max \<and>
      resolve_drop 3 1 (DropEdge EdgeLeft) room f32_zero t = Some (Some (DropEdge EdgeLeft)) \<and>
      (\<exists>t'. move_pane_to 3 1 EdgeLeft room f32_zero t = Some (Inr True, t') \<and> pt_focused t' = 3 \<and>
         \<not> has_arrangement_of (pt_root t') (pt_root t))"
proof -
  let ?t = "pw_tab demo_panes" and ?room = "\<lparr>ps_width = f32_of_int 600, ps_height = f32_of_int 400\<rparr>"
  have h: "tab_ok ?t" "3 \<in> set (leaves (pt_root ?t))" "1 \<in> set (leaves (pt_root ?t))" "(3 :: u64) \<noteq> 1" "pt_next_split ?t < u64_max"
    using panes_ok_tab [OF demo_panes_ok] by (simp_all add: demo_panes_def u64_max_def)
  have shown: "resolve_drop 3 1 (DropEdge EdgeLeft) ?room f32_zero ?t = Some (Some (DropEdge EdgeLeft))"
    by code_simp
  show ?thesis using drop_does_what_it_shows [OF h, of EdgeLeft ?room f32_zero] h shown by (simp add: Let_def)
qed

end
