(* ===== verification/Pane_Views.thy ===== *)
theory Pane_Views
  imports Pane_Runs
begin

text \<open>
  What a person sees of a Tab: ratios fitted to the room there is, focus that steps through the history, and
  arrangements restored from a stored one.
\<close>

section \<open>Fitting ratios\<close>

text \<open>Every Split whose range is in order has its ratio in it, at the size the ratios above leave it.\<close>

fun ratios_fit_in :: "pane_size \<Rightarrow> pane_size \<Rightarrow> f32 \<Rightarrow> pane_node \<Rightarrow> bool" where
  "ratios_fit_in available minimum d (Leaf p) \<longleftrightarrow> True"
| "ratios_fit_in available minimum d (Split i axis ratio first second) \<longleftrightarrow>
     (case (minimum_size minimum d first, minimum_size minimum d second) of
        (Inr first_minimum, Inr second_minimum) \<Rightarrow>
          (let content = fsub (extent axis available) d;
               lowest = fdiv (extent axis first_minimum) content;
               highest = fsub (f32_of_int 1) (fdiv (extent axis second_minimum) content);
               child = (\<lambda>share. case axis of
                 SplitHorizontal \<Rightarrow> new_pane_size (fmul content share) (ps_height available)
               | SplitVertical \<Rightarrow> new_pane_size (ps_width available) (fmul content share))
           in fle content f32_zero \<or>
              (fle lowest highest \<longrightarrow> \<not> flt ratio lowest \<and> \<not> flt highest ratio) \<and>
              (case (child ratio, child (fsub (f32_of_int 1) ratio)) of
                 (Inr first_size, Inr second_size) \<Rightarrow> ratios_fit_in first_size minimum d first \<and> ratios_fit_in second_size minimum d second
               | _ \<Rightarrow> True))
      | _ \<Rightarrow> True)"

lemma flt_irrefl [simp]: "\<not> flt x x"
  by (simp add: flt_def)

lemma clamp_range: "fle lo hi \<Longrightarrow> \<not> flt (clamp_value lo hi r) lo \<and> \<not> flt hi (clamp_value lo hi r)"
  by (auto simp: clamp_value_def flt_def)

lemma clamp_inside: "\<not> flt r lo \<Longrightarrow> \<not> flt hi r \<Longrightarrow> clamp_value lo hi r = r"
  by (simp add: clamp_value_def)

lemma minimum_size_fit [simp]: "minimum_size m d (fit_ratios available minimum d' n) = minimum_size m d n"
  by (induction n arbitrary: available) (auto simp: Let_def split: sum.splits)

lemma fit_ratios_fits: "ratios_fit_in available minimum d (fit_ratios available minimum d n)"
proof (induction n arbitrary: available)
  case (Split i axis ratio first second)
  show ?case
    by (auto simp: Let_def clamp_range Split.IH split: sum.split)
qed simp

lemma clamp_unless_fit:
  "(fle lo hi \<longrightarrow> \<not> flt r lo \<and> \<not> flt hi r) \<Longrightarrow> (if fle lo hi then clamp_value lo hi r else r) = r"
  by (simp add: clamp_inside)

lemma fit_ratios_unchanged: "ratios_fit_in available minimum d n \<Longrightarrow> fit_ratios available minimum d n = n"
proof (induction n arbitrary: available)
  case (Split i axis ratio first second)
  show ?case
  proof (cases "\<exists>a b. minimum_size minimum d first = Inr a \<and> minimum_size minimum d second = Inr b \<and> \<not> fle (fsub (extent axis available) d) f32_zero")
    case True
    then obtain a b where ab: "minimum_size minimum d first = Inr a" "minimum_size minimum d second = Inr b"
      "\<not> fle (fsub (extent axis available) d) f32_zero" by blast
    note fit = Split.prems [unfolded ratios_fit_in.simps Let_def ab prod.case sum.case]
    from fit ab(3) have same: "(if fle (fdiv (extent axis a) (fsub (extent axis available) d)) (fsub (f32_of_int 1) (fdiv (extent axis b) (fsub (extent axis available) d)))
        then clamp_value (fdiv (extent axis a) (fsub (extent axis available) d)) (fsub (f32_of_int 1) (fdiv (extent axis b) (fsub (extent axis available) d))) ratio
        else ratio) = ratio" by (intro clamp_unless_fit) simp
    show ?thesis using fit ab(3) Split.IH
      unfolding fit_ratios.simps Let_def ab prod.case sum.case same by (auto split: sum.splits)
  next
    case False
    then show ?thesis by (auto simp: Let_def split: sum.split)
  qed
qed simp

lemma fit_ratios_arrangement: "has_arrangement_of (fit_ratios available minimum d n) n"
  by (induction n arbitrary: available) (auto simp: Let_def split: sum.splits)

text \<open>
  C26. Fitting ratios does exactly what is needed. Afterwards every Split that can give both sides their minimum
  has a ratio that does, down the whole tree; a layout is left alone precisely when that held already, so
  fitting again changes nothing; and no Pane moves.
\<close>

theorem fitted_ratios_fit:
  "ratios_fit_in available minimum d (fit_ratios available minimum d n) \<and>
   (fit_ratios available minimum d n = n \<longleftrightarrow> ratios_fit_in available minimum d n) \<and>
   has_arrangement_of (fit_ratios available minimum d n) n"
  using fit_ratios_fits [of available minimum d n] fit_ratios_unchanged [of available minimum d n] fit_ratios_arrangement
  by metis

section \<open>Stepping through the focus history\<close>

definition focus_next :: "'a pane_tab \<Rightarrow> 'a pane_tab" where
  "focus_next t = snd (focus_pane_in_history NextPane t)"

definition focus_previous :: "'a pane_tab \<Rightarrow> 'a pane_tab" where
  "focus_previous t = snd (focus_pane_in_history PreviousPane t)"

lemma position_nth: "distinct xs \<Longrightarrow> c < length xs \<Longrightarrow> position (\<lambda>p. p = xs ! c) xs = Some c"
  by (auto simp: position_Some_iff nth_eq_iff_index_eq)

lemma focus_next_at:
  assumes "distinct (pt_focus_history t)" "pt_focused t = pt_focus_history t ! c" "c < length (pt_focus_history t)"
  shows "focus_next t = apply_focused_pane (pt_focus_history t ! (Suc c mod length (pt_focus_history t))) t \<or>
      length (pt_focus_history t) = 1 \<and> focus_next t = t"
    and "1 < length (pt_focus_history t) \<Longrightarrow>
      focus_next t = apply_focused_pane (pt_focus_history t ! (Suc c mod length (pt_focus_history t))) t"
    and "1 < length (pt_focus_history t) \<Longrightarrow>
      focus_previous t = apply_focused_pane (pt_focus_history t ! (if 1 \<le> c then c - 1 else length (pt_focus_history t) - 1)) t"
  using assms position_nth [OF assms(1,3)]
  by (auto simp: focus_next_def focus_previous_def focus_pane_in_history_def Let_def)

lemma apply_focused_history [simp]:
  "pt_focus_history (apply_focused_pane p t) = pt_focus_history t" "pt_focused (apply_focused_pane p t) = p"
  by (simp_all add: apply_focused_pane_def)

lemma focus_next_iterate:
  assumes "distinct (pt_focus_history t)" "pt_focused t = pt_focus_history t ! c" "c < length (pt_focus_history t)"
    "1 < length (pt_focus_history t)"
  shows "pt_focus_history ((focus_next ^^ k) t) = pt_focus_history t \<and>
    pt_focused ((focus_next ^^ k) t) = pt_focus_history t ! ((c + k) mod length (pt_focus_history t))"
proof (induction k)
  case (Suc k)
  let ?u = "(focus_next ^^ k) t" and ?n = "length (pt_focus_history t)"
  have "focus_next ?u = apply_focused_pane (pt_focus_history ?u ! (Suc ((c + k) mod ?n) mod length (pt_focus_history ?u))) ?u"
    by (rule focus_next_at(2)) (use Suc assms in \<open>auto intro!: mod_less_divisor\<close>)
  then show ?case using Suc by (simp add: mod_Suc_eq)
qed (use assms in simp)

lemma refocus: "tab_ok t \<Longrightarrow> apply_focused_pane (pt_focused t) (apply_focused_pane p t) = t"
  by (cases t) (auto simp: tab_ok_def apply_focused_pane_def)

lemma previous_next:
  assumes "tab_ok t" shows "focus_previous (focus_next t) = t"
proof -
  let ?h = "pt_focus_history t"
  have d: "distinct ?h" and "pt_focused t \<in> set ?h" using assms by (auto simp: tab_ok_def)
  then obtain c where c: "c < length ?h" "pt_focused t = ?h ! c" by (metis in_set_conv_nth)
  show ?thesis
  proof (cases "1 < length ?h")
    case True
    let ?j = "Suc c mod length ?h"
    have step: "focus_next t = apply_focused_pane (?h ! ?j) t" by (rule focus_next_at(2) [OF d c(2,1) True])
    have j: "?j < length ?h" "(if 1 \<le> ?j then ?j - 1 else length ?h - 1) = c"
      using c(1) True by (auto simp: mod_Suc)
    have "focus_previous (focus_next t) = apply_focused_pane (?h ! c) (focus_next t)"
    proof -
      have "focus_previous (focus_next t) =
          apply_focused_pane (pt_focus_history (focus_next t) ! (if 1 \<le> ?j then ?j - 1 else length (pt_focus_history (focus_next t)) - 1)) (focus_next t)"
        by (rule focus_next_at(3)) (use d j True in \<open>simp_all add: step\<close>)
      moreover have "pt_focus_history (focus_next t) = ?h" by (simp add: step)
      ultimately show ?thesis using j(2) by metis
    qed
    also have "\<dots> = t"
      using refocus [OF assms, of "?h ! ?j"] by (simp only: step c(2))
    finally show ?thesis .
  next
    case False
    then show ?thesis by (simp add: focus_next_def focus_previous_def focus_pane_in_history_def Let_def)
  qed
qed

text \<open>
  C27. Next Pane reaches every Pane of the Tab within one round of the focus history, and Previous Pane undoes it
  exactly, zoom included.
\<close>

theorem next_pane_reaches_every_pane:
  assumes "tab_ok t" "p \<in> set (leaves (pt_root t))"
  shows "(\<exists>k<pane_total t. pt_focused ((focus_next ^^ k) t) = p) \<and> focus_previous (focus_next t) = t"
proof -
  let ?h = "pt_focus_history t" and ?n = "length (pt_focus_history t)"
  have d: "distinct ?h" and s: "set ?h = set (leaves (pt_root t))" and f: "pt_focused t \<in> set ?h" using assms(1) by (auto simp: tab_ok_def)
  have n: "pane_total t = ?n"
    using pane_total_leaves [OF assms(1)] assms(1) d s by (metis distinct_card tab_ok_def layout_ok_def)
  obtain c where c: "c < ?n" "pt_focused t = ?h ! c" using f by (metis in_set_conv_nth)
  obtain j where j: "j < ?n" "?h ! j = p" using assms(2) s by (metis in_set_conv_nth)
  have "\<exists>k<?n. pt_focused ((focus_next ^^ k) t) = p"
  proof (cases "1 < ?n")
    case True
    have "(c + (j + ?n - c) mod ?n) mod ?n = j" using c(1) j(1) by (simp add: mod_add_right_eq)
    then show ?thesis using focus_next_iterate [OF d c(2,1) True, of "(j + ?n - c) mod ?n"] j
      by (intro exI [of _ "(j + ?n - c) mod ?n"]) (auto intro!: mod_less_divisor)
  next
    case False
    then have "j = 0" "c = 0" using c j by simp_all
    then show ?thesis using c j by (intro exI [of _ 0]) simp
  qed
  then show ?thesis using previous_next [OF assms(1)] n by simp
qed

theorem next_pane_reaches_every_pane_witness:
  "tab_ok (pw_tab demo_panes) \<and> 3 \<in> set (leaves (pt_root (pw_tab demo_panes))) \<and>
   (\<exists>k<pane_total (pw_tab demo_panes). pt_focused ((focus_next ^^ k) (pw_tab demo_panes)) = 3) \<and>
   focus_previous (focus_next (pw_tab demo_panes)) = pw_tab demo_panes"
proof -
  have h: "tab_ok (pw_tab demo_panes)" "3 \<in> set (leaves (pt_root (pw_tab demo_panes)))"
    using panes_ok_tab [OF demo_panes_ok] by (simp_all add: demo_panes_def)
  show ?thesis using next_pane_reaches_every_pane [OF h] h by simp
qed

section \<open>Resizing\<close>

text \<open>
  A Tab of three Panes side by side, each at least 100 wide, in a window exactly 300 wide with a divider of no
  width. The window is wide enough, so the code goes on to clamp, but the lowest ratio 100/300 rounds up and
  the highest ratio 1 - 200/300 rounds down.
\<close>

definition tight_tab :: "u64 pane_tab" where
  "tight_tab =
     \<lparr>pt_id = 1, pt_root = Split 1 SplitHorizontal half (Leaf 1) (Split 2 SplitHorizontal half (Leaf 2) (Leaf 3)),
      pt_panes = [(1, 10), (2, 20), (3, 30)], pt_focused = 1, pt_focus_history = [2, 3, 1], pt_root_pane = 1, pt_zoom = Restored,
      pt_minimum = \<lparr>ps_width = f32_of_int 100, ps_height = f32_of_int 100\<rparr>, pt_next_pane = 4, pt_next_split = 3\<rparr>"

lemma tight_tab_ok: "tab_ok tight_tab"
  using half_number by (auto simp: tight_tab_def tab_ok_def layout_ok_def omap_ok_Cons pane_total_def)

text \<open>
  C29. A resize panics exactly when the code's own range for the Split is out of order, and a sound Tab in a room
  of exactly its minimum size has such a range.
\<close>

theorem resize_panics_on_inverted_range:
  "(resize_split i available d requested t = None \<longleftrightarrow>
      (\<exists>lo hi. split_ratio_range i available d t = Inr (lo, hi) \<and> is_finite requested \<and> \<not> fle lo hi)) \<and>
   tab_ok tight_tab \<and>
   tab_minimum_size f32_zero tight_tab = Inr \<lparr>ps_width = f32_of_int 300, ps_height = f32_of_int 100\<rparr> \<and>
   resize_split 1 \<lparr>ps_width = f32_of_int 300, ps_height = f32_of_int 100\<rparr> f32_zero half tight_tab = None"
proof -
  have "tab_minimum_size f32_zero tight_tab = Inr \<lparr>ps_width = f32_of_int 300, ps_height = f32_of_int 100\<rparr>"
    by code_simp
  moreover have "resize_split 1 \<lparr>ps_width = f32_of_int 300, ps_height = f32_of_int 100\<rparr> f32_zero half tight_tab = None"
    by code_simp
  ultimately show ?thesis by (simp add: resize_split_panics tight_tab_ok)
qed

text \<open>
  C30. Closing the zoomed Pane of a Tab of three or more leaves the Tab zoomed, on the Pane that focus falls back
  to: the Tab is unzoomed only when a single Pane is left.
\<close>

theorem closing_the_zoomed_pane_zooms_the_fallback:
  assumes "tab_ok t" "pt_zoom t = Zoomed p" "2 < pane_total t"
  shows "\<exists>root f x t'. without_pane p (pt_root t) = Some (Some root, f) \<and> close_pane p t = Some (Inr (PaneClosed p f x), t') \<and>
    pt_focused t' = f \<and> pt_zoom t' = Zoomed f \<and> f \<noteq> p"
proof -
  have p: "pt_focused t = p" "p \<in> set (leaves (pt_root t))" and keys: "fst ` set (pt_panes t) = set (leaves (pt_root t))"
    and ok: "omap_ok (pt_panes t)" and d: "distinct (leaves (pt_root t))"
    using assms(1,2) by (auto simp: tab_ok_def layout_ok_def)
  obtain r f where r: "without_pane p (pt_root t) = Some (r, f)"
    using p(2) by (cases "without_pane p (pt_root t)") (auto simp: without_pane_None)
  then obtain root where root: "without_pane p (pt_root t) = Some (Some root, f)"
    using assms(3) pane_total_leaves [OF assms(1)] by (cases r) (auto simp: without_pane_last)
  obtain x where x: "map_of (pt_panes t) p = Some x"
    using p(2) keys by (cases "map_of (pt_panes t) p") (auto simp: map_of_eq_None_iff)
  have f: "f \<noteq> p" using without_pane_shape(1,3) [OF root d] by auto
  have "length (omap_remove p (pt_panes t)) = length (pt_panes t) - 1" using ok p(2) keys by (simp add: length_omap_remove)
  then have n: "length (omap_remove p (pt_panes t)) \<noteq> Suc 0" using assms(3) by (simp add: pane_total_def)
  have "\<exists>t'. close_pane p t = Some (Inr (PaneClosed p f x), t') \<and> pt_focused t' = f \<and> pt_zoom t' = Zoomed f"
    using root x p(1) assms(2,3) n f
    by (simp add: close_pane_def Let_def set_focused_pane_def apply_focused_pane_def pane_total_def)
  then show ?thesis using root f by blast
qed

theorem closing_the_zoomed_pane_zooms_the_fallback_witness:
  "tab_ok (pw_tab demo_panes) \<and> pt_zoom (pw_tab demo_panes) = Zoomed 2 \<and> 2 < pane_total (pw_tab demo_panes) \<and>
   (\<exists>root f x t'. without_pane 2 (pt_root (pw_tab demo_panes)) = Some (Some root, f) \<and>
      close_pane 2 (pw_tab demo_panes) = Some (Inr (PaneClosed 2 f x), t') \<and> pt_focused t' = f \<and> pt_zoom t' = Zoomed f \<and> f \<noteq> 2)"
proof -
  have h: "tab_ok (pw_tab demo_panes)" "pt_zoom (pw_tab demo_panes) = Zoomed 2" "2 < pane_total (pw_tab demo_panes)"
    using panes_ok_tab [OF demo_panes_ok] by (simp_all add: demo_panes_def pane_total_def)
  show ?thesis using closing_the_zoomed_pane_zooms_the_fallback [OF h] h by blast
qed

lemma find_split_minimum_unchanged:
  "find_split i n = Some (axis, first, second) \<Longrightarrow> set_ratio i r n = Some n' \<Longrightarrow> find_split i n' = Some (axis, first, second)"
proof (induction n arbitrary: n')
  case (Split j ax ratio a b)
  show ?case
  proof (cases "j = i")
    case False
    show ?thesis
    proof (cases "find_split i a")
      case None
      then have "i \<notin> set (split_ids a)" by (simp add: find_split_None)
      then have "set_ratio i r a = None" by (simp add: set_ratio_None)
      then show ?thesis using Split None False by auto
    next
      case (Some x)
      then have "i \<in> set (split_ids a)" using find_split_None [of i a] by fastforce
      then obtain a' where "set_ratio i r a = Some a'" using set_ratio_None [of i r a] by fastforce
      then show ?thesis using Split Some False by auto
    qed
  qed (use Split.prems in auto)
qed simp

lemma set_ratio_arrangement: "set_ratio i r n = Some n' \<Longrightarrow> has_arrangement_of n' n"
  by (induction n arbitrary: n') (auto split: if_splits option.splits)

text \<open>The ratio of a Split, looked up in the order in which the code searches the tree.\<close>

fun ratio_of :: "u64 \<Rightarrow> pane_node \<Rightarrow> f32 option" where
  "ratio_of i (Leaf _) = None"
| "ratio_of i (Split j axis ratio first second) =
     (if j = i then Some ratio else case ratio_of i first of Some r \<Rightarrow> Some r | None \<Rightarrow> ratio_of i second)"

lemma ratio_of_None: "ratio_of i n = None \<longleftrightarrow> i \<notin> set (split_ids n)"
  by (induction n) (auto split: option.splits)

lemma set_ratio_writes: "set_ratio i r n = Some n' \<Longrightarrow> ratio_of i n' = Some r"
proof (induction n arbitrary: n')
  case (Split j axis ratio a b)
  show ?case
  proof (cases "j = i \<or> set_ratio i r a \<noteq> None")
    case True
    with Split show ?thesis by (auto split: option.splits if_splits)
  next
    case False
    then have "ratio_of i a = None" by (simp add: set_ratio_None ratio_of_None)
    with Split False show ?thesis by (auto split: option.splits if_splits)
  qed
qed simp

lemma set_ratio_others: "set_ratio i r n = Some n' \<Longrightarrow> j \<noteq> i \<Longrightarrow> ratio_of j n' = ratio_of j n"
proof (induction n arbitrary: n')
  case (Split k axis ratio a b)
  then show ?case by (auto split: option.splits if_splits)
qed simp

lemma set_ratio_same: "ratio_of i n = Some r \<Longrightarrow> set_ratio i r n = Some n"
proof (induction n)
  case (Split j axis ratio a b)
  show ?case
  proof (cases "j = i \<or> ratio_of i a \<noteq> None")
    case True
    with Split show ?thesis by (auto split: option.splits if_splits)
  next
    case False
    then have "set_ratio i r a = None" by (simp add: set_ratio_None ratio_of_None)
    with Split False show ?thesis by simp
  qed
qed simp

text \<open>
  C28. A resize that succeeds writes the ratio it answers into its Split and changes no other ratio, no Pane and
  nothing else of the Tab. The answer is the requested ratio where that one keeps both sides at their
  minimum; a lower request gives the lowest ratio that does, a higher one the highest. The range of the Split
  is unchanged, so asking again for the ratio it answered answers the same and changes nothing.
\<close>

theorem resize_answers_nearest_ratio:
  assumes "resize_split i available d requested t = Some (Inr ratio, t')"
  shows "\<exists>lo hi. split_ratio_range i available d t = Inr (lo, hi) \<and> fle lo hi \<and>
      (flt requested lo \<longrightarrow> ratio = lo) \<and> (\<not> flt requested lo \<and> flt hi requested \<longrightarrow> ratio = hi) \<and>
      (\<not> flt requested lo \<and> \<not> flt hi requested \<longrightarrow> ratio = requested) \<and> \<not> flt ratio lo \<and> \<not> flt hi ratio \<and>
      ratio_of i (pt_root t') = Some ratio \<and> (\<forall>j. j \<noteq> i \<longrightarrow> ratio_of j (pt_root t') = ratio_of j (pt_root t)) \<and>
      has_arrangement_of (pt_root t') (pt_root t) \<and> t' = t\<lparr>pt_root := pt_root t'\<rparr> \<and>
      split_ratio_range i available d t' = Inr (lo, hi) \<and>
      (is_finite ratio \<longrightarrow> resize_split i available d ratio t' = Some (Inr ratio, t'))"
proof -
  obtain lo hi root where range: "split_ratio_range i available d t = Inr (lo, hi)" and le: "fle lo hi" and fin: "is_finite requested"
    and ratio: "ratio = clamp_value lo hi requested" and root: "set_ratio i ratio (pt_root t) = Some root" and t': "t' = t\<lparr>pt_root := root\<rparr>"
    and v: "validate_divider_size d = Inr ()"
    using assms by (auto simp: resize_split_def fclamp_def split: sum.splits if_splits option.splits)
  obtain axis a b where f: "find_split i (pt_root t) = Some (axis, a, b)"
    using range v by (auto simp: split_ratio_range_def split: option.splits)
  have range': "split_ratio_range i available d t' = Inr (lo, hi)"
    using range f v find_split_minimum_unchanged [OF f root] by (simp add: split_ratio_range_def t' cong: sum.case_cong)
  have written: "ratio_of i root = Some ratio" "\<forall>j. j \<noteq> i \<longrightarrow> ratio_of j root = ratio_of j (pt_root t)"
    using set_ratio_writes [OF root] set_ratio_others [OF root] by blast+
  have inside: "\<not> flt ratio lo" "\<not> flt hi ratio" using clamp_range [OF le] ratio by simp_all
  then have "clamp_value lo hi ratio = ratio" by (simp add: clamp_inside)
  then have again: "is_finite ratio \<longrightarrow> resize_split i available d ratio t' = Some (Inr ratio, t')"
    using v range' le set_ratio_same [OF written(1)] by (simp add: resize_split_def fclamp_def) (simp add: t')
  have sides: "flt requested lo \<longrightarrow> ratio = lo" "\<not> flt requested lo \<and> flt hi requested \<longrightarrow> ratio = hi"
      "\<not> flt requested lo \<and> \<not> flt hi requested \<longrightarrow> ratio = requested"
    by (simp_all add: ratio clamp_value_def)
  have "pt_root t' = root" "t' = t\<lparr>pt_root := pt_root t'\<rparr>" by (simp_all add: t')
  then show ?thesis using range le inside range' again sides written set_ratio_arrangement [OF root] by auto
qed

text \<open>A wider window, where a request below the range gives the lowest ratio and is written.\<close>

theorem resize_answers_nearest_ratio_witness:
  "\<exists>t' lo hi. resize_split 1 \<lparr>ps_width = f32_of_int 400, ps_height = f32_of_int 300\<rparr> f32_zero f32_zero tight_tab = Some (Inr lo, t') \<and>
     split_ratio_range 1 \<lparr>ps_width = f32_of_int 400, ps_height = f32_of_int 300\<rparr> f32_zero tight_tab = Inr (lo, hi) \<and>
     flt f32_zero lo \<and> ratio_of 1 (pt_root t') = Some lo"
proof -
  let ?room = "\<lparr>ps_width = f32_of_int 400, ps_height = f32_of_int 300\<rparr>"
  have "case resize_split 1 ?room f32_zero f32_zero tight_tab of Some (Inr _, _) \<Rightarrow> True | _ \<Rightarrow> False" by code_simp
  then obtain ratio t' where r: "resize_split 1 ?room f32_zero f32_zero tight_tab = Some (Inr ratio, t')"
    by (auto split: option.splits sum.splits)
  have "case split_ratio_range 1 ?room f32_zero tight_tab of Inr (lo, _) \<Rightarrow> flt f32_zero lo | _ \<Rightarrow> False" by code_simp
  then show ?thesis using resize_answers_nearest_ratio [OF r] r by auto
qed

end
