(* ===== verification/Client_View.thy ===== *)
theory Client_View
  imports Validation F32
begin

text \<open>
  The arrangements a client keeps of its own (\<open>client_view.rs\<close>): the order of Tabs and the layout of their
  Panes, stored as a flat list of nodes that refer to each other by index, and the copy of the inventory a
  client presents while its server is away. A traversal of stored nodes may not end when the indexes form a
  cycle, so it is a partial function whose value \<open>None\<close> is a traversal that does not return.
\<close>

section \<open>Layouts\<close>

datatype layout_node =
  LayoutPane Id
| LayoutSplit axis f32 nat nat  \<comment> \<open>axis, ratio, first, second\<close>

type_synonym layout = "layout_node list"

datatype layout_tree =
  TreePane Id
| TreeSplit axis f32 layout_tree layout_tree

definition joined :: "axis \<Rightarrow> f32 \<Rightarrow> layout_tree option \<Rightarrow> layout_tree option \<Rightarrow> layout_tree option" where
  "joined axis ratio a b =
     (case (a, b) of
        (Some a, Some b) \<Rightarrow> Some (TreeSplit axis ratio a b)
      | (Some t, None) \<Rightarrow> Some t
      | (None, Some t) \<Rightarrow> Some t
      | (None, None) \<Rightarrow> None)"

partial_function (option) tree_at :: "layout \<Rightarrow> (Id \<Rightarrow> bool) \<Rightarrow> nat \<Rightarrow> layout_tree option option" where
  "tree_at nodes keep index =
     (if length nodes \<le> index then Some None
      else case nodes ! index of
          LayoutPane p \<Rightarrow> Some (if keep p then Some (TreePane p) else None)
        | LayoutSplit axis ratio first second \<Rightarrow>
            Option.bind (tree_at nodes keep first) (\<lambda>a.
              Option.bind (tree_at nodes keep second) (\<lambda>b. Some (joined axis ratio a b))))"

text \<open>One more parent of a child; \<open>None\<close> when no such node is stored.\<close>

definition count_parent :: "nat \<Rightarrow> nat list \<Rightarrow> nat list option" where
  "count_parent child parents = (if child < length parents then Some (parents[child := parents ! child + 1]) else None)"

definition ratio_valid :: "f32 \<Rightarrow> bool" where
  "ratio_valid r \<longleftrightarrow> \<not> (\<not> is_finite r \<or> fle r f32_zero \<or> fle (f32_of_int 1) r)"

fun validate_nodes :: "nat \<Rightarrow> layout \<Rightarrow> nat list \<Rightarrow> Id list \<Rightarrow> nat list option" where
  "validate_nodes index [] parents panes = Some parents"
| "validate_nodes index (LayoutPane p # nodes) parents panes =
     (if p \<in> set panes then None else validate_nodes (index + 1) nodes parents (p # panes))"
| "validate_nodes index (LayoutSplit axis ratio first second # nodes) parents panes =
     (if \<not> ratio_valid ratio \<or> first \<le> index \<or> second \<le> index then None
      else case count_parent first parents of
          None \<Rightarrow> None
        | Some parents \<Rightarrow>
            (case count_parent second parents of
               None \<Rightarrow> None
             | Some parents \<Rightarrow> validate_nodes (index + 1) nodes parents panes))"

definition layout_valid :: "layout \<Rightarrow> bool" where
  "layout_valid nodes \<longleftrightarrow>
     nodes \<noteq> [] \<and> length nodes \<le> 2 * MAX_PANES - 1 \<and>
     (case validate_nodes 0 nodes (replicate (length nodes) 0) [] of
        None \<Rightarrow> False
      | Some parents \<Rightarrow> parents ! 0 = 0 \<and> \<not> list_ex (\<lambda>count. count \<noteq> 1) (drop 1 parents))"

fun tree_contains :: "Id \<Rightarrow> layout_tree \<Rightarrow> bool" where
  "tree_contains p (TreePane q) \<longleftrightarrow> q = p"
| "tree_contains p (TreeSplit _ _ a b) \<longleftrightarrow> tree_contains p a \<or> tree_contains p b"

fun tree_first :: "layout_tree \<Rightarrow> Id" where
  "tree_first (TreePane p) = p"
| "tree_first (TreeSplit _ _ a _) = tree_first a"

definition tree_half :: f32 where
  "tree_half = f32_of_ratio 1 2"

fun tree_insert :: "Id \<Rightarrow> Id \<Rightarrow> side \<Rightarrow> layout_tree \<Rightarrow> layout_tree" where
  "tree_insert source p s (TreePane q) =
     (if q = source then
        let (first, second) = (if side_leads s then (p, source) else (source, p))
        in TreeSplit (side_axis s) tree_half (TreePane first) (TreePane second)
      else TreePane q)"
| "tree_insert source p s (TreeSplit axis ratio a b) = TreeSplit axis ratio (tree_insert source p s a) (tree_insert source p s b)"

text \<open>The nodes of a tree written after \<open>n\<close> others, its own node first.\<close>

fun tree_flatten :: "nat \<Rightarrow> layout_tree \<Rightarrow> layout" where
  "tree_flatten n (TreePane p) = [LayoutPane p]"
| "tree_flatten n (TreeSplit axis ratio a b) =
     (let first = n + 1; nodes = tree_flatten first a; second = first + length nodes
      in LayoutSplit axis ratio first second # nodes @ tree_flatten second b)"

definition join_pane :: "tab \<Rightarrow> pane \<Rightarrow> layout_tree option \<Rightarrow> layout_tree option" where
  "join_pane t pane tree =
     (case tree of
        None \<Rightarrow> Some (TreePane (p_id pane))
      | Some tree \<Rightarrow>
          if tree_contains (p_id pane) tree then Some tree
          else
            let fallback = (if tree_contains (t_root_pane t) tree then t_root_pane t else tree_first tree);
                source = (case p_source pane of
                    Some i \<Rightarrow> if tree_contains i tree then i else fallback
                  | None \<Rightarrow> fallback)
            in Some (tree_insert source (p_id pane) (p_side pane) tree))"

text \<open>\<open>Layout::reconcile\<close>. The outer \<open>None\<close> is a traversal that does not return.\<close>

definition reconcile_layout :: "tab \<Rightarrow> layout \<Rightarrow> layout option" where
  "reconcile_layout t nodes =
     map_option
       (\<lambda>tree. case fold (join_pane t) (t_panes t) tree of None \<Rightarrow> [] | Some tree \<Rightarrow> tree_flatten 0 tree)
       (if layout_valid nodes then tree_at nodes (\<lambda>i. list_ex (\<lambda>pane. p_id pane = i) (t_panes t)) 0 else Some None)"

section \<open>Views\<close>

record tab_view =
  tv_tab :: Id
  tv_layout :: layout

record workspace_view =
  wv_workspace :: Id
  wv_tabs :: "tab_view list"

type_synonym client_view = "workspace_view list"

text \<open>Reading off options that are all there; \<open>None\<close> as soon as one is not.\<close>

fun all_some :: "'a option list \<Rightarrow> 'a list option" where
  "all_some [] = Some []"
| "all_some (x # xs) = (case x of None \<Rightarrow> None | Some x \<Rightarrow> map_option ((#) x) (all_some xs))"

definition view_of :: "tab \<Rightarrow> layout \<Rightarrow> tab_view option" where
  "view_of t nodes = map_option (\<lambda>l. \<lparr>tv_tab = t_id t, tv_layout = l\<rparr>) (reconcile_layout t nodes)"

definition reconcile_view :: "workspace \<Rightarrow> workspace_view \<Rightarrow> workspace_view option" where
  "reconcile_view w view =
     (let saved = List.map_filter (\<lambda>v. map_option (\<lambda>t. view_of t (tv_layout v)) (List.find (\<lambda>t. t_id t = tv_tab v) (w_tabs w))) (wv_tabs view)
      in case all_some saved of
           None \<Rightarrow> None
         | Some tabs \<Rightarrow>
             map_option (\<lambda>tabs. \<lparr>wv_workspace = w_id w, wv_tabs = tabs\<rparr>)
               (fold (\<lambda>t tabs. case tabs of
                    None \<Rightarrow> None
                  | Some tabs \<Rightarrow>
                      if list_ex (\<lambda>v. tv_tab v = t_id t) tabs then Some tabs
                      else map_option (\<lambda>v. tabs @ [v]) (view_of t []))
                 (w_tabs w) (Some tabs)))"

fun layout_panes :: "layout \<Rightarrow> Id list" where
  "layout_panes [] = []"
| "layout_panes (LayoutPane p # nodes) = p # layout_panes nodes"
| "layout_panes (LayoutSplit _ _ _ _ # nodes) = layout_panes nodes"

text \<open>Identities added one by one to those seen; \<open>None\<close> at the first one seen before.\<close>

fun insert_all :: "Id list \<Rightarrow> Id list \<Rightarrow> Id list option" where
  "insert_all [] seen = Some seen"
| "insert_all (p # ps) seen = (if p \<in> set seen then None else insert_all ps (p # seen))"

fun validate_tab_views :: "tab_view list \<Rightarrow> Id list \<times> Id list \<Rightarrow> (Id list \<times> Id list) option" where
  "validate_tab_views [] seen = Some seen"
| "validate_tab_views (v # vs) (tabs, panes) =
     (if tv_tab v \<in> set tabs \<or> \<not> layout_valid (tv_layout v) then None
      else case insert_all (layout_panes (tv_layout v)) panes of
          None \<Rightarrow> None
        | Some panes \<Rightarrow> validate_tab_views vs (tv_tab v # tabs, panes))"

fun validate_workspace_views :: "client_view \<Rightarrow> Id list \<times> Id list \<times> Id list \<Rightarrow> (Id list \<times> Id list \<times> Id list) option" where
  "validate_workspace_views [] seen = Some seen"
| "validate_workspace_views (v # vs) (spaces, tabs, panes) =
     (if wv_workspace v \<in> set spaces then None
      else case validate_tab_views (wv_tabs v) (tabs, panes) of
          None \<Rightarrow> None
        | Some (tabs, panes) \<Rightarrow> validate_workspace_views vs (wv_workspace v # spaces, tabs, panes))"

definition client_view_valid :: "client_view \<Rightarrow> bool" where
  "client_view_valid view =
     (case validate_workspace_views view ([], [], []) of
        None \<Rightarrow> False
      | Some (spaces, tabs, panes) \<Rightarrow>
          \<not> (length spaces > MAX_WORKSPACES \<or> length tabs > MAX_TABS \<or> length panes > MAX_PANES))"

section \<open>The retained inventory\<close>

definition MAX_NAME_BYTES :: nat where "MAX_NAME_BYTES = 256"

record retained_pane =
  rp_id :: Id
  rp_source :: "Id option"
  rp_side :: side
  rp_shell :: "rust_string option"

record retained_tab =
  rt_id :: Id
  rt_root_pane :: Id
  rt_panes :: "retained_pane list"

record retained_workspace =
  rw_id :: Id
  rw_name :: rust_string
  rw_root_tab :: Id
  rw_tabs :: "retained_tab list"

record retained_inventory =
  ri_revision :: u64
  ri_workspaces :: "retained_workspace list"

definition retained_shell :: "pane \<Rightarrow> rust_string option" where
  "retained_shell p =
     (case p_presentation p of
        None \<Rightarrow> None
      | Some snap \<Rightarrow>
          let shell = trim (take MAX_TITLE_CHARS (filter (\<lambda>c. \<not> is_control c) (sn_shell_name snap)))
          in if shell = [] then None else Some shell)"

definition retain_pane :: "pane \<Rightarrow> retained_pane" where
  "retain_pane p = \<lparr>rp_id = p_id p, rp_source = p_source p, rp_side = p_side p, rp_shell = retained_shell p\<rparr>"

definition retain_tab :: "tab \<Rightarrow> retained_tab" where
  "retain_tab t = \<lparr>rt_id = t_id t, rt_root_pane = t_root_pane t, rt_panes = map retain_pane (t_panes t)\<rparr>"

definition retain_workspace :: "workspace \<Rightarrow> retained_workspace" where
  "retain_workspace w = \<lparr>rw_id = w_id w, rw_name = w_name w, rw_root_tab = w_root_tab w, rw_tabs = map retain_tab (w_tabs w)\<rparr>"

definition retain_inventory :: "inventory \<Rightarrow> retained_inventory" where
  "retain_inventory i = \<lparr>ri_revision = inv_revision i, ri_workspaces = map retain_workspace (inv_workspaces i)\<rparr>"

definition retained_text :: "rust_string \<Rightarrow> nat \<Rightarrow> bool" where
  "retained_text value bound \<longleftrightarrow> trim value \<noteq> [] \<and> str_len value \<le> bound \<and> \<not> list_ex is_control value"

definition bad_shell :: "rust_string option \<Rightarrow> bool" where
  "bad_shell shell =
     (case shell of
        None \<Rightarrow> False
      | Some s \<Rightarrow> \<not> retained_text s (4 * MAX_TITLE_CHARS) \<or> length s > MAX_TITLE_CHARS)"

fun check_retained_panes :: "retained_pane list \<Rightarrow> Id list \<Rightarrow> Id list option" where
  "check_retained_panes [] ids = Some ids"
| "check_retained_panes (p # ps) ids =
     (if rp_id p \<in> set ids \<or> bad_shell (rp_shell p) then None else check_retained_panes ps (rp_id p # ids))"

fun check_retained_tabs :: "retained_tab list \<Rightarrow> Id list \<Rightarrow> Id list option" where
  "check_retained_tabs [] ids = Some ids"
| "check_retained_tabs (t # ts) ids =
     (if rt_id t \<in> set ids \<or> \<not> list_ex (\<lambda>p. rp_id p = rt_root_pane t) (rt_panes t) then None
      else case check_retained_panes (rt_panes t) (rt_id t # ids) of
          None \<Rightarrow> None
        | Some ids \<Rightarrow> check_retained_tabs ts ids)"

fun check_retained_workspaces :: "retained_workspace list \<Rightarrow> Id list \<Rightarrow> Id list option" where
  "check_retained_workspaces [] ids = Some ids"
| "check_retained_workspaces (w # ws) ids =
     (if rw_id w \<in> set ids \<or> \<not> retained_text (rw_name w) MAX_NAME_BYTES \<or> \<not> list_ex (\<lambda>t. rt_id t = rw_root_tab w) (rw_tabs w) then None
      else case check_retained_tabs (rw_tabs w) (rw_id w # ids) of
          None \<Rightarrow> None
        | Some ids \<Rightarrow> check_retained_workspaces ws ids)"

definition retained_valid :: "retained_inventory \<Rightarrow> bool" where
  "retained_valid r \<longleftrightarrow>
     \<not> length (ri_workspaces r) > MAX_WORKSPACES \<and>
     (case check_retained_workspaces (ri_workspaces r) [] of
        None \<Rightarrow> False
      | Some ids \<Rightarrow>
          \<not> (sum_list (map (\<lambda>w. length (rw_tabs w)) (ri_workspaces r)) > MAX_TABS \<or>
             sum_list (map (\<lambda>w. sum_list (map (\<lambda>t. length (rt_panes t)) (rw_tabs w))) (ri_workspaces r)) > MAX_PANES \<or>
             0 \<in> set ids))"

definition pane_of_retained :: "retained_pane \<Rightarrow> pane" where
  "pane_of_retained p = new_pane (rp_id p) (rp_source p) (rp_side p) [] None"

definition tab_of_retained :: "retained_tab \<Rightarrow> tab" where
  "tab_of_retained t =
     \<lparr>t_membership = Following, t_worktree = None, t_worktree_repository = None, t_id = rt_id t, t_root_pane = rt_root_pane t,
      t_panes = map pane_of_retained (rt_panes t)\<rparr>"

definition workspace_of_retained :: "retained_workspace \<Rightarrow> workspace" where
  "workspace_of_retained w =
     \<lparr>w_id = rw_id w, w_name = rw_name w, w_name_version = 0, w_pin_version = 0, w_pinned_directory = None,
      w_root_tab = rw_root_tab w, w_tabs = map tab_of_retained (rw_tabs w)\<rparr>"

definition inventory_of_retained :: "retained_inventory \<Rightarrow> inventory" where
  "inventory_of_retained r =
     \<lparr>inv_repositories = None, inv_revision = ri_revision r, inv_workspaces = map workspace_of_retained (ri_workspaces r), inv_close = None\<rparr>"

definition shell_of :: "Id \<Rightarrow> retained_inventory \<Rightarrow> rust_string option" where
  "shell_of pane r =
     (case List.find (\<lambda>p. rp_id p = pane) (concat (map rt_panes (concat (map rw_tabs (ri_workspaces r))))) of
        None \<Rightarrow> None
      | Some p \<Rightarrow> rp_shell p)"

definition retained_structure :: "retained_inventory \<Rightarrow> retained_inventory" where
  "retained_structure r =
     r\<lparr>ri_revision := 0,
       ri_workspaces := map (\<lambda>w. w\<lparr>rw_tabs := map (\<lambda>t. t\<lparr>rt_panes := map (\<lambda>p. p\<lparr>rp_shell := None\<rparr>) (rt_panes t)\<rparr>) (rw_tabs w)\<rparr>)
         (ri_workspaces r)\<rparr>"

definition same_structure :: "retained_inventory \<Rightarrow> retained_inventory \<Rightarrow> bool" where
  "same_structure a b \<longleftrightarrow> retained_structure a = retained_structure b"

end
