(* ===== verification/Layout_Laws.thy ===== *)
theory Layout_Laws
  imports Client_View
begin

text \<open>
  What a valid layout is: the flat list of nodes is one tree, every node is reached from the first exactly
  once, and a traversal of it ends. Flattening a tree gives a valid layout that reads back as the same tree.
\<close>

section \<open>The check of a layout\<close>

fun children :: "layout_node \<Rightarrow> nat list" where
  "children (LayoutPane _) = []"
| "children (LayoutSplit _ _ a b) = [a, b]"

fun node_panes :: "layout_node \<Rightarrow> Id list" where
  "node_panes (LayoutPane p) = [p]"
| "node_panes (LayoutSplit _ _ _ _) = []"

fun node_ok :: "nat \<Rightarrow> nat \<Rightarrow> layout_node \<Rightarrow> bool" where
  "node_ok n i (LayoutPane _) \<longleftrightarrow> True"
| "node_ok n i (LayoutSplit _ ratio a b) \<longleftrightarrow> ratio_valid ratio \<and> i < a \<and> a < n \<and> i < b \<and> b < n"

abbreviation kids :: "layout \<Rightarrow> nat list" where
  "kids nodes \<equiv> concat (map children nodes)"

lemma layout_panes_concat: "layout_panes nodes = concat (map node_panes nodes)"
  by (induction nodes rule: layout_panes.induct) auto

definition counted :: "nat list \<Rightarrow> nat list \<Rightarrow> nat list" where
  "counted parents cs = map (\<lambda>j. parents ! j + count_list cs j) [0..<length parents]"

lemma counted_Nil [simp]: "counted parents [] = parents"
  by (simp add: counted_def map_nth)

lemma length_counted [simp]: "length (counted parents cs) = length parents"
  by (simp add: counted_def)

lemma counted_step:
  "c < length parents \<Longrightarrow> counted (parents[c := parents ! c + 1]) cs = counted parents (c # cs)"
  by (rule nth_equalityI) (auto simp: counted_def nth_list_update)

lemma validate_nodes_iff:
  "validate_nodes i nodes parents panes = Some parents' \<longleftrightarrow>
     (\<forall>k<length nodes. node_ok (length parents) (i + k) (nodes ! k)) \<and> distinct (layout_panes nodes) \<and>
     set (layout_panes nodes) \<inter> set panes = {} \<and> parents' = counted parents (kids nodes)"
proof (induction nodes arbitrary: i parents panes)
  case (Cons node nodes)
  have split_first: "(\<forall>k<length (node # nodes). node_ok n (i + k) ((node # nodes) ! k)) \<longleftrightarrow>
      node_ok n i node \<and> (\<forall>k<length nodes. node_ok n (Suc i + k) (nodes ! k))" for n
    by (auto simp: nth_Cons less_Suc_eq_0_disj split: nat.split)
  show ?case
  proof (cases node)
    case (LayoutPane p)
    have "validate_nodes i (node # nodes) parents panes = Some parents' \<longleftrightarrow>
        p \<notin> set panes \<and> validate_nodes (Suc i) nodes parents (p # panes) = Some parents'"
      by (simp add: LayoutPane)
    then show ?thesis unfolding split_first Cons.IH by (auto simp: LayoutPane)
  next
    case (LayoutSplit axis ratio a b)
    let ?one = "parents[a := parents ! a + 1]"
    let ?two = "?one[b := ?one ! b + 1]"
    have run: "validate_nodes i (node # nodes) parents panes = Some parents' \<longleftrightarrow>
        node_ok (length parents) i node \<and> validate_nodes (Suc i) nodes ?two panes = Some parents'"
      by (auto simp: LayoutSplit count_parent_def)
    have "b < length parents \<Longrightarrow> a < length parents \<Longrightarrow> counted ?two (kids nodes) = counted parents (kids (node # nodes))"
      by (simp add: LayoutSplit counted_step del: nth_list_update) (simp add: counted_def add.commute)
    then show ?thesis unfolding split_first run Cons.IH by (auto simp: LayoutSplit)
  qed
qed auto

definition is_tree :: "layout \<Rightarrow> bool" where
  "is_tree nodes \<longleftrightarrow>
     (\<forall>k<length nodes. node_ok (length nodes) k (nodes ! k)) \<and> distinct (layout_panes nodes) \<and>
     0 \<notin> set (kids nodes) \<and> (\<forall>j. 0 < j \<and> j < length nodes \<longrightarrow> count_list (kids nodes) j = 1)"

lemma layout_valid_iff: "layout_valid nodes \<longleftrightarrow> nodes \<noteq> [] \<and> length nodes \<le> 2 * MAX_PANES - 1 \<and> is_tree nodes"
proof (cases "nodes = []")
  case False
  let ?c = "counted (replicate (length nodes) 0) (kids nodes)"
  have "?c ! 0 = count_list (kids nodes) 0" using False by (simp add: counted_def)
  moreover have "\<not> list_ex (\<lambda>count. count \<noteq> 1) (drop 1 ?c) \<longleftrightarrow> (\<forall>j. 0 < j \<and> j < length nodes \<longrightarrow> count_list (kids nodes) j = 1)"
  proof -
    have "drop 1 ?c = map (count_list (kids nodes)) [1..<length nodes]" by (simp add: counted_def drop_map)
    then show ?thesis by (auto simp: list_ex_iff)
  qed
  moreover have "validate_nodes 0 nodes (replicate (length nodes) 0) [] =
      (if (\<forall>k<length nodes. node_ok (length nodes) k (nodes ! k)) \<and> distinct (layout_panes nodes) then Some ?c else None)"
  proof (cases "validate_nodes 0 nodes (replicate (length nodes) 0) []")
    case None
    then show ?thesis using validate_nodes_iff [of 0 nodes "replicate (length nodes) 0" "[]" ?c] by auto
  next
    case (Some parents)
    then show ?thesis using validate_nodes_iff [of 0 nodes "replicate (length nodes) 0" "[]" parents] by auto
  qed
  ultimately show ?thesis using False count_list_0_iff [of "kids nodes" 0]
    by (simp add: layout_valid_def is_tree_def)
qed (simp add: layout_valid_def)

section \<open>Reading a tree\<close>

fun tree_panes :: "layout_tree \<Rightarrow> Id list" where
  "tree_panes (TreePane p) = [p]"
| "tree_panes (TreeSplit _ _ a b) = tree_panes a @ tree_panes b"

fun tree_ratios :: "layout_tree \<Rightarrow> f32 list" where
  "tree_ratios (TreePane _) = []"
| "tree_ratios (TreeSplit _ r a b) = r # tree_ratios a @ tree_ratios b"

fun prune :: "(Id \<Rightarrow> bool) \<Rightarrow> layout_tree \<Rightarrow> layout_tree option" where
  "prune keep (TreePane p) = (if keep p then Some (TreePane p) else None)"
| "prune keep (TreeSplit axis ratio a b) = joined axis ratio (prune keep a) (prune keep b)"

text \<open>The tree below a node, with the nodes it visits.\<close>

inductive reads :: "layout \<Rightarrow> nat \<Rightarrow> layout_tree \<Rightarrow> nat list \<Rightarrow> bool" for nodes where
  reads_pane: "i < length nodes \<Longrightarrow> nodes ! i = LayoutPane p \<Longrightarrow> reads nodes i (TreePane p) [i]"
| reads_split: "i < length nodes \<Longrightarrow> nodes ! i = LayoutSplit axis ratio a b \<Longrightarrow> reads nodes a s us \<Longrightarrow> reads nodes b t vs \<Longrightarrow>
     reads nodes i (TreeSplit axis ratio s t) (i # us @ vs)"

lemma reads_exists:
  assumes "\<forall>k<length nodes. node_ok (length nodes) k (nodes ! k)" "i < length nodes"
  shows "\<exists>t vs. reads nodes i t vs"
  using assms(2)
proof (induction "length nodes - i" arbitrary: i rule: less_induct)
  case less
  have ok: "node_ok (length nodes) i (nodes ! i)" using assms(1) less.prems by blast
  show ?case
  proof (cases "nodes ! i")
    case (LayoutSplit axis ratio a b)
    then have ab: "i < a" "a < length nodes" "i < b" "b < length nodes" using ok by simp_all
    have "length nodes - a < length nodes - i" "length nodes - b < length nodes - i" using ab less.prems by linarith+
    then obtain s us t vs where "reads nodes a s us" "reads nodes b t vs" using less.hyps ab by metis
    then show ?thesis using reads_split [OF less.prems LayoutSplit] by blast
  qed (use reads_pane less.prems in blast)
qed

lemma tree_at_reads: "reads nodes i t vs \<Longrightarrow> tree_at nodes keep i = Some (prune keep t)"
  by (induction rule: reads.induct) (simp_all add: tree_at.simps [of nodes keep])

lemma reads_less: "reads nodes i t vs \<Longrightarrow> set vs \<subseteq> {..<length nodes}"
  by (induction rule: reads.induct) auto

lemma reads_mset:
  "reads nodes i t vs \<Longrightarrow> mset vs = add_mset i (mset (concat (map (\<lambda>k. children (nodes ! k)) vs)))"
  by (induction rule: reads.induct) simp_all

lemma reads_panes:
  "reads nodes i t vs \<Longrightarrow> mset (tree_panes t) = mset (concat (map (\<lambda>k. node_panes (nodes ! k)) vs))"
  by (induction rule: reads.induct) simp_all

lemma reads_length: "reads nodes i t vs \<Longrightarrow> Suc (length vs) = 2 * length (tree_panes t)"
  by (induction rule: reads.induct) simp_all

lemma reads_ratios:
  "reads nodes i t vs \<Longrightarrow> \<forall>k<length nodes. node_ok (length nodes) k (nodes ! k) \<Longrightarrow> \<forall>r\<in>set (tree_ratios t). ratio_valid r"
proof (induction rule: reads.induct)
  case (reads_split i axis ratio a b s us t vs)
  then have "node_ok (length nodes) i (nodes ! i)" by blast
  then show ?case using reads_split by auto
qed simp

lemma count_concat: "count (mset (concat (map f vs))) j = (\<Sum>k\<in>#mset vs. count (mset (f k)) j)"
  by (induction vs) simp_all

lemma reads_each_once:
  assumes "is_tree nodes" "reads nodes 0 t vs"
  shows "mset vs = mset [0..<length nodes]"
proof -
  let ?n = "length nodes"
  have kids: "kids nodes = concat (map (\<lambda>k. children (nodes ! k)) [0..<?n])"
    using arg_cong [OF map_nth [of nodes], of "\<lambda>ns. concat (map children ns)"] by (simp add: comp_def)
  have "count (mset vs) j = 1" if "j < ?n" for j
    using that
  proof (induction j rule: less_induct)
    case (less j)
    have step: "count (mset vs) j = (if j = 0 then 1 else 0) + (\<Sum>k\<in>#mset vs. count (mset (children (nodes ! k))) j)"
      using arg_cong [OF reads_mset [OF assms(2)], of "\<lambda>m. count m j"] by (simp add: count_concat)
    show ?case
    proof (cases "j = 0")
      case True
      have "count (mset (children (nodes ! k))) 0 = 0" if "k \<in># mset vs" for k
        using that assms reads_less [OF assms(2)] by (auto simp: is_tree_def count_eq_zero_iff)
      then have "(\<Sum>k\<in>#mset vs. count (mset (children (nodes ! k))) 0) = (\<Sum>k\<in>#mset vs. 0)"
        by (intro arg_cong [where f = sum_mset] image_mset_cong)
      then show ?thesis using step True by simp
    next
      case False
      have one: "(\<Sum>k\<leftarrow>[0..<?n]. count (mset (children (nodes ! k))) j) = 1"
      proof -
        have "count (mset (kids nodes)) j = 1" using assms(1) False less.prems by (simp add: is_tree_def count_mset)
        then show ?thesis unfolding kids count_concat by (simp only: mset_map [symmetric] sum_mset_sum_list)
      qed
      then have one': "(\<Sum>k\<in>{0..<?n}. count (mset (children (nodes ! k))) j) = 1"
        by (simp add: sum_list_distinct_conv_sum_set)
      then have "\<exists>p\<in>{0..<?n}. count (mset (children (nodes ! p))) j = 1 \<and>
          (\<forall>k\<in>{0..<?n}. p \<noteq> k \<longrightarrow> count (mset (children (nodes ! k))) j = 0)"
        by (subst (asm) sum_eq_1_iff) simp_all
      then obtain p where p: "p < ?n" "count (mset (children (nodes ! p))) j = 1"
        "\<forall>k\<in>{0..<?n}. p \<noteq> k \<longrightarrow> count (mset (children (nodes ! k))) j = 0"
        by auto
      have "j \<in># mset (children (nodes ! p))" using p(2) by (metis count_eq_zero_iff zero_neq_one)
      then have "j \<in> set (children (nodes ! p))" by simp
      moreover have "node_ok ?n p (nodes ! p)" using assms(1) p(1) by (auto simp: is_tree_def)
      ultimately have "p < j" by (cases "nodes ! p") auto
      then have once: "count (mset vs) p = 1" using less by simp
      have "(\<Sum>k\<in>#mset vs. count (mset (children (nodes ! k))) j) = (\<Sum>k\<in>#mset vs. if k = p then 1 else 0)"
        using p reads_less [OF assms(2)] by (intro arg_cong [where f = sum_mset] image_mset_cong) force
      also have "\<dots> = count (mset vs) p" by (induction vs) simp_all
      finally show ?thesis using step False once by simp
    qed
  qed
  moreover have "count (mset vs) j = 0" if "\<not> j < ?n" for j
    using that reads_less [OF assms(2)] by (auto simp: count_eq_zero_iff)
  moreover have "count (mset [0..<?n]) j = (if j < ?n then 1 else 0)" for j
    by (simp add: count_mset_set')
  ultimately show ?thesis by (intro multiset_eqI) (simp del: mset_upt)
qed

lemma mset_concat_map: "mset (concat (map f xs)) = (\<Sum>k\<in>#mset xs. mset (f k))"
  by (induction xs) simp_all

lemma layout_valid_tree:
  assumes "layout_valid nodes"
  shows "\<exists>t vs. reads nodes 0 t vs \<and> mset (tree_panes t) = mset (layout_panes nodes) \<and> distinct (tree_panes t) \<and>
    (\<forall>r\<in>set (tree_ratios t). ratio_valid r) \<and> length (tree_panes t) \<le> MAX_PANES"
proof -
  have tree: "is_tree nodes" "nodes \<noteq> []" "length nodes \<le> 2 * MAX_PANES - 1" using assms by (simp_all add: layout_valid_iff)
  have ok: "\<forall>k<length nodes. node_ok (length nodes) k (nodes ! k)" using tree by (simp add: is_tree_def)
  obtain t vs where reads: "reads nodes 0 t vs" using reads_exists [OF ok, of 0] tree(2) by auto
  have vs: "mset vs = mset [0..<length nodes]" by (rule reads_each_once [OF tree(1) reads])
  have "mset (tree_panes t) = (\<Sum>k\<in>#mset vs. mset (node_panes (nodes ! k)))"
    unfolding reads_panes [OF reads] by (rule mset_concat_map)
  also have "\<dots> = mset (concat (map (\<lambda>k. node_panes (nodes ! k)) [0..<length nodes]))"
    unfolding vs by (rule mset_concat_map [symmetric])
  also have "concat (map (\<lambda>k. node_panes (nodes ! k)) [0..<length nodes]) = layout_panes nodes"
    using arg_cong [OF map_nth [of nodes], of "\<lambda>ns. concat (map node_panes ns)"] by (simp add: comp_def layout_panes_concat)
  finally have panes: "mset (tree_panes t) = mset (layout_panes nodes)" .
  then have "distinct (tree_panes t)" using tree(1) mset_eq_imp_distinct_iff by (auto simp: is_tree_def)
  moreover have "length vs = length nodes" using vs by (metis mset_eq_length length_upt diff_zero)
  ultimately show ?thesis using reads panes reads_ratios [OF reads ok] reads_length [OF reads] tree(3) by (auto simp: MAX_PANES_def)
qed

section \<open>Writing a tree\<close>

lemma flatten_nonempty [simp]: "tree_flatten n t \<noteq> []"
  by (cases t) (simp_all add: Let_def)

lemma length_flatten: "Suc (length (tree_flatten n t)) = 2 * length (tree_panes t)"
proof (induction t arbitrary: n)
  case (TreeSplit axis ratio a b)
  show ?case using TreeSplit.IH(1) [of "Suc n"] TreeSplit.IH(2) [of "Suc n + length (tree_flatten (Suc n) a)"] by (simp add: Let_def)
qed simp

lemma flatten_reads:
  "\<exists>vs. reads (before @ tree_flatten (length before) t @ after) (length before) t vs"
proof (induction t arbitrary: before after)
  case (TreePane p)
  show ?case using reads_pane [of "length before" "before @ LayoutPane p # after" p] by (auto simp: nth_append)
next
  case (TreeSplit axis ratio a b)
  let ?A = "tree_flatten (length before + 1) a"
  let ?second = "length before + 1 + length ?A"
  let ?B = "tree_flatten ?second b"
  let ?node = "LayoutSplit axis ratio (length before + 1) ?second"
  let ?nodes = "before @ (?node # ?A @ ?B) @ after"
  have "\<exists>vs. reads ((before @ [?node]) @ tree_flatten (length (before @ [?node])) a @ (?B @ after)) (length (before @ [?node])) a vs"
    by (rule TreeSplit.IH(1))
  then obtain us where us: "reads ?nodes (length before + 1) a us" by auto
  have "\<exists>vs. reads ((before @ ?node # ?A) @ tree_flatten (length (before @ ?node # ?A)) b @ after) (length (before @ ?node # ?A)) b vs"
    by (rule TreeSplit.IH(2))
  then obtain vs where vs: "reads ?nodes ?second b vs" by auto
  have "reads ?nodes (length before) (TreeSplit axis ratio a b) (length before # us @ vs)"
    by (rule reads_split [OF _ _ us vs]) (simp_all add: nth_append)
  then show ?case by (auto simp: Let_def)
qed

lemma flatten_panes [simp]: "layout_panes (tree_flatten n t) = tree_panes t"
  by (induction t arbitrary: n) (simp_all add: Let_def layout_panes_concat)

lemma flatten_kids: "mset (kids (tree_flatten n t)) = mset [Suc n..<n + length (tree_flatten n t)]"
proof (induction t arbitrary: n)
  case (TreeSplit axis ratio a b)
  define la lb where "la = length (tree_flatten (Suc n) a)" and "lb = length (tree_flatten (Suc n + la) b)"
  have pos: "0 < la" "0 < lb" by (simp_all add: la_def lb_def)
  have one: "mset (k # [Suc k..<k + l]) = mset [k..<k + l]" if "0 < l" for k l :: nat
    using that by (simp only: upt_conv_Cons less_add_same_cancel1)
  have "mset (kids (tree_flatten n (TreeSplit axis ratio a b))) =
      mset (Suc n # [Suc (Suc n)..<Suc n + la]) + mset ((Suc n + la) # [Suc (Suc n + la)..<Suc n + la + lb])"
    using TreeSplit.IH(1) [of "Suc n"] TreeSplit.IH(2) [of "Suc n + la"] by (simp add: Let_def la_def lb_def del: mset_upt)
  also have "\<dots> = mset ([Suc n..<Suc n + la] @ [Suc n + la..<Suc n + la + lb])"
    using one pos by (simp only: mset_append)
  also have "[Suc n..<Suc n + la] @ [Suc n + la..<Suc n + la + lb] = [Suc n..<Suc n + la + lb]"
    using upt_add_eq_append [of "Suc n" "Suc n + la" lb] by simp
  finally show ?case by (simp add: Let_def la_def lb_def add.assoc del: mset_upt)
qed simp

lemma flatten_nodes_ok:
  "\<forall>r\<in>set (tree_ratios t). ratio_valid r \<Longrightarrow> n + length (tree_flatten n t) \<le> m \<Longrightarrow> k < length (tree_flatten n t) \<Longrightarrow>
   node_ok m (n + k) (tree_flatten n t ! k)"
proof (induction t arbitrary: n k)
  case (TreeSplit axis ratio a b)
  define A where "A = tree_flatten (Suc n) a"
  define B where "B = tree_flatten (Suc n + length A) b"
  have f: "tree_flatten n (TreeSplit axis ratio a b) = LayoutSplit axis ratio (Suc n) (Suc n + length A) # A @ B"
    by (simp add: Let_def A_def B_def)
  have nonempty: "A \<noteq> []" "B \<noteq> []" by (simp_all add: A_def B_def)
  have room: "Suc n + length A + length B \<le> m" using TreeSplit.prems(2) unfolding f by simp
  consider "k = 0" | j where "k = Suc j" "j < length A" | j where "k = Suc (length A + j)" "j < length B"
  proof -
    assume *: "k = 0 \<Longrightarrow> thesis" "\<And>j. k = Suc j \<Longrightarrow> j < length A \<Longrightarrow> thesis" "\<And>j. k = Suc (length A + j) \<Longrightarrow> j < length B \<Longrightarrow> thesis"
    have "k < Suc (length A + length B)" using TreeSplit.prems(3) unfolding f by simp
    then show thesis using * by (cases k; cases "k - 1 < length A") (auto dest: le_Suc_ex simp: not_less)
  qed
  then show ?case
  proof cases
    case 1
    then show ?thesis unfolding f using TreeSplit.prems(1) room nonempty by (cases B) auto
  next
    case (2 j)
    have "node_ok m (Suc n + j) (tree_flatten (Suc n) a ! j)"
      by (rule TreeSplit.IH(1)) (use 2 TreeSplit.prems(1) room in \<open>auto simp: A_def\<close>)
    then show ?thesis unfolding f using 2 by (simp add: nth_append A_def)
  next
    case (3 j)
    have "node_ok m (Suc n + length A + j) (tree_flatten (Suc n + length A) b ! j)"
      by (rule TreeSplit.IH(2)) (use 3 TreeSplit.prems(1) room in \<open>auto simp: B_def\<close>)
    then show ?thesis unfolding f using 3 by (simp add: nth_append B_def add.assoc)
  qed
qed simp

lemma flatten_valid:
  assumes "distinct (tree_panes t)" "\<forall>r\<in>set (tree_ratios t). ratio_valid r" "length (tree_panes t) \<le> MAX_PANES"
  shows "layout_valid (tree_flatten 0 t)"
proof -
  let ?f = "tree_flatten 0 t"
  have kids: "mset (kids ?f) = mset [1..<length ?f]" using flatten_kids [of 0 t] by simp
  then have "set (kids ?f) = set [1..<length ?f]" by (rule mset_eq_setD)
  then have "0 \<notin> set (kids ?f)" by simp
  moreover have "count_list (kids ?f) j = 1" if "0 < j" "j < length ?f" for j
  proof -
    have "count_list (kids ?f) j = count (mset (kids ?f)) j" by (simp add: count_mset)
    also have "\<dots> = 1" unfolding kids using that by (simp add: count_mset_set')
    finally show ?thesis .
  qed
  moreover have "node_ok (length ?f) k (?f ! k)" if "k < length ?f" for k
    using flatten_nodes_ok [OF assms(2), of 0 "length ?f" k] that by simp
  ultimately show ?thesis using assms length_flatten [of 0 t] by (auto simp: layout_valid_iff is_tree_def)
qed

end
