(* ===== verification/Layout_Views.thy ===== *)
theory Layout_Views
  imports Layout_Laws Preservation
begin

text \<open>
  Reconciling stored arrangements with what a server publishes: it returns for whatever is stored, keeps the
  arrangement of the Panes that survive, places new Panes beside their sources, and answers what its own check
  accepts. Copies of an inventory pass their check and keep the structure of what they copy.
\<close>

section \<open>Traversals end\<close>

lemma valid_traversal_ends: "layout_valid nodes \<Longrightarrow> \<exists>t. tree_at nodes keep 0 = Some t"
  using layout_valid_tree [of nodes] tree_at_reads by blast

lemma cyclic_traversal_does_not_end: "tree_at [LayoutSplit axis ratio 0 0] keep 0 = None"
proof -
  let ?P = "\<lambda>nodes (keep :: Id \<Rightarrow> bool) i (t :: layout_tree option). nodes = [LayoutSplit axis ratio 0 0] \<longrightarrow> i \<noteq> 0"
  have "?P nodes keep i t" if "tree_at nodes keep i = Some t" for nodes keep i t
    by (rule tree_at.raw_induct [where P = ?P, OF _ that]) (rule impI, rule notI, auto simp: bind_eq_Some_conv)
  then show ?thesis by (metis not_Some_eq)
qed

lemma reconcile_layout_returns: "\<exists>l. reconcile_layout t nodes = Some l"
  using valid_traversal_ends [of nodes] by (auto simp: reconcile_layout_def)

lemma view_of_returns: "\<exists>l. view_of t nodes = Some \<lparr>tv_tab = t_id t, tv_layout = l\<rparr> \<and> reconcile_layout t nodes = Some l"
  using reconcile_layout_returns [of t nodes] by (auto simp: view_of_def)

section \<open>Placing Panes\<close>

lemma tree_contains_iff [simp]: "tree_contains p t \<longleftrightarrow> p \<in> set (tree_panes t)"
  by (induction t) auto

lemma tree_first_in [simp]: "tree_first t \<in> set (tree_panes t)"
  by (induction t) auto

lemma insert_absent: "source \<notin> set (tree_panes t) \<Longrightarrow> tree_insert source p s t = t"
  by (induction t) auto

lemma insert_panes:
  "distinct (tree_panes t) \<Longrightarrow> source \<in> set (tree_panes t) \<Longrightarrow> mset (tree_panes (tree_insert source p s t)) = add_mset p (mset (tree_panes t))"
proof (induction t)
  case (TreeSplit axis ratio a b)
  show ?case
  proof (cases "source \<in> set (tree_panes a)")
    case True
    then have "source \<notin> set (tree_panes b)" using TreeSplit.prems(1) by auto
    then show ?thesis using True TreeSplit by (simp add: insert_absent)
  qed (use TreeSplit in \<open>simp add: insert_absent\<close>)
qed (auto split: prod.split)

lemma tree_half_valid: "ratio_valid tree_half"
  by code_simp

lemma insert_ratios: "set (tree_ratios (tree_insert source p s t)) \<subseteq> insert tree_half (set (tree_ratios t))"
  by (induction t) (auto split: prod.split)

lemma joined_None [simp]: "joined axis ratio None t = t" "joined axis ratio t None = t"
  by (cases t; simp add: joined_def)+

lemma joined_Some [simp]: "joined axis ratio (Some a) (Some b) = Some (TreeSplit axis ratio a b)"
  by (simp add: joined_def)

lemma prune_insert: "\<not> keep p \<Longrightarrow> prune keep (tree_insert source p s t) = prune keep t"
  by (induction t) auto

lemma prune_all: "(\<And>p. p \<in> set (tree_panes t) \<Longrightarrow> keep p) \<Longrightarrow> prune keep t = Some t"
  by (induction t) auto

lemma prune_panes:
  "case prune keep t of None \<Rightarrow> filter keep (tree_panes t) = [] | Some u \<Rightarrow> tree_panes u = filter keep (tree_panes t)"
  by (induction t) (auto simp: joined_def split: option.splits)

lemma prune_ratios: "prune keep t = Some u \<Longrightarrow> set (tree_ratios u) \<subseteq> set (tree_ratios t)"
  by (induction t arbitrary: u) (auto simp: joined_def split: option.splits if_splits)

definition option_panes :: "layout_tree option \<Rightarrow> Id list" where
  "option_panes t = (case t of None \<Rightarrow> [] | Some t \<Rightarrow> tree_panes t)"

definition option_ok :: "layout_tree option \<Rightarrow> bool" where
  "option_ok t = (case t of None \<Rightarrow> True | Some t \<Rightarrow> distinct (tree_panes t) \<and> (\<forall>r\<in>set (tree_ratios t). ratio_valid r))"

definition option_prune :: "(Id \<Rightarrow> bool) \<Rightarrow> layout_tree option \<Rightarrow> layout_tree option" where
  "option_prune keep t = Option.bind t (prune keep)"

lemma join_pane_law:
  assumes "option_ok tree"
  shows "option_ok (join_pane t pane tree) \<and> set (option_panes (join_pane t pane tree)) = insert (p_id pane) (set (option_panes tree)) \<and>
    (\<not> keep (p_id pane) \<longrightarrow> option_prune keep (join_pane t pane tree) = option_prune keep tree)"
proof (cases tree)
  case None
  then show ?thesis by (simp add: join_pane_def option_ok_def option_panes_def option_prune_def)
next
  case (Some u)
  show ?thesis
  proof (cases "p_id pane \<in> set (tree_panes u)")
    case True
    then have "join_pane t pane tree = tree" by (simp add: join_pane_def Some)
    then show ?thesis using True assms Some by (auto simp: option_panes_def)
  next
    case False
    have u: "distinct (tree_panes u)" "\<forall>r\<in>set (tree_ratios u). ratio_valid r" using assms Some by (simp_all add: option_ok_def)
    define fallback where "fallback = (if tree_contains (t_root_pane t) u then t_root_pane t else tree_first u)"
    define source where "source = (case p_source pane of Some i \<Rightarrow> if tree_contains i u then i else fallback | None \<Rightarrow> fallback)"
    have source: "source \<in> set (tree_panes u)" "join_pane t pane tree = Some (tree_insert source (p_id pane) (p_side pane) u)"
      using False by (auto simp: join_pane_def Some Let_def source_def fallback_def split: option.split)
    let ?v = "tree_insert source (p_id pane) (p_side pane) u"
    have m: "mset (tree_panes ?v) = mset (p_id pane # tree_panes u)" using insert_panes [OF u(1) source(1)] by simp
    have "distinct (tree_panes ?v)" using False u(1) mset_eq_imp_distinct_iff [OF m] by simp
    moreover have "set (tree_panes ?v) = insert (p_id pane) (set (tree_panes u))" using mset_eq_setD [OF m] by simp
    moreover have "\<forall>r\<in>set (tree_ratios ?v). ratio_valid r" using insert_ratios u(2) tree_half_valid by blast
    ultimately show ?thesis unfolding source(2)
      by (simp add: Some option_ok_def option_panes_def option_prune_def prune_insert)
  qed
qed

lemma join_panes_law:
  assumes "option_ok tree"
  shows "option_ok (fold (join_pane t) ps tree) \<and> set (option_panes (fold (join_pane t) ps tree)) = p_id ` set ps \<union> set (option_panes tree) \<and>
    ((\<forall>pane\<in>set ps. keep (p_id pane) \<longrightarrow> p_id pane \<in> set (option_panes tree)) \<longrightarrow>
      option_prune keep (fold (join_pane t) ps tree) = option_prune keep tree)"
  using assms
proof (induction ps arbitrary: tree)
  case (Cons pane ps)
  note step = join_pane_law [OF Cons.prems, of t pane]
  note rest = Cons.IH [of "join_pane t pane tree"]
  have "option_prune keep (join_pane t pane tree) = option_prune keep tree" if "keep (p_id pane) \<longrightarrow> p_id pane \<in> set (option_panes tree)"
  proof (cases "p_id pane \<in> set (option_panes tree)")
    case True
    then have "join_pane t pane tree = tree" by (auto simp: join_pane_def option_panes_def split: option.splits)
    then show ?thesis by simp
  qed (use step that in blast)
  then show ?case using step rest by auto
qed simp

lemma join_panes_same:
  "p_id ` set ps \<subseteq> set (tree_panes u) \<Longrightarrow> fold (join_pane t) ps (Some u) = Some u"
  by (induction ps) (auto simp: join_pane_def)

section \<open>Reconciling a layout\<close>

definition stored_tree :: "layout \<Rightarrow> layout_tree option" where
  "stored_tree nodes = (if layout_valid nodes then (case tree_at nodes (\<lambda>_. True) 0 of Some t \<Rightarrow> t | None \<Rightarrow> None) else None)"

definition in_tab :: "tab \<Rightarrow> Id \<Rightarrow> bool" where
  "in_tab t p \<longleftrightarrow> p \<in> p_id ` set (t_panes t)"

lemma in_tab_list_ex: "list_ex (\<lambda>pane. p_id pane = i) (t_panes t) \<longleftrightarrow> in_tab t i"
  by (auto simp: in_tab_def list_ex_iff)

lemma stored_tree_valid:
  assumes "layout_valid nodes"
  shows "\<exists>u. stored_tree nodes = Some u \<and> (\<forall>keep. tree_at nodes keep 0 = Some (prune keep u)) \<and> option_ok (Some u) \<and>
    set (tree_panes u) = set (layout_panes nodes)"
proof -
  obtain u vs where u: "reads nodes 0 u vs" "mset (tree_panes u) = mset (layout_panes nodes)" "distinct (tree_panes u)"
    "\<forall>r\<in>set (tree_ratios u). ratio_valid r" using layout_valid_tree [OF assms] by blast
  then show ?thesis using assms tree_at_reads [OF u(1)] prune_all [of u "\<lambda>_. True"] mset_eq_setD [OF u(2)]
    by (simp add: stored_tree_def option_ok_def)
qed

lemma reconcile_tree:
  "\<exists>tree. reconcile_layout t nodes = Some (case tree of None \<Rightarrow> [] | Some u \<Rightarrow> tree_flatten 0 u) \<and> option_ok tree \<and>
     set (option_panes tree) = p_id ` set (t_panes t) \<and>
     option_prune (\<lambda>p. p \<in> set (option_panes (stored_tree nodes))) tree = option_prune (in_tab t) (stored_tree nodes)"
proof -
  let ?start = "option_prune (in_tab t) (stored_tree nodes)"
  let ?tree = "fold (join_pane t) (t_panes t) ?start"
  let ?stored = "\<lambda>p. p \<in> set (option_panes (stored_tree nodes))"
  have run: "reconcile_layout t nodes = Some (case ?tree of None \<Rightarrow> [] | Some u \<Rightarrow> tree_flatten 0 u)"
  proof (cases "layout_valid nodes")
    case True
    then show ?thesis using stored_tree_valid [OF True] by (auto simp: reconcile_layout_def in_tab_list_ex option_prune_def)
  next
    case False
    then show ?thesis by (simp add: reconcile_layout_def option_prune_def stored_tree_def)
  qed
  have start: "option_ok ?start \<and> set (option_panes ?start) = {p \<in> set (option_panes (stored_tree nodes)). in_tab t p} \<and>
      option_prune ?stored ?start = ?start"
  proof (cases "stored_tree nodes")
    case (Some u)
    then have "layout_valid nodes" by (auto simp: stored_tree_def split: if_splits)
    then have ok: "distinct (tree_panes u)" "\<forall>r\<in>set (tree_ratios u). ratio_valid r"
      using stored_tree_valid [of nodes] Some by (auto simp: option_ok_def)
    show ?thesis
    proof (cases "prune (in_tab t) u")
      case None
      then show ?thesis using prune_panes [of "in_tab t" u] Some
        by (auto simp: option_prune_def option_ok_def option_panes_def filter_empty_conv)
    next
      case v: (Some v)
      then have panes: "tree_panes v = filter (in_tab t) (tree_panes u)" using prune_panes [of "in_tab t" u] by simp
      then have "prune ?stored v = Some v" by (intro prune_all) (simp add: Some option_panes_def)
      then show ?thesis using ok panes prune_ratios [OF v] v Some by (auto simp: option_prune_def option_ok_def option_panes_def)
    qed
  qed (simp add: option_prune_def option_ok_def option_panes_def)
  have keep: "\<forall>pane\<in>set (t_panes t). ?stored (p_id pane) \<longrightarrow> p_id pane \<in> set (option_panes ?start)"
    using start by (auto simp: in_tab_def)
  note law = join_panes_law [of ?start t "t_panes t" ?stored]
  have "set (option_panes ?tree) = p_id ` set (t_panes t)" using law start by (auto simp: in_tab_def)
  then show ?thesis using law start keep run by (intro exI [of _ ?tree]) simp
qed

lemma reconcile_valid:
  assumes "t_panes t \<noteq> []" "length (t_panes t) \<le> MAX_PANES" "reconcile_layout t nodes = Some l"
  shows "\<exists>u. l = tree_flatten 0 u \<and> option_ok (Some u) \<and> set (tree_panes u) = p_id ` set (t_panes t) \<and> layout_valid l \<and>
    stored_tree l = Some u \<and>
    prune (\<lambda>p. p \<in> set (option_panes (stored_tree nodes))) u = option_prune (in_tab t) (stored_tree nodes)"
proof -
  obtain tree where tree: "l = (case tree of None \<Rightarrow> [] | Some u \<Rightarrow> tree_flatten 0 u)" "option_ok tree"
    "set (option_panes tree) = p_id ` set (t_panes t)"
    "option_prune (\<lambda>p. p \<in> set (option_panes (stored_tree nodes))) tree = option_prune (in_tab t) (stored_tree nodes)"
    using reconcile_tree [of t nodes] assms(3) by auto
  obtain u where u: "tree = Some u" using tree(3) assms(1) by (cases tree) (auto simp: option_panes_def)
  have d: "distinct (tree_panes u)" "\<forall>r\<in>set (tree_ratios u). ratio_valid r" using tree(2) u by (simp_all add: option_ok_def)
  have "length (tree_panes u) = card (p_id ` set (t_panes t))" using tree(3) u distinct_card [OF d(1)] by (simp add: option_panes_def)
  also have "\<dots> \<le> MAX_PANES" using card_image_le [of "set (t_panes t)" p_id] card_length [of "t_panes t"] assms(2) by simp
  finally have valid: "layout_valid l" using flatten_valid [OF d] tree(1) u by simp
  obtain vs where "reads l 0 u vs" using flatten_reads [of "[]" u "[]"] tree(1) u by auto
  then have "stored_tree l = Some u" using valid prune_all [of u "\<lambda>_. True"] by (simp add: stored_tree_def tree_at_reads)
  then show ?thesis using tree u valid by (intro exI [of _ u]) (simp add: option_panes_def option_prune_def)
qed

lemma reconcile_again:
  assumes "length (t_panes t) \<le> MAX_PANES" "reconcile_layout t nodes = Some l"
  shows "reconcile_layout t l = Some l"
proof (cases "t_panes t = []")
  case True
  obtain tree where tree: "l = (case tree of None \<Rightarrow> [] | Some u \<Rightarrow> tree_flatten 0 u)" "set (option_panes tree) = {}"
    using reconcile_tree [of t nodes] assms(2) True by auto
  have "tree = None"
  proof (cases tree)
    case (Some u)
    then show ?thesis using tree(2) tree_first_in [of u] by (simp add: option_panes_def)
  qed simp
  then have "l = []" using tree(1) by simp
  then show ?thesis using True by (simp add: reconcile_layout_def layout_valid_def)
next
  case False
  obtain u where u: "l = tree_flatten 0 u" "set (tree_panes u) = p_id ` set (t_panes t)" "layout_valid l" "stored_tree l = Some u"
    using reconcile_valid [OF False assms] by blast
  have "tree_at l (in_tab t) 0 = Some (Some u)"
    using stored_tree_valid [OF u(3)] u(2,4) prune_all [of u "in_tab t"] by (auto simp: in_tab_def)
  then show ?thesis using u join_panes_same [of "t_panes t" u t] by (simp add: reconcile_layout_def in_tab_list_ex)
qed

text \<open>
  C32. Whatever a client has stored, reconciling it returns: a layout is only walked after its check, which
  admits no cycle. The check is what makes the walk end: a stored node that is its own child is walked
  forever.
\<close>

theorem reconcile_ends_on_any_stored_layout:
  "(\<exists>l. reconcile_layout t nodes = Some l) \<and> tree_at [LayoutSplit axis ratio 0 0] keep 0 = None \<and>
   \<not> layout_valid [LayoutSplit axis ratio 0 0]"
  using reconcile_layout_returns [of t nodes] cyclic_traversal_does_not_end by (simp add: layout_valid_def)

lemma layout_valid_flatten_iff:
  "layout_valid (tree_flatten 0 u) \<longleftrightarrow>
     distinct (tree_panes u) \<and> (\<forall>r\<in>set (tree_ratios u). ratio_valid r) \<and> length (tree_panes u) \<le> MAX_PANES"
proof
  assume valid: "layout_valid (tree_flatten 0 u)"
  obtain vs where r: "reads (tree_flatten 0 u) 0 u vs" using flatten_reads [of "[]" u "[]"] by auto
  have "is_tree (tree_flatten 0 u)" "length (tree_flatten 0 u) \<le> 2 * MAX_PANES - 1" using valid by (simp_all add: layout_valid_iff)
  then show "distinct (tree_panes u) \<and> (\<forall>r\<in>set (tree_ratios u). ratio_valid r) \<and> length (tree_panes u) \<le> MAX_PANES"
    using reads_ratios [OF r] length_flatten [of 0 u] by (simp add: is_tree_def MAX_PANES_def)
qed (auto intro: flatten_valid)

text \<open>
  C33. Writing a tree of Panes as a flat layout and reading it back gives the tree, pruned to the Panes asked for;
  and the written layout passes the check exactly when its Panes are distinct, its ratios lie between zero and
  one, and there are no more Panes than the server allows.
\<close>

theorem layout_round_trip:
  "tree_at (tree_flatten 0 u) keep 0 = Some (prune keep u) \<and> prune (\<lambda>_. True) u = Some u \<and>
   (layout_valid (tree_flatten 0 u) \<longleftrightarrow>
      distinct (tree_panes u) \<and> list_all ratio_valid (tree_ratios u) \<and> length (tree_panes u) \<le> MAX_PANES)"
proof -
  obtain vs where "reads (tree_flatten 0 u) 0 u vs" using flatten_reads [of "[]" u "[]"] by auto
  then show ?thesis using layout_valid_flatten_iff [of u] prune_all [of u "\<lambda>_. True"] by (simp add: tree_at_reads list_all_iff)
qed

text \<open>
  C34. Reconciling a stored layout with a Tab gives a layout that passes the check and has exactly the Tab's Panes,
  each once. The Panes that were stored and are still there keep their arrangement and ratios, as if the others
  had only been taken out of the stored tree. Reconciling again changes nothing.
\<close>

theorem reconcile_keeps_arrangement:
  assumes "t_panes t \<noteq> []" "length (t_panes t) \<le> MAX_PANES" "reconcile_layout t nodes = Some l"
  shows "layout_valid l \<and> set (layout_panes l) = p_id ` set (t_panes t) \<and> distinct (layout_panes l) \<and>
    option_prune (\<lambda>p. p \<in> set (option_panes (stored_tree nodes))) (stored_tree l) = option_prune (in_tab t) (stored_tree nodes) \<and>
    reconcile_layout t l = Some l"
  using reconcile_valid [OF assms] reconcile_again [OF assms(2,3)] by (auto simp: option_ok_def option_prune_def)

text \<open>A Tab of three Panes and a stored layout that knows one of them and one that is gone.\<close>

definition demo_tab :: tab where
  "demo_tab =
     \<lparr>t_membership = Following, t_worktree = None, t_worktree_repository = None, t_id = 2, t_root_pane = 3,
      t_panes = [new_pane 3 None SideRight [47] None, new_pane 4 (Some 3) SideDown [47] None, new_pane 5 (Some 4) SideLeft [47] None]\<rparr>"

definition demo_layout :: layout where
  "demo_layout = [LayoutSplit AxisRight tree_half 1 2, LayoutPane 9, LayoutPane 4]"

theorem reconcile_keeps_arrangement_witness:
  "\<exists>l. t_panes demo_tab \<noteq> [] \<and> length (t_panes demo_tab) \<le> MAX_PANES \<and> reconcile_layout demo_tab demo_layout = Some l \<and>
     layout_valid l \<and> set (layout_panes l) = p_id ` set (t_panes demo_tab) \<and> distinct (layout_panes l) \<and>
     option_prune (\<lambda>p. p \<in> set (option_panes (stored_tree demo_layout))) (stored_tree l) =
       option_prune (in_tab demo_tab) (stored_tree demo_layout) \<and>
     reconcile_layout demo_tab l = Some l"
proof -
  obtain l where l: "reconcile_layout demo_tab demo_layout = Some l" using reconcile_layout_returns by blast
  have h: "t_panes demo_tab \<noteq> []" "length (t_panes demo_tab) \<le> MAX_PANES" by (simp_all add: demo_tab_def MAX_PANES_def)
  show ?thesis using reconcile_keeps_arrangement [OF h l] h l by blast
qed

end
