(* ===== verification/Arrangements.thy ===== *)
theory Arrangements
  imports Layout_Views Outcomes
begin

text \<open>
  The arrangements of whole Workspaces: the order of their Tabs, and that what a client makes of its stored
  arrangements for a state its server holds is accepted by the check of the stored arrangements. The copy of
  an inventory is accepted by its own check, and presenting it loses nothing of the structure.
\<close>

section \<open>The order of Tabs\<close>

definition presents :: "tab_view \<Rightarrow> tab \<Rightarrow> bool" where
  "presents e t \<longleftrightarrow> tv_tab e = t_id t \<and> (\<exists>nodes. reconcile_layout t nodes = Some (tv_layout e))"

lemma view_of_presents: "\<exists>e. view_of t nodes = Some e \<and> presents e t"
  using view_of_returns [of t nodes] by (force simp: presents_def)

lemma saved_views:
  "\<exists>es. all_some (List.map_filter (\<lambda>v. map_option (\<lambda>t. view_of t (tv_layout v)) (List.find (\<lambda>t. t_id t = tv_tab v) ts)) vs) = Some es \<and>
     list_all2 presents es (List.map_filter (\<lambda>v. List.find (\<lambda>t. t_id t = tv_tab v) ts) vs)"
proof (induction vs)
  case (Cons v vs)
  then obtain es where es: "all_some (List.map_filter (\<lambda>v. map_option (\<lambda>t. view_of t (tv_layout v)) (List.find (\<lambda>t. t_id t = tv_tab v) ts)) vs) = Some es"
    "list_all2 presents es (List.map_filter (\<lambda>v. List.find (\<lambda>t. t_id t = tv_tab v) ts) vs)" by blast
  show ?case
  proof (cases "List.find (\<lambda>t. t_id t = tv_tab v) ts")
    case None
    then show ?thesis using es by (simp add: map_filter_simps)
  next
    case (Some t)
    obtain e where "view_of t (tv_layout v) = Some e" "presents e t" using view_of_presents by blast
    then show ?thesis using es Some by (simp add: map_filter_simps)
  qed
qed (simp add: map_filter_simps)

lemma listed_iff: "list_ex (\<lambda>v. tv_tab v = i) es \<longleftrightarrow> i \<in> tv_tab ` set es"
  by (auto simp: list_ex_iff)

lemma appended_views:
  "distinct (map t_id ts) \<Longrightarrow>
   \<exists>es'. fold (\<lambda>t tabs. case tabs of
          None \<Rightarrow> None
        | Some tabs \<Rightarrow> if list_ex (\<lambda>v. tv_tab v = t_id t) tabs then Some tabs else map_option (\<lambda>v. tabs @ [v]) (view_of t []))
      ts (Some es) = Some (es @ es') \<and> list_all2 presents es' (filter (\<lambda>t. t_id t \<notin> tv_tab ` set es) ts)"
proof (induction ts arbitrary: es)
  case (Cons t ts)
  show ?case
  proof (cases "t_id t \<in> tv_tab ` set es")
    case True
    then have "list_ex (\<lambda>v. tv_tab v = t_id t) es" by (simp add: listed_iff)
    then show ?thesis using Cons True by simp
  next
    case False
    then have no: "\<not> list_ex (\<lambda>v. tv_tab v = t_id t) es" by (simp add: listed_iff)
    obtain e where e: "view_of t [] = Some e" "presents e t" using view_of_presents by blast
    obtain es' where es': "fold (\<lambda>t tabs. case tabs of
          None \<Rightarrow> None
        | Some tabs \<Rightarrow> if list_ex (\<lambda>v. tv_tab v = t_id t) tabs then Some tabs else map_option (\<lambda>v. tabs @ [v]) (view_of t []))
      ts (Some (es @ [e])) = Some ((es @ [e]) @ es')" "list_all2 presents es' (filter (\<lambda>t. t_id t \<notin> tv_tab ` set (es @ [e])) ts)"
      using Cons.IH [of "es @ [e]"] Cons.prems by auto
    have "filter (\<lambda>t. t_id t \<notin> tv_tab ` set (es @ [e])) ts = filter (\<lambda>t. t_id t \<notin> tv_tab ` set es) ts"
    proof (rule filter_cong [OF refl])
      fix x assume "x \<in> set ts"
      then have "t_id x \<noteq> t_id t" using Cons.prems by (metis distinct.simps(2) image_eqI list.set_map list.simps(9))
      then show "t_id x \<notin> tv_tab ` set (es @ [e]) \<longleftrightarrow> t_id x \<notin> tv_tab ` set es" using e(2) by (simp add: presents_def)
    qed
    then show ?thesis using es' e no False by (intro exI [of _ "e # es'"]) simp
  qed
qed simp

definition kept_tabs :: "workspace \<Rightarrow> workspace_view \<Rightarrow> tab list" where
  "kept_tabs w view = List.map_filter (\<lambda>v. List.find (\<lambda>t. t_id t = tv_tab v) (w_tabs w)) (wv_tabs view)"

definition arranged_tabs :: "workspace \<Rightarrow> workspace_view \<Rightarrow> tab list" where
  "arranged_tabs w view = kept_tabs w view @ filter (\<lambda>t. t_id t \<notin> tv_tab ` set (wv_tabs view)) (w_tabs w)"

lemma find_tab_iff:
  "distinct (map t_id ts) \<Longrightarrow> List.find (\<lambda>t. t_id t = i) ts = Some t \<longleftrightarrow> t \<in> set ts \<and> t_id t = i"
  by (induction ts) (auto simp: image_iff)

lemma in_map_filter: "y \<in> set (List.map_filter f xs) \<longleftrightarrow> (\<exists>x\<in>set xs. f x = Some y)"
  by (induction xs) (auto simp: map_filter_simps split: option.split)

lemma set_kept_tabs:
  "distinct (map t_id (w_tabs w)) \<Longrightarrow> set (kept_tabs w view) = {t \<in> set (w_tabs w). t_id t \<in> tv_tab ` set (wv_tabs view)}"
  by (auto simp: kept_tabs_def in_map_filter find_tab_iff)

lemma kept_tabs_ids:
  assumes "distinct (map t_id (w_tabs w))"
  shows "map t_id (kept_tabs w view) = filter (\<lambda>i. i \<in> t_id ` set (w_tabs w)) (map tv_tab (wv_tabs view))"
  unfolding kept_tabs_def
proof (induction "wv_tabs view" arbitrary: view)
  case (Cons v vs)
  show ?case
  proof (cases "List.find (\<lambda>t. t_id t = tv_tab v) (w_tabs w)")
    case None
    then have "tv_tab v \<notin> t_id ` set (w_tabs w)" by (auto simp: find_None_iff)
    then show ?thesis using None Cons(1) [of "view\<lparr>wv_tabs := vs\<rparr>"] by (simp flip: Cons(2) add: map_filter_simps)
  next
    case (Some t)
    then have "t_id t = tv_tab v" "tv_tab v \<in> t_id ` set (w_tabs w)" using assms by (auto simp: find_tab_iff intro: rev_image_eqI)
    then show ?thesis using Some Cons(1) [of "view\<lparr>wv_tabs := vs\<rparr>"] by (auto simp flip: Cons(2) simp add: map_filter_simps)
  qed
qed (simp add: map_filter_simps)

lemma arranged_tabs_perm:
  assumes "distinct (map t_id (w_tabs w))" "distinct (map tv_tab (wv_tabs view))"
  shows "mset (arranged_tabs w view) = mset (w_tabs w)"
proof -
  have "distinct (map t_id (kept_tabs w view))" unfolding kept_tabs_ids [OF assms(1)] using assms(2) by simp
  then have "distinct (kept_tabs w view)" by (simp add: distinct_map)
  moreover have "distinct (w_tabs w)" using assms(1) by (simp add: distinct_map)
  moreover have "set (kept_tabs w view) \<inter> {t \<in> set (w_tabs w). t_id t \<notin> tv_tab ` set (wv_tabs view)} = {}"
    using set_kept_tabs [OF assms(1)] by auto
  ultimately have "distinct (arranged_tabs w view)" "distinct (w_tabs w)" by (simp_all add: arranged_tabs_def)
  moreover have "set (arranged_tabs w view) = set (w_tabs w)" using set_kept_tabs [OF assms(1)] by (auto simp: arranged_tabs_def)
  ultimately show ?thesis by (simp add: set_eq_iff_mset_eq_distinct)
qed

lemma reconcile_view_spec:
  assumes "distinct (map t_id (w_tabs w))"
  shows "\<exists>v. reconcile_view w view = Some v \<and> wv_workspace v = w_id w \<and> list_all2 presents (wv_tabs v) (arranged_tabs w view)"
proof -
  obtain es where es: "all_some (List.map_filter (\<lambda>v. map_option (\<lambda>t. view_of t (tv_layout v)) (List.find (\<lambda>t. t_id t = tv_tab v) (w_tabs w))) (wv_tabs view)) = Some es"
    "list_all2 presents es (kept_tabs w view)" using saved_views [of "w_tabs w" "wv_tabs view"] by (auto simp: kept_tabs_def)
  have ids: "tv_tab ` set es = t_id ` set (kept_tabs w view)"
  proof -
    have "map tv_tab es = map t_id (kept_tabs w view)" using es(2) by (induction rule: list_all2_induct) (simp_all add: presents_def)
    then show ?thesis by (metis list.set_map)
  qed
  have "filter (\<lambda>t. t_id t \<notin> tv_tab ` set es) (w_tabs w) = filter (\<lambda>t. t_id t \<notin> tv_tab ` set (wv_tabs view)) (w_tabs w)"
    unfolding ids set_kept_tabs [OF assms] by (intro filter_cong) auto
  then show ?thesis using es appended_views [OF assms, of es]
    by (auto simp: reconcile_view_def arranged_tabs_def intro: list_all2_appendI)
qed

section \<open>The check of stored arrangements\<close>

abbreviation view_tabs :: "workspace_view \<Rightarrow> Id list" where
  "view_tabs v \<equiv> map tv_tab (wv_tabs v)"

abbreviation view_panes :: "workspace_view \<Rightarrow> Id list" where
  "view_panes v \<equiv> concat (map (\<lambda>e. layout_panes (tv_layout e)) (wv_tabs v))"

text \<open>Identities that are distinct and not among those seen.\<close>

definition fresh :: "'a list \<Rightarrow> 'a list \<Rightarrow> bool" where
  "fresh xs seen \<longleftrightarrow> distinct xs \<and> set xs \<inter> set seen = {}"

lemma fresh_simps [simp]:
  "fresh [] seen" "fresh (x # xs) seen \<longleftrightarrow> x \<notin> set seen \<and> fresh xs (x # seen)"
  "fresh (xs @ ys) seen \<longleftrightarrow> fresh xs seen \<and> fresh ys (rev xs @ seen)" "fresh xs [] \<longleftrightarrow> distinct xs"
  by (auto simp: fresh_def)

lemma insert_all_iff: "insert_all ps seen = Some seen' \<longleftrightarrow> fresh ps seen \<and> seen' = rev ps @ seen"
  by (induction ps arbitrary: seen) auto

lemma validate_tab_views_iff:
  "validate_tab_views vs (tabs, panes) = Some (tabs', panes') \<longleftrightarrow>
     (\<forall>v\<in>set vs. layout_valid (tv_layout v)) \<and> fresh (map tv_tab vs) tabs \<and>
     fresh (concat (map (\<lambda>e. layout_panes (tv_layout e)) vs)) panes \<and>
     tabs' = rev (map tv_tab vs) @ tabs \<and> panes' = rev (concat (map (\<lambda>e. layout_panes (tv_layout e)) vs)) @ panes"
proof (induction vs arbitrary: tabs panes)
  case (Cons v vs)
  have step: "validate_tab_views (v # vs) (tabs, panes) = Some (tabs', panes') \<longleftrightarrow>
      tv_tab v \<notin> set tabs \<and> layout_valid (tv_layout v) \<and>
      (\<exists>seen. insert_all (layout_panes (tv_layout v)) panes = Some seen \<and> validate_tab_views vs (tv_tab v # tabs, seen) = Some (tabs', panes'))"
    by (auto split: option.splits)
  show ?case unfolding step insert_all_iff Cons.IH by auto
qed auto

lemma validate_workspace_views_iff:
  "validate_workspace_views vs (spaces, tabs, panes) = Some (spaces', tabs', panes') \<longleftrightarrow>
     (\<forall>v\<in>set vs. \<forall>e\<in>set (wv_tabs v). layout_valid (tv_layout e)) \<and>
     fresh (map wv_workspace vs) spaces \<and> fresh (concat (map view_tabs vs)) tabs \<and> fresh (concat (map view_panes vs)) panes \<and>
     spaces' = rev (map wv_workspace vs) @ spaces \<and> tabs' = rev (concat (map view_tabs vs)) @ tabs \<and>
     panes' = rev (concat (map view_panes vs)) @ panes"
proof (induction vs arbitrary: spaces tabs panes)
  case (Cons v vs)
  have step: "validate_workspace_views (v # vs) (spaces, tabs, panes) = Some (spaces', tabs', panes') \<longleftrightarrow>
      wv_workspace v \<notin> set spaces \<and>
      (\<exists>seen seen'. validate_tab_views (wv_tabs v) (tabs, panes) = Some (seen, seen') \<and>
         validate_workspace_views vs (wv_workspace v # spaces, seen, seen') = Some (spaces', tabs', panes'))"
    by (auto split: option.splits)
  show ?case unfolding step validate_tab_views_iff Cons.IH by auto
qed auto

lemma client_view_valid_iff:
  "client_view_valid view \<longleftrightarrow>
     (\<forall>v\<in>set view. \<forall>e\<in>set (wv_tabs v). layout_valid (tv_layout e)) \<and> distinct (map wv_workspace view) \<and>
     distinct (concat (map view_tabs view)) \<and> distinct (concat (map view_panes view)) \<and>
     length view \<le> MAX_WORKSPACES \<and> length (concat (map view_tabs view)) \<le> MAX_TABS \<and> length (concat (map view_panes view)) \<le> MAX_PANES"
proof (cases "validate_workspace_views view ([], [], [])")
  case None
  then show ?thesis
    using validate_workspace_views_iff [of view "[]" "[]" "[]" "rev (map wv_workspace view)" "rev (concat (map view_tabs view))" "rev (concat (map view_panes view))"]
    by (auto simp: client_view_valid_def)
next
  case (Some x)
  then obtain a b c where x: "validate_workspace_views view ([], [], []) = Some (a, b, c)" by (cases x) auto
  have "client_view_valid view \<longleftrightarrow> length a \<le> MAX_WORKSPACES \<and> length b \<le> MAX_TABS \<and> length c \<le> MAX_PANES"
    unfolding client_view_valid_def x by (simp add: not_less)
  then show ?thesis using x [unfolded validate_workspace_views_iff] by auto
qed

section \<open>Arrangements of a valid state\<close>

definition tab_sound :: "tab \<Rightarrow> bool" where
  "tab_sound t \<longleftrightarrow> t_panes t \<noteq> [] \<and> length (t_panes t) \<le> MAX_PANES \<and> distinct (map p_id (t_panes t))"

lemma presents_panes:
  assumes "presents e t" "tab_sound t"
  shows "layout_valid (tv_layout e) \<and> mset (layout_panes (tv_layout e)) = mset (map p_id (t_panes t))"
proof -
  obtain nodes where l: "reconcile_layout t nodes = Some (tv_layout e)" using assms(1) by (auto simp: presents_def)
  obtain u where u: "tv_layout e = tree_flatten 0 u" "option_ok (Some u)" "set (tree_panes u) = p_id ` set (t_panes t)" "layout_valid (tv_layout e)"
    using reconcile_valid [OF _ _ l] assms(2) by (auto simp: tab_sound_def)
  have "mset (tree_panes u) = mset (map p_id (t_panes t))"
    using u(2,3) assms(2) by (subst set_eq_iff_mset_eq_distinct [symmetric]) (simp_all add: option_ok_def tab_sound_def)
  then show ?thesis using u by simp
qed

lemma presented_views:
  assumes "list_all2 presents es ts" "\<forall>t\<in>set ts. tab_sound t"
  shows "(\<forall>e\<in>set es. layout_valid (tv_layout e)) \<and> mset (map tv_tab es) = mset (map t_id ts) \<and>
    mset (concat (map (\<lambda>e. layout_panes (tv_layout e)) es)) = mset (map p_id (concat (map t_panes ts)))"
  using assms
proof (induction rule: list_all2_induct)
  case (Cons e es t ts)
  then show ?case using presents_panes [of e t] by (auto simp: presents_def)
qed simp

lemma reconciled_workspace:
  assumes "distinct (map t_id (w_tabs w))" "distinct (view_tabs view)" "\<forall>t\<in>set (w_tabs w). tab_sound t"
  shows "\<exists>v. reconcile_view w view = Some v \<and> wv_workspace v = w_id w \<and> (\<forall>e\<in>set (wv_tabs v). layout_valid (tv_layout e)) \<and>
    mset (view_tabs v) = mset (map t_id (w_tabs w)) \<and> mset (view_panes v) = mset (map p_id (workspace_panes w)) \<and>
    view_tabs v = filter (\<lambda>i. i \<in> t_id ` set (w_tabs w)) (view_tabs view) @ filter (\<lambda>i. i \<notin> set (view_tabs view)) (map t_id (w_tabs w))"
proof -
  obtain v where v: "reconcile_view w view = Some v" "wv_workspace v = w_id w" "list_all2 presents (wv_tabs v) (arranged_tabs w view)"
    using reconcile_view_spec [OF assms(1)] by blast
  have perm: "mset (arranged_tabs w view) = mset (w_tabs w)" by (rule arranged_tabs_perm [OF assms(1,2)])
  note tabs = presented_views [OF v(3)]
  have "\<forall>t\<in>set (arranged_tabs w view). tab_sound t" using assms(3) mset_eq_setD [OF perm] by simp
  note tabs = presented_views [OF v(3) this]
  have "mset (map t_id (arranged_tabs w view)) = mset (map t_id (w_tabs w))" using perm by simp
  then have m: "mset (view_tabs v) = mset (map t_id (w_tabs w))" using tabs by metis
  have "mset (map p_id (concat (map t_panes (arranged_tabs w view)))) = mset (map p_id (workspace_panes w))"
    unfolding workspace_panes_def mset_map mset_concat_map perm ..
  then have p: "mset (view_panes v) = mset (map p_id (workspace_panes w))" using tabs by metis
  have "view_tabs v = map t_id (arranged_tabs w view)"
    using v(3) by (induction rule: list_all2_induct) (simp_all add: presents_def)
  also have "\<dots> = filter (\<lambda>i. i \<in> t_id ` set (w_tabs w)) (view_tabs view) @ filter (\<lambda>i. i \<notin> set (view_tabs view)) (map t_id (w_tabs w))"
    by (simp add: arranged_tabs_def kept_tabs_ids [OF assms(1)] filter_map comp_def)
  finally show ?thesis using v(1,2) tabs m p by blast
qed

lemma concat_app: "mset (concat (map (\<lambda>x. f x @ g x) xs)) = mset (concat (map f xs)) + mset (concat (map g xs))"
  by (induction xs) simp_all

lemma mset_workspace_ids:
  "mset (workspace_ids w) = add_mset (w_id w) (mset (map t_id (w_tabs w)) + mset (map p_id (workspace_panes w)))"
proof -
  have "mset (concat (map tab_ids ts)) = mset (map t_id ts) + mset (map p_id (concat (map t_panes ts)))" for ts
    by (induction ts) (simp_all add: tab_ids_def)
  then show ?thesis by (simp add: workspace_ids_def workspace_panes_def)
qed

lemma mset_all_ids:
  "mset (concat (map workspace_ids ws)) = mset (map w_id ws @ concat (map (\<lambda>w. map t_id (w_tabs w)) ws) @
     concat (map (\<lambda>w. map p_id (workspace_panes w)) ws))"
  by (induction ws) (simp_all add: mset_workspace_ids)

lemma length_concat_member: "x \<in> set xs \<Longrightarrow> length (f x) \<le> length (concat (map f xs))"
  by (induction xs) auto

lemma valid_state_tabs:
  assumes "validate s"
  shows "\<forall>w\<in>set (workspaces s). distinct (map t_id (w_tabs w)) \<and> (\<forall>t\<in>set (w_tabs w). tab_sound t)"
    and "distinct (map w_id (workspaces s))"
    and "distinct (concat (map (\<lambda>w. map t_id (w_tabs w)) (workspaces s)))"
    and "distinct (concat (map (\<lambda>w. map p_id (workspace_panes w)) (workspaces s)))"
    and "length (workspaces s) \<le> MAX_WORKSPACES"
    and "length (concat (map (\<lambda>w. map t_id (w_tabs w)) (workspaces s))) \<le> MAX_TABS"
    and "length (concat (map (\<lambda>w. map p_id (workspace_panes w)) (workspaces s))) \<le> MAX_PANES"
proof -
  let ?ws = "workspaces s"
  obtain ids where "validate_workspaces [] ?ws = Some ids" using assms by (auto simp: validate_def)
  then have ok: "\<forall>w\<in>set ?ws. workspace_ok w" and d: "distinct (concat (map workspace_ids ?ws))"
    by (simp_all add: validate_workspaces_iff)
  have d: "distinct (map w_id ?ws @ concat (map (\<lambda>w. map t_id (w_tabs w)) ?ws) @ concat (map (\<lambda>w. map p_id (workspace_panes w)) ?ws))"
    using d mset_eq_imp_distinct_iff [OF mset_all_ids [of ?ws]] by simp
  show w: "distinct (map w_id ?ws)" and t: "distinct (concat (map (\<lambda>w. map t_id (w_tabs w)) ?ws))"
    and p: "distinct (concat (map (\<lambda>w. map p_id (workspace_panes w)) ?ws))" using d by auto
  have limits: "length ?ws \<le> MAX_WORKSPACES" "tab_count s \<le> MAX_TABS" "pane_count s \<le> MAX_PANES"
    using assms by (auto simp: validate_def validate_limits_def)
  show "length ?ws \<le> MAX_WORKSPACES" by (rule limits(1))
  show "length (concat (map (\<lambda>w. map t_id (w_tabs w)) ?ws)) \<le> MAX_TABS"
    using limits(2) by (simp add: tab_count_def length_concat comp_def)
  have panes: "length (concat (map (\<lambda>w. map p_id (workspace_panes w)) ?ws)) = pane_count s"
  proof -
    have "length (concat (map (\<lambda>w. map p_id (workspace_panes w)) ws)) = sum_list (map (\<lambda>t. length (t_panes t)) (concat (map w_tabs ws)))" for ws
      by (induction ws) (simp_all add: workspace_panes_def length_concat comp_def)
    then show ?thesis by (simp add: pane_count_def)
  qed
  then show pc: "length (concat (map (\<lambda>w. map p_id (workspace_panes w)) ?ws)) \<le> MAX_PANES" using limits(3) by simp
  show "\<forall>w\<in>set ?ws. distinct (map t_id (w_tabs w)) \<and> (\<forall>t\<in>set (w_tabs w). tab_sound t)"
  proof (intro ballI conjI)
    fix w assume w: "w \<in> set ?ws"
    show "distinct (map t_id (w_tabs w))" using t w by (auto dest!: distinct_concat_each)
    fix t assume t: "t \<in> set (w_tabs w)"
    have dp: "distinct (map p_id (workspace_panes w))" using p w by (auto dest!: distinct_concat_each)
    have "map p_id (workspace_panes w) = concat (map (\<lambda>t. map p_id (t_panes t)) (w_tabs w))"
      by (simp add: workspace_panes_def map_concat comp_def)
    then have "distinct (map p_id (t_panes t))" using dp t by (auto dest!: distinct_concat_each)
    moreover have "length (t_panes t) \<le> length (workspace_panes w)"
      unfolding workspace_panes_def using t by (rule length_concat_member)
    moreover have "length (workspace_panes w) \<le> MAX_PANES"
      using length_concat_member [OF w, of "\<lambda>w. map p_id (workspace_panes w)"] pc by simp
    moreover have "t_root_pane t \<in> set (map p_id (t_panes t))" using ok w t unfolding workspace_ok_def by blast
    then have "t_panes t \<noteq> []" by auto
    ultimately show "tab_sound t" by (simp add: tab_sound_def)
  qed
qed

definition reconcile_all :: "workspace list \<Rightarrow> (workspace \<Rightarrow> workspace_view) \<Rightarrow> client_view option" where
  "reconcile_all ws stored = all_some (map (\<lambda>w. reconcile_view w (stored w)) ws)"

lemma reconcile_all_spec:
  assumes "\<forall>w\<in>set ws. distinct (map t_id (w_tabs w)) \<and> (\<forall>t\<in>set (w_tabs w). tab_sound t)" "\<forall>w\<in>set ws. distinct (view_tabs (stored w))"
  shows "\<exists>vs. reconcile_all ws stored = Some vs \<and> map wv_workspace vs = map w_id ws \<and>
    (\<forall>v\<in>set vs. \<forall>e\<in>set (wv_tabs v). layout_valid (tv_layout e)) \<and>
    mset (concat (map view_tabs vs)) = mset (concat (map (\<lambda>w. map t_id (w_tabs w)) ws)) \<and>
    mset (concat (map view_panes vs)) = mset (concat (map (\<lambda>w. map p_id (workspace_panes w)) ws)) \<and>
    map view_tabs vs = map (\<lambda>w. filter (\<lambda>i. i \<in> t_id ` set (w_tabs w)) (view_tabs (stored w)) @
      filter (\<lambda>i. i \<notin> set (view_tabs (stored w))) (map t_id (w_tabs w))) ws"
  using assms
proof (induction ws)
  case (Cons w ws)
  obtain v where v: "reconcile_view w (stored w) = Some v" "wv_workspace v = w_id w" "\<forall>e\<in>set (wv_tabs v). layout_valid (tv_layout e)"
    "mset (view_tabs v) = mset (map t_id (w_tabs w))" "mset (view_panes v) = mset (map p_id (workspace_panes w))"
    "view_tabs v = filter (\<lambda>i. i \<in> t_id ` set (w_tabs w)) (view_tabs (stored w)) @ filter (\<lambda>i. i \<notin> set (view_tabs (stored w))) (map t_id (w_tabs w))"
    using reconciled_workspace [of w "stored w"] Cons.prems by (metis list.set_intros(1))
  obtain vs where vs: "reconcile_all ws stored = Some vs" "map wv_workspace vs = map w_id ws"
    "\<forall>v\<in>set vs. \<forall>e\<in>set (wv_tabs v). layout_valid (tv_layout e)"
    "mset (concat (map view_tabs vs)) = mset (concat (map (\<lambda>w. map t_id (w_tabs w)) ws))"
    "mset (concat (map view_panes vs)) = mset (concat (map (\<lambda>w. map p_id (workspace_panes w)) ws))"
    "map view_tabs vs = map (\<lambda>w. filter (\<lambda>i. i \<in> t_id ` set (w_tabs w)) (view_tabs (stored w)) @
      filter (\<lambda>i. i \<notin> set (view_tabs (stored w))) (map t_id (w_tabs w))) ws"
    using Cons.IH Cons.prems by auto
  have "reconcile_all (w # ws) stored = Some (v # vs)" using v(1) vs(1) by (simp add: reconcile_all_def)
  moreover have "map view_tabs (v # vs) = map (\<lambda>w. filter (\<lambda>i. i \<in> t_id ` set (w_tabs w)) (view_tabs (stored w)) @
      filter (\<lambda>i. i \<notin> set (view_tabs (stored w))) (map t_id (w_tabs w))) (w # ws)"
    using v(6) vs(6) by (simp only: list.map)
  ultimately show ?case using v(2-5) vs(2-5) by (intro exI [of _ "v # vs"] conjI) simp_all
qed (simp add: reconcile_all_def)

text \<open>
  C35. For every state a server's check accepts, and whatever layouts a client has stored for it, reconciling every
  Workspace gives arrangements that the client's own check accepts, so they can be stored again. Each
  Workspace shows the Tabs the client had, in the client's order, and then the Tabs it did not know, in the
  order the server created them.
\<close>

theorem reconciled_arrangements_valid:
  assumes "validate s" "\<forall>w\<in>set (workspaces s). distinct (view_tabs (stored w))"
  shows "\<exists>view. reconcile_all (workspaces s) stored = Some view \<and> client_view_valid view \<and>
    map wv_workspace view = map w_id (workspaces s) \<and>
    map view_tabs view = map (\<lambda>w. filter (\<lambda>i. i \<in> t_id ` set (w_tabs w)) (view_tabs (stored w)) @
      filter (\<lambda>i. i \<notin> set (view_tabs (stored w))) (map t_id (w_tabs w))) (workspaces s)"
proof -
  note s = valid_state_tabs [OF assms(1)]
  obtain vs where vs: "reconcile_all (workspaces s) stored = Some vs" "map wv_workspace vs = map w_id (workspaces s)"
    "\<forall>v\<in>set vs. \<forall>e\<in>set (wv_tabs v). layout_valid (tv_layout e)"
    "mset (concat (map view_tabs vs)) = mset (concat (map (\<lambda>w. map t_id (w_tabs w)) (workspaces s)))"
    "mset (concat (map view_panes vs)) = mset (concat (map (\<lambda>w. map p_id (workspace_panes w)) (workspaces s)))"
    "map view_tabs vs = map (\<lambda>w. filter (\<lambda>i. i \<in> t_id ` set (w_tabs w)) (view_tabs (stored w)) @
      filter (\<lambda>i. i \<notin> set (view_tabs (stored w))) (map t_id (w_tabs w))) (workspaces s)"
    using reconcile_all_spec [OF s(1) assms(2)] by blast
  have "length vs = length (workspaces s)" using vs(2) by (metis length_map)
  then have "client_view_valid vs"
    unfolding client_view_valid_iff
    using vs(2,3) s mset_eq_imp_distinct_iff [OF vs(4)] mset_eq_imp_distinct_iff [OF vs(5)] mset_eq_length [OF vs(4)] mset_eq_length [OF vs(5)]
    by metis
  then show ?thesis using vs by blast
qed

theorem reconciled_arrangements_valid_witness:
  "validate demo_state \<and>
   list_all (\<lambda>w. distinct (view_tabs \<lparr>wv_workspace = w_id w, wv_tabs = [\<lparr>tv_tab = 8, tv_layout = demo_layout\<rparr>]\<rparr>)) (workspaces demo_state) \<and>
   (\<exists>view. reconcile_all (workspaces demo_state) (\<lambda>w. \<lparr>wv_workspace = w_id w, wv_tabs = [\<lparr>tv_tab = 8, tv_layout = demo_layout\<rparr>]\<rparr>) = Some view \<and>
      client_view_valid view \<and> map wv_workspace view = map w_id (workspaces demo_state))"
proof -
  let ?stored = "\<lambda>w. \<lparr>wv_workspace = w_id w, wv_tabs = [\<lparr>tv_tab = 8, tv_layout = demo_layout\<rparr>]\<rparr>"
  have h: "validate demo_state" "\<forall>w\<in>set (workspaces demo_state). distinct (view_tabs (?stored w))"
    using demo_sound by (simp_all add: sound_def)
  moreover have "list_all (\<lambda>w. distinct (view_tabs (?stored w))) (workspaces demo_state)" using h(2) by (simp add: list_all_iff)
  ultimately show ?thesis using reconciled_arrangements_valid [OF h] by blast
qed

section \<open>The retained copy\<close>

lemma str_len_four: "str_len s \<le> 4 * length s"
  by (induction s) (simp_all add: len_utf8_def)

lemma length_trim: "length (trim s) \<le> length s"
  unfolding trim_def trim_start_def using length_dropWhile_le [of is_whitespace s]
    length_dropWhile_le [of is_whitespace "rev (dropWhile is_whitespace s)"] by simp

lemma retained_shell_ok: "\<not> bad_shell (retained_shell p)"
proof (cases "retained_shell p")
  case (Some shell)
  then obtain raw where shell: "shell = trim (take MAX_TITLE_CHARS (filter (\<lambda>c. \<not> is_control c) raw))" "shell \<noteq> []"
    by (auto simp: retained_shell_def Let_def split: option.splits if_splits)
  have "length shell \<le> MAX_TITLE_CHARS" using shell(1) length_trim [of "take MAX_TITLE_CHARS (filter (\<lambda>c. \<not> is_control c) raw)"] by simp
  moreover have "\<not> list_ex is_control shell"
  proof -
    have "set shell \<subseteq> {c. \<not> is_control c}"
      using trim_subset [of "take MAX_TITLE_CHARS (filter (\<lambda>c. \<not> is_control c) raw)"] set_take_subset [of MAX_TITLE_CHARS "filter (\<lambda>c. \<not> is_control c) raw"]
      unfolding shell(1) by auto
    then show ?thesis by (auto simp: list_ex_iff)
  qed
  moreover have "trim shell \<noteq> []" using shell trim_trim_nonempty by metis
  ultimately show ?thesis using Some str_len_four [of shell] by (simp add: bad_shell_def retained_text_def)
qed (simp add: bad_shell_def)

definition retained_tab_ids :: "retained_tab \<Rightarrow> Id list" where
  "retained_tab_ids t = rt_id t # map rp_id (rt_panes t)"

definition retained_ids :: "retained_workspace \<Rightarrow> Id list" where
  "retained_ids w = rw_id w # concat (map retained_tab_ids (rw_tabs w))"

lemma check_retained_panes_iff:
  "check_retained_panes ps ids = Some ids' \<longleftrightarrow> fresh (map rp_id ps) ids \<and> (\<forall>p\<in>set ps. \<not> bad_shell (rp_shell p)) \<and> ids' = rev (map rp_id ps) @ ids"
  by (induction ps arbitrary: ids) auto

lemma check_retained_tabs_iff:
  "check_retained_tabs ts ids = Some ids' \<longleftrightarrow>
     fresh (concat (map retained_tab_ids ts)) ids \<and> (\<forall>t\<in>set ts. rt_root_pane t \<in> rp_id ` set (rt_panes t) \<and> (\<forall>p\<in>set (rt_panes t). \<not> bad_shell (rp_shell p))) \<and>
     ids' = rev (concat (map retained_tab_ids ts)) @ ids"
proof (induction ts arbitrary: ids)
  case (Cons t ts)
  have root: "list_ex (\<lambda>p. rp_id p = rt_root_pane t) (rt_panes t) \<longleftrightarrow> rt_root_pane t \<in> rp_id ` set (rt_panes t)"
    by (auto simp: list_ex_iff intro: rev_image_eqI)
  have step: "check_retained_tabs (t # ts) ids = Some ids' \<longleftrightarrow> rt_id t \<notin> set ids \<and> rt_root_pane t \<in> rp_id ` set (rt_panes t) \<and>
      (\<exists>seen. check_retained_panes (rt_panes t) (rt_id t # ids) = Some seen \<and> check_retained_tabs ts seen = Some ids')"
    using root by (auto split: option.splits)
  show ?case unfolding step check_retained_panes_iff Cons.IH by (auto simp: retained_tab_ids_def [of t])
qed auto

lemma check_retained_workspaces_iff:
  "check_retained_workspaces ws ids = Some ids' \<longleftrightarrow>
     fresh (concat (map retained_ids ws)) ids \<and>
     (\<forall>w\<in>set ws. retained_text (rw_name w) MAX_NAME_BYTES \<and> rw_root_tab w \<in> rt_id ` set (rw_tabs w) \<and>
        (\<forall>t\<in>set (rw_tabs w). rt_root_pane t \<in> rp_id ` set (rt_panes t) \<and> (\<forall>p\<in>set (rt_panes t). \<not> bad_shell (rp_shell p)))) \<and>
     ids' = rev (concat (map retained_ids ws)) @ ids"
proof (induction ws arbitrary: ids)
  case (Cons w ws)
  have root: "list_ex (\<lambda>t. rt_id t = rw_root_tab w) (rw_tabs w) \<longleftrightarrow> rw_root_tab w \<in> rt_id ` set (rw_tabs w)"
    by (auto simp: list_ex_iff intro: rev_image_eqI)
  have step: "check_retained_workspaces (w # ws) ids = Some ids' \<longleftrightarrow> rw_id w \<notin> set ids \<and> retained_text (rw_name w) MAX_NAME_BYTES \<and>
      rw_root_tab w \<in> rt_id ` set (rw_tabs w) \<and>
      (\<exists>seen. check_retained_tabs (rw_tabs w) (rw_id w # ids) = Some seen \<and> check_retained_workspaces ws seen = Some ids')"
    using root by (auto split: option.splits)
  show ?case unfolding step check_retained_tabs_iff Cons.IH by (auto simp: retained_ids_def [of w])
qed auto

lemma retained_ids_of: "retained_ids (retain_workspace w) = workspace_ids w"
  by (simp add: retained_ids_def retain_workspace_def workspace_ids_def retained_tab_ids_def [abs_def] retain_tab_def retain_pane_def
      tab_ids_def [abs_def] comp_def)

lemma retained_counts:
  "sum_list (map (\<lambda>w. length (rw_tabs w)) (map retain_workspace ws)) = sum_list (map (\<lambda>w. length (w_tabs w)) ws)"
  "sum_list (map (\<lambda>w. sum_list (map (\<lambda>t. length (rt_panes t)) (rw_tabs w))) (map retain_workspace ws)) =
     sum_list (map (\<lambda>t. length (t_panes t)) (concat (map w_tabs ws)))"
  by (induction ws) (simp_all add: retain_workspace_def retain_tab_def comp_def)

text \<open>
  C36. The copy a client retains of any state its server's check accepts is accepted by the check of the copy, so
  the client can always present what it last saw; presenting the copy shows the same Workspaces, names, Tabs
  and Panes in the same order, and copying what it presents gives the same structure.
\<close>

theorem retained_copy_presents_the_same:
  assumes "validate s"
  shows "let r = retain_inventory (st_inventory s); i = inventory_of_retained r
    in retained_valid r \<and> map workspace_ids (inv_workspaces i) = map workspace_ids (workspaces s) \<and>
       map w_name (inv_workspaces i) = map w_name (workspaces s) \<and> same_structure (retain_inventory i) r"
proof -
  let ?ws = "workspaces s"
  obtain ids where "validate_workspaces [] ?ws = Some ids" using assms by (auto simp: validate_def)
  then have ok: "\<forall>w\<in>set ?ws. workspace_ok w \<and> valid_name (w_name w)" and d: "distinct (concat (map workspace_ids ?ws))"
    and z: "0 \<notin> set (concat (map workspace_ids ?ws))"
    by (auto simp: validate_workspaces_iff)
  have limits: "length ?ws \<le> MAX_WORKSPACES" "tab_count s \<le> MAX_TABS" "pane_count s \<le> MAX_PANES"
    using assms by (auto simp: validate_def validate_limits_def)
  have rids: "concat (map retained_ids (map retain_workspace ?ws)) = concat (map workspace_ids ?ws)"
    by (simp add: comp_def retained_ids_of)
  have each: "\<forall>w\<in>set (map retain_workspace ?ws). retained_text (rw_name w) MAX_NAME_BYTES \<and> rw_root_tab w \<in> rt_id ` set (rw_tabs w) \<and>
      (\<forall>t\<in>set (rw_tabs w). rt_root_pane t \<in> rp_id ` set (rt_panes t) \<and> (\<forall>p\<in>set (rt_panes t). \<not> bad_shell (rp_shell p)))"
    using ok retained_shell_ok
    by (auto simp: retain_workspace_def retain_tab_def retain_pane_def image_image valid_name_def retained_text_def MAX_NAME_BYTES_def workspace_ok_def)
  have "check_retained_workspaces (map retain_workspace ?ws) [] = Some (rev (concat (map workspace_ids ?ws)))"
    unfolding check_retained_workspaces_iff rids using each d by simp
  then have valid: "retained_valid (retain_inventory (st_inventory s))"
    using limits z by (simp add: retained_valid_def retain_inventory_def retained_counts [simplified] tab_count_def pane_count_def)
  have "same_structure (retain_inventory (inventory_of_retained (retain_inventory (st_inventory s)))) (retain_inventory (st_inventory s))"
    by (simp add: same_structure_def retained_structure_def retain_inventory_def inventory_of_retained_def retain_workspace_def
        workspace_of_retained_def retain_tab_def tab_of_retained_def retain_pane_def pane_of_retained_def new_pane_def comp_def)
  moreover have "map workspace_ids (map workspace_of_retained (map retain_workspace ws)) = map workspace_ids ws" for ws
    by (simp add: workspace_ids_def [abs_def] tab_ids_def [abs_def] retain_workspace_def
        workspace_of_retained_def retain_tab_def tab_of_retained_def retain_pane_def pane_of_retained_def new_pane_def comp_def)
  moreover have "map w_name (map workspace_of_retained (map retain_workspace ws)) = map w_name ws" for ws
    by (simp add: retain_workspace_def workspace_of_retained_def comp_def)
  ultimately show ?thesis using valid by (simp add: Let_def inventory_of_retained_def retain_inventory_def comp_assoc)
qed

theorem retained_copy_presents_the_same_witness:
  "validate demo_state \<and> retained_valid (retain_inventory (st_inventory demo_state)) \<and>
   same_structure (retain_inventory (inventory_of_retained (retain_inventory (st_inventory demo_state)))) (retain_inventory (st_inventory demo_state))"
proof -
  have h: "validate demo_state" using demo_sound by (simp add: sound_def)
  show ?thesis using retained_copy_presents_the_same [OF h] h by (simp add: Let_def)
qed

end
