(* ===== verification/Window_Layout.thy ===== *)
theory Window_Layout
  imports Pane_Views Arrangements
begin

text \<open>
  How a window stores the layout of a Tab and restores it (\<open>ui/tab_view.rs\<close>, \<open>ui/workspaces.rs\<close> and
  \<open>ui/workspaces/pending.rs\<close>): the Panes of the window are bound to Panes of the server, whose provisional
  identities are followed through aliases. The theory joins the Panes of a Tab with the stored layouts.
\<close>

section \<open>Identities\<close>

definition CAPACITY :: nat where "CAPACITY = 32"

fun follow_alias :: "nat \<Rightarrow> (Id, Id) omap \<Rightarrow> Id \<Rightarrow> Id" where
  "follow_alias 0 aliases i = i"
| "follow_alias (Suc n) aliases i = (case map_of aliases i of None \<Rightarrow> i | Some j \<Rightarrow> follow_alias n aliases j)"

definition canonical :: "(Id, Id) omap \<Rightarrow> Id \<Rightarrow> Id" where
  "canonical aliases i = follow_alias (CAPACITY * 3) aliases i"

record pane_binding =
  pb_panes :: "(u64, Id) omap"
  pb_aliases :: "(Id, Id) omap"

definition core_pane :: "pane_binding \<Rightarrow> u64 \<Rightarrow> Id option" where
  "core_pane b p = map_option (canonical (pb_aliases b)) (map_of (pb_panes b) p)"

definition local_pane :: "pane_binding \<Rightarrow> Id \<Rightarrow> u64 option" where
  "local_pane b core = find_map (\<lambda>(p, i). if canonical (pb_aliases b) i = core then Some p else None) (pb_panes b)"

definition axis_of_split :: "split_axis \<Rightarrow> axis" where
  "axis_of_split a = (case a of SplitHorizontal \<Rightarrow> AxisRight | SplitVertical \<Rightarrow> AxisDown)"

definition split_of_axis :: "axis \<Rightarrow> split_axis" where
  "split_of_axis a = (case a of AxisRight \<Rightarrow> SplitHorizontal | AxisDown \<Rightarrow> SplitVertical)"

section \<open>Storing and restoring\<close>

fun collect_layout :: "pane_binding \<Rightarrow> nat \<Rightarrow> pane_node \<Rightarrow> layout option" where
  "collect_layout b n (Leaf p) = map_option (\<lambda>i. [LayoutPane i]) (core_pane b p)"
| "collect_layout b n (Split _ axis ratio first second) =
     (case collect_layout b (n + 1) first of
        None \<Rightarrow> None
      | Some nodes \<Rightarrow>
          (case collect_layout b (n + 1 + length nodes) second of
             None \<Rightarrow> None
           | Some nodes' \<Rightarrow> Some (LayoutSplit (axis_of_split axis) ratio (n + 1) (n + 1 + length nodes) # nodes @ nodes')))"

definition tab_layout :: "pane_binding \<Rightarrow> 'a pane_tab \<Rightarrow> layout option" where
  "tab_layout b t = collect_layout b 0 (pt_root t)"

partial_function (option) convert_layout :: "pane_binding \<Rightarrow> layout \<Rightarrow> nat \<Rightarrow> pane_arrangement option option" where
  "convert_layout b nodes index =
     (if length nodes \<le> index then Some None
      else case nodes ! index of
          LayoutPane i \<Rightarrow> Some (map_option ArrangedPane (local_pane b i))
        | LayoutSplit axis ratio first second \<Rightarrow>
            Option.bind (convert_layout b nodes first) (\<lambda>x. case x of
                None \<Rightarrow> Some None
              | Some x \<Rightarrow>
                  Option.bind (convert_layout b nodes second) (\<lambda>y. case y of
                      None \<Rightarrow> Some None
                    | Some y \<Rightarrow> Some (Some (ArrangedSplit (split_of_axis axis) ratio x y)))))"

text \<open>The outer \<open>None\<close> is a conversion that does not return.\<close>

definition restore_layout :: "pane_binding \<Rightarrow> layout \<Rightarrow> 'a pane_tab \<Rightarrow> 'a pane_tab option" where
  "restore_layout b nodes t =
     (if \<not> layout_valid nodes then Some t
      else map_option
        (\<lambda>arrangement. case arrangement of None \<Rightarrow> t | Some a \<Rightarrow> snd (restore_arrangement a t))
        (convert_layout b nodes 0))"

section \<open>Trees of the two sides\<close>

fun core_tree :: "pane_binding \<Rightarrow> pane_node \<Rightarrow> layout_tree option" where
  "core_tree b (Leaf p) = map_option TreePane (core_pane b p)"
| "core_tree b (Split _ axis ratio first second) =
     (case (core_tree b first, core_tree b second) of
        (Some x, Some y) \<Rightarrow> Some (TreeSplit (axis_of_split axis) ratio x y)
      | _ \<Rightarrow> None)"

fun local_arrangement :: "pane_binding \<Rightarrow> layout_tree \<Rightarrow> pane_arrangement option" where
  "local_arrangement b (TreePane i) = map_option ArrangedPane (local_pane b i)"
| "local_arrangement b (TreeSplit axis ratio x y) =
     (case (local_arrangement b x, local_arrangement b y) of
        (Some x, Some y) \<Rightarrow> Some (ArrangedSplit (split_of_axis axis) ratio x y)
      | _ \<Rightarrow> None)"

fun arrangement_of :: "pane_node \<Rightarrow> pane_arrangement" where
  "arrangement_of (Leaf p) = ArrangedPane p"
| "arrangement_of (Split _ axis ratio first second) = ArrangedSplit axis ratio (arrangement_of first) (arrangement_of second)"

lemma split_axis_inverse [simp]: "split_of_axis (axis_of_split a) = a"
  by (cases a) (simp_all add: split_of_axis_def axis_of_split_def)

text \<open>The recursion that writes nodes as it goes is the flattening of a tree.\<close>

lemma collect_flatten: "collect_layout b n node = map_option (tree_flatten n) (core_tree b node)"
proof (induction node arbitrary: n)
  case (Leaf p)
  then show ?case by (cases "core_pane b p") simp_all
next
  case (Split i axis ratio first second)
  show ?case by (auto simp: Split.IH Let_def split: option.split)
qed

lemma convert_reads: "reads nodes i t vs \<Longrightarrow> convert_layout b nodes i = Some (local_arrangement b t)"
  by (induction rule: reads.induct) (auto simp: convert_layout.simps [of b nodes] split: option.split)

lemma restore_layout_valid:
  assumes "layout_valid nodes"
  shows "\<exists>u. stored_tree nodes = Some u \<and>
    restore_layout b nodes t = Some (case local_arrangement b u of None \<Rightarrow> t | Some a \<Rightarrow> snd (restore_arrangement a t))"
proof -
  obtain u vs where "reads nodes 0 u vs" using layout_valid_tree [OF assms] by blast
  then show ?thesis using assms prune_all [of u "\<lambda>_. True"]
    by (simp add: restore_layout_def stored_tree_def tree_at_reads convert_reads)
qed

section \<open>Bindings\<close>

definition binds :: "pane_binding \<Rightarrow> pane_node \<Rightarrow> bool" where
  "binds b node \<longleftrightarrow> set (leaves node) \<subseteq> fst ` set (pb_panes b) \<and> distinct (map fst (pb_panes b)) \<and>
     distinct (map (\<lambda>(p, i). canonical (pb_aliases b) i) (pb_panes b))"

lemma find_map_key:
  "distinct (map (\<lambda>(p, i). f i) xs) \<Longrightarrow> (p, i) \<in> set xs \<Longrightarrow> find_map (\<lambda>(p, i'). if f i' = f i then Some p else None) xs = Some p"
proof (induction xs)
  case (Cons x xs)
  then show ?case by (cases x) (force simp: image_iff)
qed simp

lemma local_core:
  assumes "distinct (map fst (pb_panes b))" "distinct (map (\<lambda>(p, i). canonical (pb_aliases b) i) (pb_panes b))" "p \<in> fst ` set (pb_panes b)"
  shows "\<exists>i. core_pane b p = Some i \<and> local_pane b i = Some p"
proof -
  obtain i where i: "(p, i) \<in> set (pb_panes b)" using assms(3) by auto
  then have "map_of (pb_panes b) p = Some i" using assms(1) by simp
  then show ?thesis using find_map_key [OF assms(2) i] by (simp add: core_pane_def local_pane_def)
qed

lemma core_tree_local:
  assumes "binds b node"
  shows "\<exists>u. core_tree b node = Some u \<and> local_arrangement b u = Some (arrangement_of node) \<and> tree_ratios u = ratios node \<and>
    map Some (tree_panes u) = map (core_pane b) (leaves node)"
  using assms
proof (induction node)
  case (Leaf p)
  then show ?case using local_core [of b p] by (auto simp: binds_def)
next
  case (Split i axis ratio first second)
  then have "binds b first" "binds b second" by (simp_all add: binds_def)
  then obtain x y where "core_tree b first = Some x" "local_arrangement b x = Some (arrangement_of first)" "tree_ratios x = ratios first"
    "map Some (tree_panes x) = map (core_pane b) (leaves first)"
    "core_tree b second = Some y" "local_arrangement b y = Some (arrangement_of second)" "tree_ratios y = ratios second"
    "map Some (tree_panes y) = map (core_pane b) (leaves second)"
    using Split.IH by blast
  then show ?case by simp
qed

lemma core_tree_distinct:
  assumes "binds b node" "distinct (leaves node)" "core_tree b node = Some u"
  shows "distinct (tree_panes u)"
proof -
  have m: "map Some (tree_panes u) = map (core_pane b) (leaves node)" using core_tree_local [OF assms(1)] assms(3) by auto
  have "inj_on (core_pane b) (set (leaves node))"
  proof (rule inj_onI)
    fix p q assume pq: "p \<in> set (leaves node)" "q \<in> set (leaves node)" "core_pane b p = core_pane b q"
    have "\<exists>i. core_pane b r = Some i \<and> local_pane b i = Some r" if "r \<in> set (leaves node)" for r
      using local_core [of b r] assms(1) that by (auto simp: binds_def)
    then obtain i j where "core_pane b p = Some i" "local_pane b i = Some p" "core_pane b q = Some j" "local_pane b j = Some q"
      using pq(1,2) by metis
    then show "p = q" using pq(3) by simp
  qed
  then have "distinct (map (core_pane b) (leaves node))" using assms(2) by (simp add: distinct_map)
  then show ?thesis unfolding m [symmetric] by (simp add: distinct_map)
qed

section \<open>Restoring an arrangement\<close>

lemma build_arrangement_of:
  assumes "list_all ratio_valid (ratios node)" "distinct (leaves node)" "set (leaves node) \<inter> set seen = {}"
    "n + length (split_ids node) \<le> u64_max"
  shows "\<exists>root. build_arrangement (arrangement_of node) seen n = Inr (root, rev (leaves node) @ seen, n + length (split_ids node)) \<and>
    has_arrangement_of root node \<and> ratios root = ratios node"
  using assms
proof (induction node arbitrary: seen n)
  case (Split i axis ratio first second)
  have "n + 1 + length (split_ids first) + length (split_ids second) \<le> u64_max" using Split.prems(4) by simp
  then obtain a where a: "build_arrangement (arrangement_of first) seen (n + 1) = Inr (a, rev (leaves first) @ seen, n + 1 + length (split_ids first))"
    "has_arrangement_of a first" "ratios a = ratios first"
    using Split.IH(1) [of seen "n + 1"] Split.prems by auto
  obtain b where b: "build_arrangement (arrangement_of second) (rev (leaves first) @ seen) (n + 1 + length (split_ids first)) =
      Inr (b, rev (leaves second) @ rev (leaves first) @ seen, n + 1 + length (split_ids first) + length (split_ids second))"
    "has_arrangement_of b second" "ratios b = ratios second"
    using Split.IH(2) [of "rev (leaves first) @ seen" "n + 1 + length (split_ids first)"] Split.prems by auto
  have "ratio_valid ratio" "checked_add n 1 = Some (n + 1)" using Split.prems by (simp_all add: checked_add_def)
  then show ?case using a b Split.prems(4) by (simp add: ratio_valid_def checked_add_def)
qed simp

lemma restore_arrangement_of:
  assumes "tab_ok t" "set (leaves node) = set (leaves (pt_root t))" "distinct (leaves node)" "list_all ratio_valid (ratios node)"
    "pt_next_split t + length (split_ids node) \<le> u64_max"
  shows "\<exists>root. restore_arrangement (arrangement_of node) t =
      (Inr (), t\<lparr>pt_root := root, pt_next_split := pt_next_split t + length (split_ids node)\<rparr>) \<and>
    has_arrangement_of root node \<and> ratios root = ratios node"
proof -
  obtain root where root: "build_arrangement (arrangement_of node) [] (pt_next_split t) =
      Inr (root, rev (leaves node), pt_next_split t + length (split_ids node))"
    "has_arrangement_of root node" "ratios root = ratios node"
    using build_arrangement_of [OF assms(4,3) _ assms(5), of "[]"] by auto
  have keys: "fst ` set (pt_panes t) = set (leaves node)" using assms(1,2) by (simp add: tab_ok_def)
  have "length (leaves node) = card (set (leaves node))" using distinct_card [OF assms(3)] by simp
  also have "\<dots> = length (leaves (pt_root t))" using assms(1,2) distinct_card [of "leaves (pt_root t)"] by (simp add: tab_ok_def layout_ok_def)
  also have "\<dots> = length (pt_panes t)" using pane_total_leaves [OF assms(1)] by (simp add: pane_total_def)
  finally have "length (rev (leaves node)) = length (pt_panes t)" by simp
  moreover have "\<not> list_ex (\<lambda>x. fst x \<notin> set (rev (leaves node))) (pt_panes t)" using keys by (auto simp: list_ex_iff)
  ultimately show ?thesis using root by (auto simp: restore_arrangement_def simp del: length_rev)
qed

text \<open>
  C37. A window that stores the layout of a Tab and restores it later, after any moves, swaps and resizes that left
  the Tab with the same Panes, presents the stored arrangement again: the same Panes in the same Splits with
  the same ratios, with focus, zoom and the Panes themselves untouched. What is stored passes the check of
  stored layouts.
\<close>

theorem stored_layout_restores_arrangement:
  assumes "tab_ok t" "binds b (pt_root t)" "list_all ratio_valid (ratios (pt_root t))" "pane_total t \<le> MAX_PANES"
    "tab_ok t'" "set (leaves (pt_root t')) = set (leaves (pt_root t))" "pt_next_split t' + length (split_ids (pt_root t)) \<le> u64_max"
  shows "\<exists>nodes root. tab_layout b t = Some nodes \<and> layout_valid nodes \<and>
    restore_layout b nodes t' = Some (t'\<lparr>pt_root := root, pt_next_split := pt_next_split t' + length (split_ids (pt_root t))\<rparr>) \<and>
    has_arrangement_of root (pt_root t) \<and> ratios root = ratios (pt_root t)"
proof -
  obtain u where u: "core_tree b (pt_root t) = Some u" "local_arrangement b u = Some (arrangement_of (pt_root t))" "tree_ratios u = ratios (pt_root t)"
    "map Some (tree_panes u) = map (core_pane b) (leaves (pt_root t))" using core_tree_local [OF assms(2)] by blast
  have d: "distinct (leaves (pt_root t))" using assms(1) by (simp add: tab_ok_def layout_ok_def)
  have "length (tree_panes u) = length (leaves (pt_root t))" using arg_cong [OF u(4), of length] by simp
  then have "length (tree_panes u) \<le> MAX_PANES" using assms(4) pane_total_leaves [OF assms(1)] by simp
  then have valid: "layout_valid (tree_flatten 0 u)"
    using core_tree_distinct [OF assms(2) d u(1)] u(3) assms(3) by (intro flatten_valid) (simp_all add: list_all_iff)
  obtain vs where "reads (tree_flatten 0 u) 0 u vs" using flatten_reads [of "[]" u "[]"] by auto
  then have "stored_tree (tree_flatten 0 u) = Some u" using valid prune_all [of u "\<lambda>_. True"] by (simp add: stored_tree_def tree_at_reads)
  then have restore: "restore_layout b (tree_flatten 0 u) t' = Some (snd (restore_arrangement (arrangement_of (pt_root t)) t'))"
    using restore_layout_valid [OF valid, of b t'] u(2) by auto
  have stored: "tab_layout b t = Some (tree_flatten 0 u)" using u(1) by (simp add: tab_layout_def collect_flatten)
  show ?thesis using restore_arrangement_of [OF assms(5) assms(6) [symmetric] d assms(3,7)] restore valid stored by auto
qed

text \<open>Panes bound to server Panes, the third through an alias.\<close>

definition demo_binding :: pane_binding where
  "demo_binding = \<lparr>pb_panes = [(1, 11), (2, 12), (3, 90)], pb_aliases = [(90, 13)]\<rparr>"

lemma canonical_unaliased: "map_of aliases i = None \<Longrightarrow> canonical aliases i = i"
  by (cases "CAPACITY * 3") (simp_all add: canonical_def)

lemma canonical_aliased:
  assumes "map_of aliases i = Some j" "map_of aliases j = None" shows "canonical aliases i = j"
proof -
  have "CAPACITY * 3 = Suc (Suc 94)" by (simp add: CAPACITY_def)
  then have "canonical aliases i = follow_alias (Suc (Suc 94)) aliases i" by (simp only: canonical_def)
  also have "\<dots> = j" unfolding follow_alias.simps assms option.case ..
  finally show ?thesis .
qed

lemma demo_binds: "binds demo_binding (pt_root (pw_tab demo_panes))"
  by (simp add: binds_def demo_binding_def demo_panes_def canonical_unaliased canonical_aliased)

theorem stored_layout_restores_arrangement_witness:
  "let t = pw_tab demo_panes; t' = snd (swap_panes 1 3 t)
   in tab_ok t \<and> binds demo_binding (pt_root t) \<and> list_all ratio_valid (ratios (pt_root t)) \<and> pane_total t \<le> MAX_PANES \<and>
      tab_ok t' \<and> set (leaves (pt_root t')) = set (leaves (pt_root t)) \<and> pt_next_split t' + length (split_ids (pt_root t)) \<le> u64_max \<and>
      \<not> has_arrangement_of (pt_root t') (pt_root t) \<and>
      (\<exists>nodes root. tab_layout demo_binding t = Some nodes \<and> layout_valid nodes \<and>
         restore_layout demo_binding nodes t' = Some (t'\<lparr>pt_root := root, pt_next_split := pt_next_split t' + length (split_ids (pt_root t))\<rparr>) \<and>
         has_arrangement_of root (pt_root t) \<and> ratios root = ratios (pt_root t))"
proof -
  let ?t = "pw_tab demo_panes"
  let ?t' = "snd (swap_panes 1 3 ?t)"
  have ok: "tab_ok ?t" by (rule panes_ok_tab [OF demo_panes_ok])
  note swapped = swap_panes_ok [OF ok, of 1 3]
  have r: "list_all ratio_valid (ratios (pt_root ?t))" by code_simp
  have n: "pane_total ?t \<le> MAX_PANES" "pt_next_split ?t' + length (split_ids (pt_root ?t)) \<le> u64_max"
    by (simp_all add: demo_panes_def pane_total_def MAX_PANES_def swap_panes_def set_focused_pane_def apply_focused_pane_def u64_max_def)
  have moved: "\<not> has_arrangement_of (pt_root ?t') (pt_root ?t)"
    by (simp add: demo_panes_def swap_panes_def set_focused_pane_def apply_focused_pane_def)
  have l: "tab_ok ?t'" "set (leaves (pt_root ?t')) = set (leaves (pt_root ?t))" using swapped by (simp_all add: keeps_panes_def)
  show ?thesis using stored_layout_restores_arrangement [OF ok demo_binds r n(1) l n(2)] ok demo_binds r n l moved by (simp add: Let_def)
qed

end
