(* ===== verification/Workspace_Order.thy ===== *)
theory Workspace_Order
  imports Prelude
begin

text \<open>
  The order of Workspaces a client keeps across all its servers (\<open>workspace_order.rs\<close>) and the store that
  keeps it. A Workspace whose server is absent keeps its slot; recording an arrangement refills the slots of
  the Workspaces that are presented. The closures of the source that consume an iterator or a set while they
  filter are recursions that pass the iterator or the set on.
\<close>

section \<open>References and their order\<close>

record workspace_reference =
  wr_owner :: Id
  wr_workspace :: Id

type_synonym workspace_order = "workspace_reference list"

text \<open>The values of \<open>CoreError\<close> this file returns.\<close>

datatype core_error = CapacityExceeded | UnsafeStorage | AuthenticationRefused | StorageRefused

definition MAX_ENTRIES :: nat where
  "MAX_ENTRIES = 16384"

text \<open>\<open>filter(|workspace| remaining.remove(workspace))\<close>, with the set it leaves.\<close>

fun keep_remaining :: "'a list \<Rightarrow> 'a set \<Rightarrow> 'a list \<times> 'a set" where
  "keep_remaining [] remaining = ([], remaining)"
| "keep_remaining (w # ws) remaining =
     (if w \<in> remaining
      then let (kept, remaining) = keep_remaining ws (remaining - {w}) in (w # kept, remaining)
      else keep_remaining ws remaining)"

definition restore_order :: "workspace_order \<Rightarrow> workspace_reference list \<Rightarrow> workspace_reference list" where
  "restore_order order presented =
     (let (ordered, remaining) = keep_remaining order (set presented);
          (appended, _) = keep_remaining presented remaining
      in ordered @ appended)"

fun validate_references :: "workspace_reference set \<Rightarrow> workspace_reference list \<Rightarrow> core_error + unit" where
  "validate_references unique [] = Inr ()"
| "validate_references unique (w # ws) =
     (if wr_owner w = 0 \<or> wr_workspace w = 0 \<or> w \<in> unique then Inl UnsafeStorage
      else validate_references (insert w unique) ws)"

definition order_validate :: "workspace_reference list \<Rightarrow> core_error + unit" where
  "order_validate ws = (if MAX_ENTRIES < length ws then Inl CapacityExceeded else validate_references {} ws)"

text \<open>
  The slots that satisfy \<open>p\<close> take the next elements of an iterator while it has any; the rest of the
  iterator is returned.
\<close>

fun refill_slots :: "('a \<Rightarrow> bool) \<Rightarrow> 'a list \<Rightarrow> 'a list \<Rightarrow> 'a list \<times> 'a list" where
  "refill_slots p [] next = ([], next)"
| "refill_slots p (w # ws) next =
     (if p w
      then case next of
          [] \<Rightarrow> let (filled, rest) = refill_slots p ws [] in (w # filled, rest)
        | replacement # next \<Rightarrow> let (filled, rest) = refill_slots p ws next in (replacement # filled, rest)
      else let (filled, rest) = refill_slots p ws next in (w # filled, rest))"

definition record_order :: "workspace_reference list \<Rightarrow> workspace_order \<Rightarrow> (core_error + unit) \<times> workspace_order" where
  "record_order presented order =
     (case order_validate order of
        Inl e \<Rightarrow> (Inl e, order)
      | Inr _ \<Rightarrow>
          (case order_validate presented of
             Inl e \<Rightarrow> (Inl e, order)
           | Inr _ \<Rightarrow>
               if MAX_ENTRIES < length order + card (set presented - set order) then (Inl CapacityExceeded, order)
               else let (filled, rest) = refill_slots (\<lambda>w. w \<in> set presented) order presented
                    in (Inr (), filled @ rest)))"

definition reconcile_owner :: "Id \<Rightarrow> Id list \<Rightarrow> workspace_order \<Rightarrow> workspace_order" where
  "reconcile_owner owner surviving order = filter (\<lambda>w. wr_owner w \<noteq> owner \<or> wr_workspace w \<in> set surviving) order"

section \<open>The store\<close>

record order_record =
  or_version :: nat
  or_client :: Id
  or_order :: workspace_order

record order_store =
  os_record :: order_record
  os_blocked :: bool

text \<open>
  \<open>locked\<close> and \<open>found\<close> are what the directory answers for the lock and for the file; \<open>write\<close> is its answer
  when the record is written.
\<close>

definition open_order_store :: "core_error + unit \<Rightarrow> core_error + order_record option \<Rightarrow> Id \<Rightarrow> core_error + order_store" where
  "open_order_store locked found client =
     (case locked of
        Inl e \<Rightarrow> Inl e
      | Inr _ \<Rightarrow>
          (case found of
             Inl e \<Rightarrow> Inl e
           | Inr read \<Rightarrow>
               let r = (case read of None \<Rightarrow> \<lparr>or_version = 1, or_client = client, or_order = []\<rparr> | Some r \<Rightarrow> r)
               in if or_version r \<noteq> 1 \<or> or_client r \<noteq> client then Inl AuthenticationRefused
                  else case order_validate (or_order r) of
                      Inl e \<Rightarrow> Inl e
                    | Inr _ \<Rightarrow> Inr \<lparr>os_record = r, os_blocked = False\<rparr>))"

definition save_order :: "(order_record \<Rightarrow> core_error + unit) \<Rightarrow> workspace_order \<Rightarrow> order_store \<Rightarrow>
    (core_error + unit) \<times> order_store" where
  "save_order write order s =
     (if os_blocked s then (Inl StorageRefused, s)
      else case order_validate order of
          Inl e \<Rightarrow> (Inl e, s)
        | Inr _ \<Rightarrow>
            if or_order (os_record s) = order then (Inr (), s)
            else
              let s = s\<lparr>os_record := (os_record s)\<lparr>or_order := order\<rparr>\<rparr>
              in case write (os_record s) of
                  Inl e \<Rightarrow> (Inl e, s\<lparr>os_blocked := True\<rparr>)
                | Inr _ \<Rightarrow> (Inr (), s))"

section \<open>What the iterators do\<close>

lemma keep_remaining_distinct:
  "distinct ws \<Longrightarrow> keep_remaining ws remaining = (filter (\<lambda>w. w \<in> remaining) ws, remaining - set ws)"
proof (induction ws arbitrary: remaining)
  case (Cons w ws)
  then have "filter (\<lambda>v. v \<in> remaining - {w}) ws = filter (\<lambda>v. v \<in> remaining) ws" by (auto intro: filter_cong)
  with Cons show ?case by auto
qed simp

lemma restore_order_eq:
  assumes "distinct order" "distinct presented"
  shows "restore_order order presented =
    filter (\<lambda>w. w \<in> set presented) order @ filter (\<lambda>w. w \<notin> set order) presented"
proof -
  have "filter (\<lambda>w. w \<in> set presented - set order) presented = filter (\<lambda>w. w \<notin> set order) presented"
    by (auto intro: filter_cong)
  then show ?thesis using assms by (simp add: restore_order_def keep_remaining_distinct)
qed

lemma mset_restore_order:
  assumes "distinct order" "distinct presented"
  shows "mset (restore_order order presented) = mset presented"
proof -
  have "distinct (restore_order order presented)" "set (restore_order order presented) = set presented"
    using assms by (auto simp: restore_order_eq)
  then show ?thesis using assms(2) by (metis set_eq_iff_mset_eq_distinct)
qed

lemma validate_references_iff:
  "validate_references unique ws = Inr () \<longleftrightarrow>
     list_all (\<lambda>w. wr_owner w \<noteq> 0 \<and> wr_workspace w \<noteq> 0) ws \<and> distinct ws \<and> set ws \<inter> unique = {}"
  by (induction ws arbitrary: unique) auto

lemma order_validate_iff:
  "order_validate ws = Inr () \<longleftrightarrow>
     length ws \<le> MAX_ENTRIES \<and> list_all (\<lambda>w. wr_owner w \<noteq> 0 \<and> wr_workspace w \<noteq> 0) ws \<and> distinct ws"
  by (simp add: order_validate_def validate_references_iff)

lemma order_validate_mset: "mset ws = mset vs \<Longrightarrow> order_validate ws = Inr () \<longleftrightarrow> order_validate vs = Inr ()"
  using mset_eq_imp_distinct_iff [of ws vs] mset_eq_length [of ws vs] mset_eq_setD [of ws vs]
  by (simp add: order_validate_iff list_all_iff)

lemma order_validate_mono:
  assumes "order_validate ws = Inr ()" "distinct vs" "set vs \<subseteq> set ws"
  shows "order_validate vs = Inr ()"
proof -
  have "length vs \<le> length ws"
    using assms(2,3) card_mono [of "set ws" "set vs"] card_length [of ws] by (simp add: distinct_card)
  with assms show ?thesis by (auto simp: order_validate_iff list_all_iff)
qed

lemma refill_slots_views:
  assumes "length (filter p ws) \<le> length ns" "list_all p ns"
  shows "\<exists>filled. refill_slots p ws ns = (filled, drop (length (filter p ws)) ns) \<and> length filled = length ws \<and>
    filter p filled = take (length (filter p ws)) ns \<and> filter (\<lambda>w. \<not> p w) filled = filter (\<lambda>w. \<not> p w) ws \<and>
    (\<forall>i<length ws. \<not> p (ws ! i) \<longrightarrow> filled ! i = ws ! i)"
  using assms
proof (induction ws arbitrary: ns)
  case Nil
  then show ?case by simp
next
  case (Cons w ws)
  show ?case
  proof (cases "p w")
    case True
    with Cons.prems obtain n ns' where ns: "ns = n # ns'" "p n" "list_all p ns'" by (cases ns) auto
    with True Cons.prems Cons.IH [of ns'] show ?thesis by (fastforce simp: nth_Cons split: nat.split)
  next
    case False
    with Cons show ?thesis by (fastforce simp: nth_Cons split: nat.split)
  qed
qed

lemma refill_slots_same: "filter p ws = ns \<Longrightarrow> refill_slots p ws ns = (ws, [])"
  by (induction ws arbitrary: ns) auto

lemma filter_partition_mset: "mset xs = mset (filter p xs) + mset (filter (\<lambda>x. \<not> p x) xs)"
  by (induction xs) auto

section \<open>Recording\<close>

lemma visible_slots_le:
  assumes "distinct order" "distinct presented"
  shows "length (filter (\<lambda>w. w \<in> set presented) order) + card (set presented - set order) = length presented"
proof -
  have "length (filter (\<lambda>w. w \<in> set presented) order) = card (set presented \<inter> set order)"
    using assms(1) distinct_card [of "filter (\<lambda>w. w \<in> set presented) order"] by (simp add: Int_def conj_commute)
  moreover have "card (set presented \<inter> set order) + card (set presented - set order) = card (set presented)"
    by (metis List.finite_set card_Diff_subset_Int card_mono finite_Int inf_le1 le_add_diff_inverse)
  ultimately show ?thesis using assms(2) by (simp add: distinct_card)
qed

lemma record_order_ok:
  assumes "record_order presented order = (Inr (), order')"
  shows "order_validate order' = Inr ()" "filter (\<lambda>w. w \<in> set presented) order' = presented"
    "filter (\<lambda>w. w \<notin> set presented) order' = filter (\<lambda>w. w \<notin> set presented) order"
    "\<forall>i<length order. order ! i \<notin> set presented \<longrightarrow> order' ! i = order ! i"
proof -
  let ?p = "\<lambda>w. w \<in> set presented"
  let ?k = "length (filter ?p order)"
  have valid: "order_validate order = Inr ()" "order_validate presented = Inr ()"
    and room: "length order + card (set presented - set order) \<le> MAX_ENTRIES"
    and refill: "refill_slots ?p order presented = (fst (refill_slots ?p order presented), snd (refill_slots ?p order presented))"
      "order' = fst (refill_slots ?p order presented) @ snd (refill_slots ?p order presented)"
    using assms by (auto simp: record_order_def case_prod_beta split: sum.splits if_splits)
  note slots = visible_slots_le [of order presented]
  have d: "distinct order" "distinct presented" using valid by (simp_all add: order_validate_iff)
  then have "?k \<le> length presented" using slots by simp
  then obtain filled where f: "refill_slots ?p order presented = (filled, drop ?k presented)" "length filled = length order"
      "filter ?p filled = take ?k presented" "filter (\<lambda>w. \<not> ?p w) filled = filter (\<lambda>w. \<not> ?p w) order"
      "\<forall>i<length order. \<not> ?p (order ! i) \<longrightarrow> filled ! i = order ! i"
    using refill_slots_views [of ?p order presented] by (auto simp: list_all_iff)
  have o': "order' = filled @ drop ?k presented" using refill(2) f(1) by simp
  have rest: "filter ?p (drop ?k presented) = drop ?k presented" "filter (\<lambda>w. \<not> ?p w) (drop ?k presented) = []"
    by (auto simp: filter_id_conv filter_empty_conv dest: in_set_dropD)
  show shown: "filter ?p order' = presented" using f(3) rest(1) by (simp add: o')
  show absent: "filter (\<lambda>w. w \<notin> set presented) order' = filter (\<lambda>w. w \<notin> set presented) order" using f(4) rest(2) by (simp add: o')
  show "\<forall>i<length order. order ! i \<notin> set presented \<longrightarrow> order' ! i = order ! i" using f(2,5) by (simp add: o' nth_append)
  have parts: "mset order' = mset (presented @ filter (\<lambda>w. w \<notin> set presented) order)"
    using filter_partition_mset [of order' ?p] shown absent by simp
  have "length order' = length order + card (set presented - set order)" using f(2) slots [OF d] by (simp add: o')
  then have "length order' \<le> MAX_ENTRIES" using room by simp
  moreover have "distinct order'" using d mset_eq_imp_distinct_iff [OF parts] by auto
  moreover have "set order' \<subseteq> set presented \<union> set order" using mset_eq_setD [OF parts] by auto
  ultimately show "order_validate order' = Inr ()" using valid by (auto simp: order_validate_iff list_all_iff)
qed

lemma record_order_known:
  assumes "order_validate order = Inr ()" "order_validate presented = Inr ()" "set presented \<subseteq> set order"
  shows "fst (record_order presented order) = Inr ()"
proof -
  have "card (set presented - set order) = 0" using assms(3) by (simp add: Diff_eq_empty_iff [THEN iffD2])
  then have "\<not> MAX_ENTRIES < length order + card (set presented - set order)"
    using assms(1) by (simp only: order_validate_iff add_0_right not_less)
  with assms(1,2) show ?thesis by (simp add: record_order_def case_prod_beta)
qed

lemma restore_recorded:
  assumes "record_order presented order = (Inr (), order')" "mset again = mset presented"
  shows "restore_order order' again = presented"
proof -
  note r = record_order_ok [OF assms(1)]
  have s: "set again = set presented" using mset_eq_setD [OF assms(2)] .
  have "set presented \<subseteq> set order'" using r(2) by (metis filter_is_subset)
  moreover have "distinct presented" using r(1,2) by (metis distinct_filter order_validate_iff)
  ultimately show ?thesis using r(1,2) s mset_eq_imp_distinct_iff [OF assms(2)]
    by (auto simp: restore_order_eq order_validate_iff filter_empty_conv)
qed

lemma restore_known:
  assumes "order_validate order = Inr ()" "distinct part" "set part \<subseteq> set order"
  shows "record_order (restore_order order part) order = (Inr (), order)"
proof -
  have d: "distinct order" using assms(1) by (simp add: order_validate_iff)
  have r: "restore_order order part = filter (\<lambda>w. w \<in> set part) order"
    using assms(3) d by (auto simp: restore_order_eq [OF _ assms(2)] filter_empty_conv)
  then have s: "set (restore_order order part) = set part" using assms(3) by auto
  have "order_validate (restore_order order part) = Inr ()"
    using order_validate_mono [OF assms(1)] d by (simp add: r)
  then have "fst (record_order (restore_order order part) order) = Inr ()"
    using record_order_known [OF assms(1)] assms(3) s by simp
  moreover have "refill_slots (\<lambda>w. w \<in> set (restore_order order part)) order (restore_order order part) = (order, [])"
    unfolding s by (rule refill_slots_same) (simp add: r)
  ultimately show ?thesis by (auto simp: record_order_def split: sum.splits if_splits)
qed

lemma record_order_refused:
  "fst (record_order presented order) \<noteq> Inr () \<Longrightarrow> snd (record_order presented order) = order"
  by (auto simp: record_order_def case_prod_beta split: sum.splits)

lemma reconcile_owner_valid: "order_validate order = Inr () \<Longrightarrow> order_validate (reconcile_owner owner surviving order) = Inr ()"
  by (rule order_validate_mono) (auto simp: reconcile_owner_def order_validate_iff)

section \<open>Properties\<close>

text \<open>
  C38. An arrangement that is recorded comes back. Whatever order the servers present the same Workspaces in,
  restoring gives the recorded arrangement; a Workspace that was not presented keeps the slot it had; the
  order stays valid, so the store accepts it. Later, while only some of the Workspaces are presented, restoring
  them and recording what was restored changes nothing, so the order in which servers connect does not matter.
\<close>

theorem recorded_order_restores:
  assumes "record_order presented order = (Inr (), order')"
  shows "order_validate order' = Inr () \<and>
    (\<forall>again. mset again = mset presented \<longrightarrow> restore_order order' again = presented) \<and>
    (\<forall>i<length order. order ! i \<notin> set presented \<longrightarrow> order' ! i = order ! i) \<and>
    (\<forall>part. distinct part \<and> set part \<subseteq> set order' \<longrightarrow>
       record_order (restore_order order' part) order' = (Inr (), order'))"
  using record_order_ok [OF assms] restore_recorded [OF assms] restore_known by blast

text \<open>The two servers of the tests, the second one away while the first is arranged.\<close>

definition reference :: "Id \<Rightarrow> Id \<Rightarrow> workspace_reference" where
  "reference owner workspace = \<lparr>wr_owner = owner, wr_workspace = workspace\<rparr>"

lemma reference_eq [simp]: "reference a b = reference c d \<longleftrightarrow> a = c \<and> b = d"
  by (simp add: reference_def)

lemma demo_recorded:
  "record_order [reference 1 2, reference 1 1, reference 2 2] [reference 1 1, reference 2 1, reference 1 2] =
     (Inr (), [reference 1 2, reference 2 1, reference 1 1, reference 2 2])"
proof -
  have "set [reference 1 2, reference 1 1, reference 2 2] - set [reference 1 1, reference 2 1, reference 1 2] = {reference 2 2}"
    by (simp add: insert_Diff_if)
  then have "card (set [reference 1 2, reference 1 1, reference 2 2] - set [reference 1 1, reference 2 1, reference 1 2]) = card {reference 2 2}"
    by (rule arg_cong)
  moreover have "order_validate [reference 1 1, reference 2 1, reference 1 2] = Inr ()"
    "order_validate [reference 1 2, reference 1 1, reference 2 2] = Inr ()"
    by (auto simp: order_validate_iff MAX_ENTRIES_def) (simp_all add: reference_def)
  ultimately show ?thesis by (simp add: record_order_def MAX_ENTRIES_def)
qed

theorem recorded_order_restores_witness:
  "restore_order [reference 1 2, reference 2 1, reference 1 1, reference 2 2] [reference 2 2, reference 1 1, reference 1 2] =
     [reference 1 2, reference 1 1, reference 2 2] \<and>
   record_order [reference 2 1, reference 2 2] [reference 1 2, reference 2 1, reference 1 1, reference 2 2] =
     (Inr (), [reference 1 2, reference 2 1, reference 1 1, reference 2 2])"
proof -
  note r = recorded_order_restores [OF demo_recorded]
  have "mset [reference 2 2, reference 1 1, reference 1 2] = mset [reference 1 2, reference 1 1, reference 2 2]" by simp
  moreover have "restore_order [reference 1 2, reference 2 1, reference 1 1, reference 2 2] [reference 2 2, reference 2 1] =
      [reference 2 1, reference 2 2]" by (simp add: restore_order_def)
  moreover have "distinct [reference 2 2, reference 2 1] \<and>
      set [reference 2 2, reference 2 1] \<subseteq> set [reference 1 2, reference 2 1, reference 1 1, reference 2 2]" by simp
  ultimately show ?thesis using r by metis
qed

end
