(* ===== verification/Workspace_Strip.thy ===== *)
theory Workspace_Strip
  imports Rust_Text Parked_Order
begin

text \<open>
  The Workspaces a window presents (\<open>workspace_collection.rs\<close>), in their order, with the ones parked while
  a close waits for its server. The code keeps the visible Workspaces and the parked ones apart,
  with a position for each parked one; the contract is one order in which some Workspaces are
  hidden, and every operation refines its counterpart there.
\<close>

section \<open>The collection\<close>

record 'a workspace_entry =
  we_id :: u64
  we_name :: rust_string
  we_payload :: 'a

record 'a workspace_collection =
  wc_workspaces :: "'a workspace_entry list"
  wc_parked :: "(nat \<times> 'a workspace_entry) list"
  wc_active :: "u64 option"
  wc_next :: u64

datatype workspace_error =
  WorkspaceNotFound u64
| WorkspaceIdSpaceExhausted
| WorkspacePositionOutOfRange nat nat  \<comment> \<open>position, len\<close>

definition empty_collection :: "'a workspace_collection" where
  "empty_collection = \<lparr>wc_workspaces = [], wc_parked = [], wc_active = None, wc_next = 1\<rparr>"

definition find_entry :: "u64 \<Rightarrow> 'a workspace_collection \<Rightarrow> 'a workspace_entry option" where
  "find_entry i c = List.find (\<lambda>w. we_id w = i) (wc_workspaces c)"

definition active_workspace :: "'a workspace_collection \<Rightarrow> 'a workspace_entry option" where
  "active_workspace c = Option.bind (wc_active c) (\<lambda>i. find_entry i c)"

definition next_workspace_id :: "'a workspace_collection \<Rightarrow> workspace_error + u64 \<times> u64" where
  "next_workspace_id c = (case checked_add (wc_next c) 1 of
     None \<Rightarrow> Inl WorkspaceIdSpaceExhausted | Some n \<Rightarrow> Inr (wc_next c, n))"

definition present_workspace :: "rust_string \<Rightarrow> (u64 \<Rightarrow> 'a) \<Rightarrow> 'a workspace_collection \<Rightarrow>
    (workspace_error + u64) \<times> 'a workspace_collection" where
  "present_workspace name create_payload c =
     (case next_workspace_id c of
        Inl e \<Rightarrow> (Inl e, c)
      | Inr (i, n) \<Rightarrow>
          (Inr i, c\<lparr>wc_workspaces := wc_workspaces c @ [\<lparr>we_id = i, we_name = name, we_payload = create_payload i\<rparr>],
                    wc_active := Some i, wc_next := n\<rparr>))"

definition activate_workspace :: "u64 \<Rightarrow> 'a workspace_collection \<Rightarrow> (workspace_error + unit) \<times> 'a workspace_collection" where
  "activate_workspace i c =
     (if find_entry i c = None then (Inl (WorkspaceNotFound i), c) else (Inr (), c\<lparr>wc_active := Some i\<rparr>))"

definition move_workspace :: "u64 \<Rightarrow> nat \<Rightarrow> 'a workspace_collection \<Rightarrow> (workspace_error + bool) \<times> 'a workspace_collection" where
  "move_workspace i to c =
     (case position (\<lambda>w. we_id w = i) (wc_workspaces c) of
        None \<Rightarrow> (Inl (WorkspaceNotFound i), c)
      | Some index \<Rightarrow>
          if length (wc_workspaces c) \<le> to then (Inl (WorkspacePositionOutOfRange to (length (wc_workspaces c))), c)
          else if index = to then (Inr False, c)
          else (Inr True, c\<lparr>wc_workspaces := insert_at to (wc_workspaces c ! index) (remove_at index (wc_workspaces c))\<rparr>))"

definition rename_presented :: "u64 \<Rightarrow> rust_string \<Rightarrow> 'a workspace_collection \<Rightarrow> (workspace_error + unit) \<times> 'a workspace_collection" where
  "rename_presented i name c =
     (if find_entry i c = None then (Inl (WorkspaceNotFound i), c)
      else (Inr (), c\<lparr>wc_workspaces := update_first (\<lambda>w. we_id w = i) (\<lambda>w. w\<lparr>we_name := name\<rparr>) (wc_workspaces c)\<rparr>))"

definition take_workspace :: "u64 \<Rightarrow> 'a workspace_collection \<Rightarrow>
    (workspace_error + nat \<times> 'a workspace_entry) \<times> 'a workspace_collection" where
  "take_workspace i c =
     (case position (\<lambda>w. we_id w = i) (wc_workspaces c) of
        None \<Rightarrow> (Inl (WorkspaceNotFound i), c)
      | Some index \<Rightarrow>
          let rest = remove_at index (wc_workspaces c);
              k = min index (length rest - 1)
          in (Inr (index, wc_workspaces c ! index),
              c\<lparr>wc_workspaces := rest,
                wc_active := (if wc_active c = Some i
                              then if k < length rest then Some (we_id (rest ! k)) else None
                              else wc_active c)\<rparr>))"

definition position_with_parked :: "(nat \<times> 'e) list \<Rightarrow> nat \<Rightarrow> nat" where
  "position_with_parked parked visible = fold (\<lambda>(p, _) v. if p \<le> v then v + 1 else v) parked visible"

definition retire_parked_position :: "nat \<Rightarrow> (nat \<times> 'e) list \<Rightarrow> (nat \<times> 'e) list" where
  "retire_parked_position at parked = map (\<lambda>(p, e). (if at < p then p - 1 else p, e)) parked"

definition remove_workspace :: "u64 \<Rightarrow> 'a workspace_collection \<Rightarrow> (workspace_error + 'a) \<times> 'a workspace_collection" where
  "remove_workspace i c =
     (case take_workspace i c of
        (Inl e, _) \<Rightarrow> (Inl e, c)
      | (Inr (at, entry), c) \<Rightarrow>
          (Inr (we_payload entry), c\<lparr>wc_parked := retire_parked_position (position_with_parked (wc_parked c) at) (wc_parked c)\<rparr>))"

definition park_workspace :: "u64 \<Rightarrow> 'a workspace_collection \<Rightarrow> (workspace_error + unit) \<times> 'a workspace_collection" where
  "park_workspace i c =
     (case take_workspace i c of
        (Inl e, _) \<Rightarrow> (Inl e, c)
      | (Inr (at, entry), c) \<Rightarrow>
          let at = position_with_parked (wc_parked c) at;
              index = length (takeWhile (\<lambda>(p, _). p < at) (wc_parked c))
          in (Inr (), c\<lparr>wc_parked := insert_at index (at, entry) (wc_parked c)\<rparr>))"

definition restore_workspace :: "u64 \<Rightarrow> 'a workspace_collection \<Rightarrow> (workspace_error + unit) \<times> 'a workspace_collection" where
  "restore_workspace i c =
     (case position (\<lambda>(_, w). we_id w = i) (wc_parked c) of
        None \<Rightarrow> (Inl (WorkspaceNotFound i), c)
      | Some index \<Rightarrow>
          let (at, entry) = wc_parked c ! index
          in (Inr (), c\<lparr>wc_parked := remove_at index (wc_parked c),
                wc_workspaces := insert_at (min (at - index) (length (wc_workspaces c))) entry (wc_workspaces c),
                wc_active := (if wc_active c = None then Some i else wc_active c)\<rparr>))"

definition discard_parked_workspace :: "u64 \<Rightarrow> 'a workspace_collection \<Rightarrow> (workspace_error + 'a) \<times> 'a workspace_collection" where
  "discard_parked_workspace i c =
     (case position (\<lambda>(_, w). we_id w = i) (wc_parked c) of
        None \<Rightarrow> (Inl (WorkspaceNotFound i), c)
      | Some index \<Rightarrow>
          let (at, entry) = wc_parked c ! index
          in (Inr (we_payload entry), c\<lparr>wc_parked := retire_parked_position at (remove_at index (wc_parked c))\<rparr>))"


section \<open>The order behind the collection\<close>

definition strip_order :: "'a workspace_collection \<Rightarrow> (bool \<times> 'a workspace_entry) list" where
  "strip_order c = merged 0 (wc_parked c) (wc_workspaces c)"

definition strip_views :: "'a workspace_collection \<Rightarrow> bool" where
  "strip_views c \<longleftrightarrow> shown (strip_order c) = wc_workspaces c \<and> hidden_at 0 (strip_order c) = wc_parked c"

definition strip_ok :: "'a workspace_collection \<Rightarrow> bool" where
  "strip_ok c \<longleftrightarrow> strip_views c \<and> distinct (map (we_id \<circ> snd) (strip_order c)) \<and>
     list_all (\<lambda>x. we_id (snd x) < wc_next c) (strip_order c) \<and> wc_next c \<le> u64_max \<and>
     (case wc_active c of None \<Rightarrow> wc_workspaces c = [] | Some i \<Rightarrow> i \<in> we_id ` set (wc_workspaces c))"

datatype 'a strip_op =
  Present rust_string "u64 \<Rightarrow> 'a"
| Activate u64
| MoveTo u64 nat
| Rename u64 rust_string
| Remove u64
| Park u64
| Restore u64
| Discard u64

fun run_strip :: "'a strip_op \<Rightarrow> 'a workspace_collection \<Rightarrow> 'a workspace_collection" where
  "run_strip (Present name create) c = snd (present_workspace name create c)"
| "run_strip (Activate i) c = snd (activate_workspace i c)"
| "run_strip (MoveTo i to) c = snd (move_workspace i to c)"
| "run_strip (Rename i name) c = snd (rename_presented i name c)"
| "run_strip (Remove i) c = snd (remove_workspace i c)"
| "run_strip (Park i) c = snd (park_workspace i c)"
| "run_strip (Restore i) c = snd (restore_workspace i c)"
| "run_strip (Discard i) c = snd (discard_parked_workspace i c)"

text \<open>What each operation means for the order. Moving reorders the visible Workspaces around the parked
  ones.\<close>

definition moved_to :: "u64 \<Rightarrow> nat \<Rightarrow> 'a workspace_entry list \<Rightarrow> 'a workspace_entry list" where
  "moved_to i to vs =
     (let others = filter (\<lambda>w. we_id w \<noteq> i) vs
      in if to < length vs then take to others @ filter (\<lambda>w. we_id w = i) vs @ drop to others else vs)"

fun order_op :: "u64 \<Rightarrow> 'a strip_op \<Rightarrow> (bool \<times> 'a workspace_entry) list \<Rightarrow> (bool \<times> 'a workspace_entry) list" where
  "order_op n (Present name create) L =
     (if n < u64_max then L @ [(False, \<lparr>we_id = n, we_name = name, we_payload = create n\<rparr>)] else L)"
| "order_op n (Activate i) L = L"
| "order_op n (MoveTo i to) L = refill (moved_to i to (shown L)) L"
| "order_op n (Rename i name) L =
     map (\<lambda>(h, e). if \<not> h \<and> we_id e = i then (h, e\<lparr>we_name := name\<rparr>) else (h, e)) L"
| "order_op n (Remove i) L = filter (\<lambda>(h, e). h \<or> we_id e \<noteq> i) L"
| "order_op n (Park i) L = mark we_id True i L"
| "order_op n (Restore i) L = mark we_id False i L"
| "order_op n (Discard i) L = filter (\<lambda>(h, e). \<not> h \<or> we_id e \<noteq> i) L"

lemma strip_order_eq: "wc_workspaces c = shown L \<Longrightarrow> wc_parked c = hidden_at 0 L \<Longrightarrow> strip_order c = L"
  by (simp add: strip_order_def merged_views)

lemma strip_okI:
  assumes "wc_workspaces c = shown L" "wc_parked c = hidden_at 0 L" "distinct (map (we_id \<circ> snd) L)"
    and "\<forall>x\<in>set L. we_id (snd x) < wc_next c" "wc_next c \<le> u64_max"
    and "case wc_active c of None \<Rightarrow> shown L = [] | Some i \<Rightarrow> i \<in> we_id ` set (shown L)"
  shows "strip_ok c \<and> strip_order c = L"
  using assms strip_order_eq [of c L] by (auto simp: strip_ok_def strip_views_def list_all_iff split: option.splits)

lemma strip_okD:
  assumes "strip_ok c"
  shows "wc_workspaces c = shown (strip_order c)" "wc_parked c = hidden_at 0 (strip_order c)"
    "distinct (map (we_id \<circ> snd) (strip_order c))" "\<forall>x\<in>set (strip_order c). we_id (snd x) < wc_next c" "wc_next c \<le> u64_max"
    "case wc_active c of None \<Rightarrow> shown (strip_order c) = [] | Some i \<Rightarrow> i \<in> we_id ` set (shown (strip_order c))"
  using assms by (auto simp: strip_ok_def strip_views_def list_all_iff split: option.splits)

lemma strip_place:
  assumes "strip_ok c" "position (\<lambda>w. we_id w = i) (wc_workspaces c) = Some index"
  obtains A e B where "strip_order c = A @ (False, e) # B" "we_id e = i" "index = length (shown A)"
    "i \<notin> (we_id \<circ> snd) ` set (A @ B)" "wc_workspaces c = shown A @ e # shown B"
    "wc_parked c = hidden_at 0 A @ hidden_at (Suc (length A)) B"
proof -
  note d = strip_okD [OF assms(1)]
  have index: "index < length (shown (strip_order c))" "we_id (shown (strip_order c) ! index) = i"
    using assms(2) position_SomeD [of "\<lambda>w. we_id w = i"] d(1) by auto
  obtain A e B where L: "strip_order c = A @ (False, e) # B" "length (shown A) = index" "shown (strip_order c) ! index = e"
    using shown_split [OF index(1)] by blast
  with index(2) d(1-3) show ?thesis by (intro that [of A e B]) auto
qed

lemma strip_parked_place:
  assumes "strip_ok c" "position (\<lambda>(_, w). we_id w = i) (wc_parked c) = Some index"
  obtains A e B where "strip_order c = A @ (True, e) # B" "we_id e = i" "index = length (hidden_at 0 A)"
    "i \<notin> (we_id \<circ> snd) ` set (A @ B)" "wc_workspaces c = shown A @ shown B"
    "wc_parked c = hidden_at 0 A @ (length A, e) # hidden_at (Suc (length A)) B"
proof -
  note d = strip_okD [OF assms(1)]
  have index: "index < length (hidden_at 0 (strip_order c))" "we_id (snd (hidden_at 0 (strip_order c) ! index)) = i"
    using assms(2) position_SomeD [of "\<lambda>(_, w). we_id w = i"] d(2) by (auto simp: case_prod_beta)
  obtain A e B where L: "strip_order c = A @ (True, e) # B" "length (hidden_at 0 A) = index"
      "hidden_at 0 (strip_order c) ! index = (0 + length A, e)"
    using hidden_split [OF index(1)] by blast
  with index(2) d(1-3) show ?thesis by (intro that [of A e B]) auto
qed


section \<open>Every operation refines its counterpart\<close>

lemma ids_away:
  assumes "i \<notin> (we_id \<circ> snd) ` set L"
  shows "mark we_id h i L = L" "filter (\<lambda>(h, e). h \<or> we_id e \<noteq> i) L = L" "filter (\<lambda>(h, e). \<not> h \<or> we_id e \<noteq> i) L = L"
    "filter (\<lambda>w. we_id w = i) (shown L) = []" "filter (\<lambda>w. we_id w \<noteq> i) (shown L) = shown L"
    "map (\<lambda>(h, e). if \<not> h \<and> we_id e = i then (h, f e) else (h, e)) L = L"
  using assms by (induction L) (auto simp: mark_def)

lemma absent_shown:
  assumes "strip_ok c" "position (\<lambda>w. we_id w = i) (wc_workspaces c) = None"
  shows "mark we_id True i (strip_order c) = strip_order c" "filter (\<lambda>(h, e). h \<or> we_id e \<noteq> i) (strip_order c) = strip_order c"
    "map (\<lambda>(h, e). if \<not> h \<and> we_id e = i then (h, f e) else (h, e)) (strip_order c) = strip_order c"
    "filter (\<lambda>w. we_id w = i) (shown (strip_order c)) = []" "filter (\<lambda>w. we_id w \<noteq> i) (shown (strip_order c)) = shown (strip_order c)"
proof -
  have none: "i \<notin> we_id ` set (shown (strip_order c))" using assms(2) strip_okD(1) [OF assms(1)] by auto
  have "mark we_id True i L = L \<and> filter (\<lambda>(h, e). h \<or> we_id e \<noteq> i) L = L \<and>
      map (\<lambda>(h, e). if \<not> h \<and> we_id e = i then (h, f e) else (h, e)) L = L"
    if "i \<notin> we_id ` set (shown L)" for L
    using that by (induction L) (auto split: if_splits)
  then show "mark we_id True i (strip_order c) = strip_order c" "filter (\<lambda>(h, e). h \<or> we_id e \<noteq> i) (strip_order c) = strip_order c"
    "map (\<lambda>(h, e). if \<not> h \<and> we_id e = i then (h, f e) else (h, e)) (strip_order c) = strip_order c"
    using none by blast+
  show "filter (\<lambda>w. we_id w = i) (shown (strip_order c)) = []" "filter (\<lambda>w. we_id w \<noteq> i) (shown (strip_order c)) = shown (strip_order c)"
    using none by (auto simp: filter_empty_conv filter_id_conv)
qed

lemma absent_parked:
  assumes "strip_ok c" "position (\<lambda>(_, w). we_id w = i) (wc_parked c) = None"
  shows "mark we_id False i (strip_order c) = strip_order c" "filter (\<lambda>(h, e). \<not> h \<or> we_id e \<noteq> i) (strip_order c) = strip_order c"
proof -
  have "\<forall>x\<in>set (hidden_at 0 (strip_order c)). we_id (snd x) \<noteq> i" using assms(2) strip_okD(2) [OF assms(1)] by auto
  moreover have "mark we_id False i L = L \<and> filter (\<lambda>(h, e). \<not> h \<or> we_id e \<noteq> i) L = L"
    if "\<forall>x\<in>set (hidden_at k L). we_id (snd x) \<noteq> i" for L k
    using that by (induction L arbitrary: k) (auto split: if_splits)
  ultimately show "mark we_id False i (strip_order c) = strip_order c"
    "filter (\<lambda>(h, e). \<not> h \<or> we_id e \<noteq> i) (strip_order c) = strip_order c" by blast+
qed

lemma find_entry_None: "find_entry i c = None \<longleftrightarrow> position (\<lambda>w. we_id w = i) (wc_workspaces c) = None"
  by (auto simp: find_entry_def find_None_iff)

lemma take_absent: "position (\<lambda>w. we_id w = i) (wc_workspaces c) = None \<Longrightarrow> take_workspace i c = (Inl (WorkspaceNotFound i), c)"
  by (simp only: take_workspace_def option.case)

lemma parked_absent:
  assumes "position (\<lambda>(_, w). we_id w = i) (wc_parked c) = None"
  shows "restore_workspace i c = (Inl (WorkspaceNotFound i), c)" "discard_parked_workspace i c = (Inl (WorkspaceNotFound i), c)"
  by (simp_all only: restore_workspace_def discard_parked_workspace_def assms option.case)

lemma take_at_place:
  assumes "strip_ok c" "position (\<lambda>w. we_id w = i) (wc_workspaces c) = Some index"
  obtains A e B b where "strip_order c = A @ (False, e) # B" "we_id e = i" "i \<notin> (we_id \<circ> snd) ` set (A @ B)"
    "take_workspace i c = (Inr (length (shown A), e), c\<lparr>wc_workspaces := shown (A @ B), wc_active := b\<rparr>)"
    "wc_parked c = hidden_at 0 A @ hidden_at (Suc (length A)) B"
    "case b of None \<Rightarrow> shown (A @ B) = [] | Some j \<Rightarrow> j \<in> we_id ` set (shown (A @ B))"
proof -
  obtain A e B where p: "strip_order c = A @ (False, e) # B" "we_id e = i" "index = length (shown A)"
    "i \<notin> (we_id \<circ> snd) ` set (A @ B)" "wc_workspaces c = shown A @ e # shown B"
    "wc_parked c = hidden_at 0 A @ hidden_at (Suc (length A)) B" using strip_place [OF assms] by metis
  let ?rest = "shown (A @ B)"
  let ?k = "min index (length ?rest - 1)"
  define b where "b = (if wc_active c = Some i then if ?k < length ?rest then Some (we_id (?rest ! ?k)) else None else wc_active c)"
  have rest: "remove_at index (wc_workspaces c) = ?rest" "wc_workspaces c ! index = e" by (simp_all add: p(3,5))
  have "take_workspace i c = (Inr (length (shown A), e), c\<lparr>wc_workspaces := ?rest, wc_active := b\<rparr>)"
    by (simp only: take_workspace_def b_def Let_def assms(2) option.case rest p(3) [symmetric])
  moreover have "case b of None \<Rightarrow> ?rest = [] | Some j \<Rightarrow> j \<in> we_id ` set ?rest"
  proof (cases "wc_active c = Some i")
    case True
    then show ?thesis by (cases "?rest = []") (simp_all add: b_def min_less_iff_disj del: shown_simps)
  next
    case False
    then show ?thesis using strip_okD(6) [OF assms(1)] p(1,2) by (auto simp: b_def split: option.splits)
  qed
  ultimately show ?thesis using that p by blast
qed

lemma park_refines:
  assumes "strip_ok c"
  shows "strip_ok (run_strip (Park i) c) \<and> strip_order (run_strip (Park i) c) = order_op n (Park i) (strip_order c)"
proof (cases "position (\<lambda>w. we_id w = i) (wc_workspaces c)")
  case None
  then show ?thesis using assms absent_shown [OF assms None] by (simp add: park_workspace_def take_absent [OF None])
next
  case (Some index)
  obtain A e B b where t: "strip_order c = A @ (False, e) # B" "we_id e = i" "i \<notin> (we_id \<circ> snd) ` set (A @ B)"
    "take_workspace i c = (Inr (length (shown A), e), c\<lparr>wc_workspaces := shown (A @ B), wc_active := b\<rparr>)"
    "wc_parked c = hidden_at 0 A @ hidden_at (Suc (length A)) B"
    "case b of None \<Rightarrow> shown (A @ B) = [] | Some j \<Rightarrow> j \<in> we_id ` set (shown (A @ B))" using take_at_place [OF assms Some] by metis
  have "run_strip (Park i) c = c\<lparr>wc_workspaces := shown (A @ B), wc_active := b,
      wc_parked := insert_at (length (hidden_at 0 A)) (length A, e) (wc_parked c)\<rparr>"
    using skip_hidden_place(2) [of A B] hidden_insert [of A B] t(4,5)
    by (simp add: park_workspace_def Let_def position_with_parked_def skip_hidden_def)
  then have "strip_ok (run_strip (Park i) c) \<and> strip_order (run_strip (Park i) c) = A @ (True, e) # B"
    using strip_okD [OF assms] t by (intro strip_okI) (auto split: option.splits)
  then show ?thesis using t ids_away(1) [of i A] ids_away(1) [of i B] by (simp add: image_Un)
qed

lemma restore_refines:
  assumes "strip_ok c"
  shows "strip_ok (run_strip (Restore i) c) \<and> strip_order (run_strip (Restore i) c) = order_op n (Restore i) (strip_order c)"
proof (cases "position (\<lambda>(_, w). we_id w = i) (wc_parked c)")
  case None
  then show ?thesis using assms absent_parked [OF assms None] by (simp add: parked_absent [OF None])
next
  case (Some index)
  obtain A e B where t: "strip_order c = A @ (True, e) # B" "we_id e = i" "index = length (hidden_at 0 A)"
    "i \<notin> (we_id \<circ> snd) ` set (A @ B)" "wc_workspaces c = shown A @ shown B"
    "wc_parked c = hidden_at 0 A @ (length A, e) # hidden_at (Suc (length A)) B" using strip_parked_place [OF assms Some] by metis
  have "run_strip (Restore i) c = c\<lparr>wc_parked := hidden_at 0 (A @ (False, e) # B), wc_workspaces := shown (A @ (False, e) # B),
      wc_active := (if wc_active c = None then Some i else wc_active c)\<rparr>"
    using Some t by (simp add: restore_workspace_def hidden_length)
  then have "strip_ok (run_strip (Restore i) c) \<and> strip_order (run_strip (Restore i) c) = A @ (False, e) # B"
    using strip_okD [OF assms] t by (intro strip_okI) (auto split: option.splits)
  then show ?thesis using t ids_away(1) [of i A] ids_away(1) [of i B] by (simp add: image_Un)
qed

lemma remove_refines:
  assumes "strip_ok c"
  shows "strip_ok (run_strip (Remove i) c) \<and> strip_order (run_strip (Remove i) c) = order_op n (Remove i) (strip_order c)"
proof (cases "position (\<lambda>w. we_id w = i) (wc_workspaces c)")
  case None
  then show ?thesis using assms absent_shown [OF assms None] by (simp add: remove_workspace_def take_absent [OF None])
next
  case (Some index)
  obtain A e B b where t: "strip_order c = A @ (False, e) # B" "we_id e = i" "i \<notin> (we_id \<circ> snd) ` set (A @ B)"
    "take_workspace i c = (Inr (length (shown A), e), c\<lparr>wc_workspaces := shown (A @ B), wc_active := b\<rparr>)"
    "wc_parked c = hidden_at 0 A @ hidden_at (Suc (length A)) B"
    "case b of None \<Rightarrow> shown (A @ B) = [] | Some j \<Rightarrow> j \<in> we_id ` set (shown (A @ B))" using take_at_place [OF assms Some] by metis
  have "run_strip (Remove i) c = c\<lparr>wc_workspaces := shown (A @ B), wc_active := b, wc_parked := hidden_at 0 (A @ B)\<rparr>"
    using skip_hidden_place(2) [of A B] hidden_retire [of A B] t(4,5)
    by (simp add: remove_workspace_def position_with_parked_def skip_hidden_def retire_parked_position_def)
  then have "strip_ok (run_strip (Remove i) c) \<and> strip_order (run_strip (Remove i) c) = A @ B"
    using strip_okD [OF assms] t by (intro strip_okI) (auto split: option.splits)
  then show ?thesis using t ids_away(2) [of i A] ids_away(2) [of i B] by (simp add: image_Un)
qed

lemma discard_refines:
  assumes "strip_ok c"
  shows "strip_ok (run_strip (Discard i) c) \<and> strip_order (run_strip (Discard i) c) = order_op n (Discard i) (strip_order c)"
proof (cases "position (\<lambda>(_, w). we_id w = i) (wc_parked c)")
  case None
  then show ?thesis using assms absent_parked [OF assms None] by (simp add: parked_absent [OF None])
next
  case (Some index)
  obtain A e B where t: "strip_order c = A @ (True, e) # B" "we_id e = i" "index = length (hidden_at 0 A)"
    "i \<notin> (we_id \<circ> snd) ` set (A @ B)" "wc_workspaces c = shown A @ shown B"
    "wc_parked c = hidden_at 0 A @ (length A, e) # hidden_at (Suc (length A)) B" using strip_parked_place [OF assms Some] by metis
  have "run_strip (Discard i) c = c\<lparr>wc_parked := hidden_at 0 (A @ B)\<rparr>"
    using Some t hidden_retire [of A B] by (simp add: discard_parked_workspace_def retire_parked_position_def)
  then have "strip_ok (run_strip (Discard i) c) \<and> strip_order (run_strip (Discard i) c) = A @ B"
    using strip_okD [OF assms] t by (intro strip_okI) (auto split: option.splits)
  then show ?thesis using t ids_away(3) [of i A] ids_away(3) [of i B] by (simp add: image_Un)
qed


lemma present_refines:
  assumes "strip_ok c"
  shows "strip_ok (run_strip (Present name create) c) \<and>
    strip_order (run_strip (Present name create) c) = order_op (wc_next c) (Present name create) (strip_order c)"
proof (cases "wc_next c < u64_max")
  case True
  let ?e = "\<lparr>we_id = wc_next c, we_name = name, we_payload = create (wc_next c)\<rparr>"
  have "run_strip (Present name create) c = c\<lparr>wc_workspaces := shown (strip_order c @ [(False, ?e)]), wc_active := Some (wc_next c),
      wc_next := wc_next c + 1\<rparr>"
    using True strip_okD(1) [OF assms] by (simp add: present_workspace_def next_workspace_id_def checked_add_def)
  then have "strip_ok (run_strip (Present name create) c) \<and> strip_order (run_strip (Present name create) c) = strip_order c @ [(False, ?e)]"
    using strip_okD [OF assms] True by (intro strip_okI) (auto intro: less_SucI)
  then show ?thesis using True by simp
next
  case False
  then show ?thesis using assms by (simp add: present_workspace_def next_workspace_id_def checked_add_def)
qed

lemma activate_refines:
  assumes "strip_ok c"
  shows "strip_ok (run_strip (Activate i) c) \<and> strip_order (run_strip (Activate i) c) = order_op n (Activate i) (strip_order c)"
proof (cases "find_entry i c")
  case None
  then show ?thesis using assms by (simp add: activate_workspace_def)
next
  case (Some e)
  then have "i \<in> we_id ` set (shown (strip_order c))" using strip_okD(1) [OF assms] by (auto simp: find_entry_def find_Some_iff)
  then have "strip_ok (c\<lparr>wc_active := Some i\<rparr>) \<and> strip_order (c\<lparr>wc_active := Some i\<rparr>) = strip_order c"
    using strip_okD [OF assms] by (intro strip_okI) auto
  then show ?thesis using Some by (simp add: activate_workspace_def)
qed

lemma rename_refines:
  assumes "strip_ok c"
  shows "strip_ok (run_strip (Rename i name) c) \<and> strip_order (run_strip (Rename i name) c) = order_op n (Rename i name) (strip_order c)"
proof (cases "position (\<lambda>w. we_id w = i) (wc_workspaces c)")
  case None
  then show ?thesis using assms absent_shown(3) [OF assms None, of "we_name_update (\<lambda>_. name)"]
    by (simp add: rename_presented_def find_entry_None [THEN iffD2, OF None])
next
  case (Some index)
  obtain A e B where t: "strip_order c = A @ (False, e) # B" "we_id e = i" "index = length (shown A)"
    "i \<notin> (we_id \<circ> snd) ` set (A @ B)" "wc_workspaces c = shown A @ e # shown B"
    "wc_parked c = hidden_at 0 A @ hidden_at (Suc (length A)) B" using strip_place [OF assms Some] by metis
  obtain w where found: "find_entry i c = Some w" using find_entry_None [of i c] Some by (cases "find_entry i c") simp_all
  have first: "update_first p f (xs @ x # ys) = xs @ f x # ys" if "\<forall>x\<in>set xs. \<not> p x" "p x" for p f xs and x :: "'a workspace_entry" and ys
    using that by (induction xs) auto
  have "\<forall>w\<in>set (shown A). we_id w \<noteq> i" using shown_away [of i we_id "A @ B"] t(4) by auto
  then have "run_strip (Rename i name) c = c\<lparr>wc_workspaces := shown (A @ (False, e\<lparr>we_name := name\<rparr>) # B)\<rparr>"
    using found t(2,5) by (simp add: rename_presented_def first)
  then have "strip_ok (run_strip (Rename i name) c) \<and> strip_order (run_strip (Rename i name) c) = A @ (False, e\<lparr>we_name := name\<rparr>) # B"
    using strip_okD [OF assms] t by (intro strip_okI) (auto split: option.splits)
  then show ?thesis using t ids_away(6) [of i A] ids_away(6) [of i B] by (simp add: image_Un)
qed

lemma moved_to_place:
  assumes "we_id e = i" "i \<notin> we_id ` set (xs @ ys)" "to < length (xs @ e # ys)"
  shows "moved_to i to (xs @ e # ys) = insert_at to e (xs @ ys)"
proof -
  have away: "filter (\<lambda>w. we_id w \<noteq> i) zs = zs" "filter (\<lambda>w. we_id w = i) zs = []" if "zs = xs \<or> zs = ys" for zs
    using assms(2) that by (auto simp: filter_id_conv filter_empty_conv)
  have "filter (\<lambda>w. we_id w \<noteq> i) (xs @ e # ys) = xs @ ys" "filter (\<lambda>w. we_id w = i) (xs @ e # ys) = [e]"
    using assms(1) away by simp_all
  then show ?thesis using assms(3) by (simp only: moved_to_def Let_def if_True insert_at_def append.simps)
qed

lemma refill_same: "refill (shown L) L = L"
proof (induction L)
  case (Cons x L)
  then show ?case by (cases x; cases "fst x") auto
qed simp

lemma move_refines:
  assumes "strip_ok c"
  shows "strip_ok (run_strip (MoveTo i to) c) \<and> strip_order (run_strip (MoveTo i to) c) = order_op n (MoveTo i to) (strip_order c)"
proof (cases "position (\<lambda>w. we_id w = i) (wc_workspaces c)")
  case None
  have "moved_to i to (shown (strip_order c)) = shown (strip_order c)" using absent_shown(4,5) [OF assms None] by (simp add: moved_to_def Let_def)
  moreover have "run_strip (MoveTo i to) c = c" by (simp only: run_strip.simps move_workspace_def None option.case snd_conv)
  ultimately show ?thesis using assms by (simp add: refill_same)
next
  case (Some index)
  obtain A e B where t: "strip_order c = A @ (False, e) # B" "we_id e = i" "index = length (shown A)"
    "i \<notin> (we_id \<circ> snd) ` set (A @ B)" "wc_workspaces c = shown A @ e # shown B"
    "wc_parked c = hidden_at 0 A @ hidden_at (Suc (length A)) B" using strip_place [OF assms Some] by metis
  let ?L = "strip_order c" and ?vs = "moved_to i to (shown (strip_order c))"
  have away: "i \<notin> we_id ` set (shown A @ shown B)" using shown_away [of i we_id "A @ B"] t(4) by simp
  have vs: "?vs = (if length (wc_workspaces c) \<le> to then wc_workspaces c else insert_at to e (shown A @ shown B))"
  proof (cases "length (wc_workspaces c) \<le> to")
    case True
    then show ?thesis using strip_okD(1) [OF assms] by (simp add: moved_to_def Let_def)
  next
    case False
    then have "moved_to i to (wc_workspaces c) = insert_at to e (shown A @ shown B)"
      unfolding t(5) by (intro moved_to_place [OF t(2) away]) simp
    with False show ?thesis using strip_okD(1) [OF assms] by simp
  qed
  have "mset ?vs = mset (wc_workspaces c)" unfolding vs using mset_insert_at [of to e "shown A @ shown B"] t(5) by simp
  then have mset: "mset ?vs = mset (shown ?L)" using strip_okD(1) [OF assms] by simp
  note len = mset_eq_length [OF mset]
  have run: "run_strip (MoveTo i to) c = c\<lparr>wc_workspaces := ?vs\<rparr>"
  proof -
    have at: "wc_workspaces c ! index = e" "remove_at index (wc_workspaces c) = shown A @ shown B" by (simp_all add: t(3,5))
    have "insert_at index e (shown A @ shown B) = wc_workspaces c" by (simp add: t(3,5))
    then show ?thesis unfolding run_strip.simps move_workspace_def Some vs using at by (cases "index = to") simp_all
  qed
  have "mset (map snd (refill ?vs ?L)) = mset (map snd ?L)" using refill_views(3) [OF len] mset by simp
  then have same: "mset (map we_id (map snd (refill ?vs ?L))) = mset (map we_id (map snd ?L))" "set (map snd (refill ?vs ?L)) = set (map snd ?L)"
    by (simp_all only: mset_map) (metis mset_map set_mset_mset)
  have "distinct (map we_id (map snd (refill ?vs ?L)))" using mset_eq_imp_distinct_iff [OF same(1)] strip_okD(3) [OF assms] by simp
  moreover have "\<forall>e\<in>set (map snd (refill ?vs ?L)). we_id e < wc_next c" unfolding same(2) using strip_okD(4) [OF assms] by simp
  moreover have "set ?vs = set (shown ?L)" "?vs = [] \<longleftrightarrow> shown ?L = []" using mset_eq_setD [OF mset] mset by auto
  ultimately show ?thesis
    unfolding run order_op.simps using strip_okD [OF assms] refill_views(1,2) [OF len]
    by (intro strip_okI) (simp_all add: comp_def split: option.splits)
qed

section \<open>The collection as a parked order\<close>

lemma run_strip_refines:
  assumes "strip_ok c"
  shows "strip_ok (run_strip a c) \<and> strip_order (run_strip a c) = order_op (wc_next c) a (strip_order c)"
proof (cases a)
  case (Present name create)
  then show ?thesis using present_refines [OF assms] by blast
next
  case (Activate i)
  then show ?thesis using activate_refines [OF assms] by blast
next
  case (MoveTo i to)
  then show ?thesis using move_refines [OF assms] by blast
next
  case (Rename i name)
  then show ?thesis using rename_refines [OF assms] by blast
next
  case (Remove i)
  then show ?thesis using remove_refines [OF assms] by blast
next
  case (Park i)
  then show ?thesis using park_refines [OF assms] by blast
next
  case (Restore i)
  then show ?thesis using restore_refines [OF assms] by blast
next
  case (Discard i)
  then show ?thesis using discard_refines [OF assms] by blast
qed

lemma empty_collection_ok: "strip_ok empty_collection"
  by (simp add: strip_ok_def strip_views_def strip_order_def empty_collection_def u64_max_def)

lemma fold_strip_ok: "strip_ok c \<Longrightarrow> strip_ok (fold run_strip as c)"
  by (induction as arbitrary: c) (simp_all add: run_strip_refines)

text \<open>An operation that neither names the Workspace nor reorders the visible ones.\<close>

fun apart_from :: "u64 \<Rightarrow> 'a strip_op \<Rightarrow> bool" where
  "apart_from i (Present name create) \<longleftrightarrow> True"
| "apart_from i (Activate j) \<longleftrightarrow> True"
| "apart_from i (MoveTo j to) \<longleftrightarrow> False"
| "apart_from i (Rename j name) \<longleftrightarrow> j \<noteq> i"
| "apart_from i (Remove j) \<longleftrightarrow> j \<noteq> i"
| "apart_from i (Park j) \<longleftrightarrow> j \<noteq> i"
| "apart_from i (Restore j) \<longleftrightarrow> j \<noteq> i"
| "apart_from i (Discard j) \<longleftrightarrow> j \<noteq> i"

lemma order_op_mark:
  assumes "apart_from i a" "i < n"
  shows "order_op n a (mark we_id True i L) = mark we_id True i (order_op n a L)"
proof (cases a)
  case (Rename j name)
  then show ?thesis using assms by (induction L) auto
next
  case (Remove j)
  then show ?thesis using assms by (induction L) auto
next
  case (Discard j)
  then show ?thesis using assms by (induction L) auto
qed (use assms in \<open>simp_all add: mark_commute\<close>)

lemma order_op_visible:
  assumes "apart_from i a" "(False, e) \<in> set L" "we_id e = i"
  shows "\<exists>e'. (False, e') \<in> set (order_op n a L) \<and> we_id e' = i"
proof (cases a)
  case (Rename j name)
  then show ?thesis using assms by (intro exI [of _ e]) (force simp: image_iff)
qed (use assms in \<open>auto intro!: exI [of _ e] set_mark(1)\<close>)

lemma run_strip_next: "wc_next (run_strip a c) =
    (case a of Present _ _ \<Rightarrow> if wc_next c < u64_max then wc_next c + 1 else wc_next c | _ \<Rightarrow> wc_next c)"
  by (cases a) (auto simp: present_workspace_def next_workspace_id_def checked_add_def activate_workspace_def move_workspace_def
      rename_presented_def remove_workspace_def park_workspace_def restore_workspace_def discard_parked_workspace_def
      take_workspace_def Let_def split: option.splits prod.splits)

interpretation ws: parked_steps strip_order we_id strip_ok "\<lambda>_ _. True" "\<lambda>i. run_strip (Park i)" "\<lambda>i. run_strip (Restore i)"
    run_strip apart_from wc_next
proof unfold_locales
  fix c :: "'a workspace_collection" and k
  assume ok: "strip_ok c"
  show "distinct (map (we_id \<circ> snd) (strip_order c))" using strip_okD(3) [OF ok] .
  show "strip_ok (run_strip (Park k) c) \<and> strip_order (run_strip (Park k) c) = mark we_id True k (strip_order c)"
    using run_strip_refines [OF ok, of "Park k"] unfolding order_op.simps .
  show "strip_ok (run_strip (Restore k) c) \<and> strip_order (run_strip (Restore k) c) = mark we_id False k (strip_order c)"
    using run_strip_refines [OF ok, of "Restore k"] unfolding order_op.simps .
next
  fix c :: "'a workspace_collection" and k and a :: "'a strip_op" and e
  assume ok: "strip_ok c" and a: "apart_from k a" and e: "(False, e) \<in> set (strip_order c)" "we_id e = k"
  show "\<exists>e'. (False, e') \<in> set (strip_order (run_strip a c)) \<and> we_id e' = k"
    using order_op_visible [OF a e] run_strip_refines [OF ok] by metis
next
  fix c d :: "'a workspace_collection" and k and a :: "'a strip_op" and e
  assume ok: "strip_ok c" "strip_ok d" and a: "apart_from k a" and d: "strip_order d = mark we_id True k (strip_order c)"
    and n: "wc_next d = wc_next c" and e: "(False, e) \<in> set (strip_order c)" "we_id e = k"
  have "k < wc_next c" using strip_okD(4) [OF ok(1)] e by fastforce
  then show "strip_order (run_strip a d) = mark we_id True k (strip_order (run_strip a c)) \<and>
      wc_next (run_strip a d) = wc_next (run_strip a c)"
    using run_strip_refines [OF ok(1)] run_strip_refines [OF ok(2)] order_op_mark [OF a] d n
    by (simp add: run_strip_next split: strip_op.split)
next
  fix c :: "'a workspace_collection" and k and a :: "'a strip_op"
  show "strip_ok (run_strip a c)" if "strip_ok c" using run_strip_refines [OF that] by blast
  show "wc_next (run_strip (Park k) c) = wc_next c" unfolding run_strip_next by simp
qed

section \<open>Properties\<close>

text \<open>
  C15. Every operation of the collection does to the visible Workspaces and the parked positions what its
  counterpart does to one order in which some Workspaces are hidden. Presenting appends, moving
  reorders the visible ones around the hidden ones, removing and discarding delete, parking and
  restoring only change whether the Workspace is hidden. An operation that is refused changes nothing.
\<close>

theorem strip_refines_order:
  assumes "strip_ok c"
  shows "strip_ok (run_strip a c) \<and> strip_order (run_strip a c) = order_op (wc_next c) a (strip_order c) \<and>
    wc_workspaces (run_strip a c) = shown (order_op (wc_next c) a (strip_order c))"
  using run_strip_refines [OF assms] strip_okD(1) by metis

definition demo_strip :: "rust_string workspace_collection" where
  "demo_strip = fold run_strip [Present (lit ''a'') (\<lambda>_. []), Present (lit ''b'') (\<lambda>_. []), Present (lit ''c'') (\<lambda>_. [])] empty_collection"

lemma demo_strip_run:
  "demo_strip = \<lparr>wc_workspaces = [\<lparr>we_id = 1, we_name = lit ''a'', we_payload = []\<rparr>, \<lparr>we_id = 2, we_name = lit ''b'', we_payload = []\<rparr>,
      \<lparr>we_id = 3, we_name = lit ''c'', we_payload = []\<rparr>], wc_parked = [], wc_active = Some 3, wc_next = 4\<rparr>"
  by (simp add: demo_strip_def empty_collection_def present_workspace_def next_workspace_id_def checked_add_def u64_max_def)

lemma demo_strip_ok: "strip_ok demo_strip"
  unfolding demo_strip_def by (rule fold_strip_ok [OF empty_collection_ok])

theorem strip_refines_order_witness:
  "strip_ok (run_strip (Park 2) demo_strip) \<and> map we_id (wc_workspaces (run_strip (Park 2) demo_strip)) = [1, 3] \<and>
   map (\<lambda>(h, e). (h, we_id e)) (strip_order (run_strip (Park 2) demo_strip)) = [(False, 1), (True, 2), (False, 3)]"
proof -
  have "order_op (wc_next demo_strip) (Park 2) (strip_order demo_strip) =
      [(False, \<lparr>we_id = 1, we_name = lit ''a'', we_payload = []\<rparr>), (True, \<lparr>we_id = 2, we_name = lit ''b'', we_payload = []\<rparr>),
       (False, \<lparr>we_id = 3, we_name = lit ''c'', we_payload = []\<rparr>)]"
    by (simp add: demo_strip_run strip_order_def)
  then show ?thesis using strip_refines_order [OF demo_strip_ok, of "Park 2"] by (simp del: run_strip.simps order_op.simps)
qed

text \<open>
  C16. Whatever sequence of operations a collection has seen, its identities are distinct, no future
  identity is in use, the parked positions and the visible Workspaces fit together, and the Active
  Workspace is one of the visible ones: it is absent only while the collection presents nothing.
\<close>

theorem strip_history_ok:
  "strip_ok (fold run_strip as empty_collection) \<and>
   (active_workspace (fold run_strip as empty_collection) = None \<longleftrightarrow> wc_workspaces (fold run_strip as empty_collection) = [])"
proof -
  let ?c = "fold run_strip as empty_collection"
  have ok: "strip_ok ?c" by (rule fold_strip_ok [OF empty_collection_ok])
  have "active_workspace ?c = None \<longleftrightarrow> wc_workspaces ?c = []"
    using strip_okD(1,6) [OF ok] by (auto simp: active_workspace_def find_entry_def find_None_iff split: option.splits)
  with ok show ?thesis by simp
qed

subsection \<open>Around a parked Workspace\<close>

text \<open>An operation on another Workspace, and one that takes no slot out of the order.\<close>

definition about_other :: "u64 \<Rightarrow> 'a strip_op \<Rightarrow> bool" where
  "about_other i a \<longleftrightarrow> (case a of MoveTo j to \<Rightarrow> j \<noteq> i | _ \<Rightarrow> apart_from i a)"

definition keeps_slots :: "'a strip_op \<Rightarrow> bool" where
  "keeps_slots a \<longleftrightarrow> (case a of Remove _ \<Rightarrow> False | Discard _ \<Rightarrow> False | _ \<Rightarrow> True)"

lemma refill_hidden: "(True, e) \<in> set L \<Longrightarrow> (True, e) \<in> set (refill vs L)"
  by (induction vs L rule: refill.induct) auto

lemma refill_slot:
  "length vs = length (shown L) \<Longrightarrow> p < length L \<Longrightarrow> L ! p = (True, e) \<Longrightarrow> p < length (refill vs L) \<and> refill vs L ! p = (True, e)"
  by (induction vs L arbitrary: p rule: refill.induct) (auto simp: nth_Cons split: nat.splits)

lemma length_moved_to: "length (moved_to i to vs) = length vs"
proof -
  have "length (filter (\<lambda>w. we_id w \<noteq> i) vs) + length (filter (\<lambda>w. we_id w = i) vs) = length vs"
    using sum_length_filter_compl [of "\<lambda>w. we_id w = i" vs] by simp
  then show ?thesis by (auto simp: moved_to_def Let_def min_def)
qed

lemma order_op_hidden:
  assumes "about_other i a" "(True, e) \<in> set L" "we_id e = i"
  shows "(True, e) \<in> set (order_op n a L)"
proof (cases a)
  case (Rename j name)
  then show ?thesis using assms by (force simp: about_other_def image_iff)
next
  case (MoveTo j to)
  then show ?thesis using refill_hidden [OF assms(2)] by simp
qed (use assms in \<open>auto simp: about_other_def intro: set_mark(1)\<close>)

lemma order_op_slot:
  assumes "about_other i a" "keeps_slots a" "p < length L" "L ! p = (True, e)" "we_id e = i"
  shows "p < length (order_op n a L) \<and> order_op n a L ! p = (True, e)"
proof (cases a)
  case (MoveTo j to)
  then show ?thesis using refill_slot [OF length_moved_to assms(3,4)] by simp
qed (use assms in \<open>auto simp: about_other_def keeps_slots_def mark_def nth_append\<close>)

lemma fold_hidden:
  assumes "strip_ok c" "list_all (about_other (we_id e)) as" "(True, e) \<in> set (strip_order c)"
  shows "(True, e) \<in> set (strip_order (fold run_strip as c))"
  using assms
proof (induction as arbitrary: c)
  case (Cons a as)
  then have "(True, e) \<in> set (strip_order (run_strip a c))"
    using run_strip_refines [OF Cons.prems(1), of a] order_op_hidden [of "we_id e" a e "strip_order c"] by simp
  then show ?case using Cons run_strip_refines [OF Cons.prems(1), of a] by simp
qed simp

lemma fold_slot:
  assumes "strip_ok c" "list_all (about_other (we_id e)) as" "list_all keeps_slots as" "p < length (strip_order c)" "strip_order c ! p = (True, e)"
  shows "p < length (strip_order (fold run_strip as c)) \<and> strip_order (fold run_strip as c) ! p = (True, e)"
  using assms
proof (induction as arbitrary: c)
  case (Cons a as)
  then have "p < length (strip_order (run_strip a c)) \<and> strip_order (run_strip a c) ! p = (True, e)"
    using run_strip_refines [OF Cons.prems(1), of a] order_op_slot [of "we_id e" a p "strip_order c" e] by simp
  then show ?case using Cons run_strip_refines [OF Cons.prems(1), of a] by simp
qed simp

lemma position_entry:
  assumes "distinct (map (we_id \<circ> snd) L)" "p < length L" "snd (L ! p) = e"
  shows "position (\<lambda>x. snd x = e) L = Some p"
  unfolding position_Some_iff
proof (intro conjI allI impI)
  fix j assume "j < p"
  then have "we_id (snd (L ! j)) \<noteq> we_id (snd (L ! p))" using assms(1,2) nth_eq_iff_index_eq [OF assms(1), of j p] by simp
  then show "snd (L ! j) \<noteq> e" using assms(3) by auto
qed (use assms in simp_all)

lemma shown_restored:
  fixes L :: "(bool \<times> 'a workspace_entry) list"
  assumes "distinct (map (we_id \<circ> snd) L)" "(True, e) \<in> set L"
  shows "filter (\<lambda>w. we_id w \<noteq> we_id e) (shown (mark we_id False (we_id e) L)) = shown L" "e \<in> set (shown (mark we_id False (we_id e) L))"
proof -
  have "we_id w \<noteq> we_id e" if "w \<in> set (shown L)" for w
  proof
    assume eq: "we_id w = we_id e"
    have "(False, w) \<in> set L" using that by (auto simp: shown_def)
    moreover have "inj_on (we_id \<circ> snd) (set L)" using assms(1) by (simp only: distinct_map)
    moreover have "(we_id \<circ> snd) (False, w) = (we_id \<circ> snd) (True, e)" using eq by simp
    ultimately have "(False, w) = (True, e)" using assms(2) by (meson inj_onD)
    then show False by simp
  qed
  then have "filter (\<lambda>w. we_id w \<noteq> we_id e) (shown L) = shown L" by (simp add: filter_id_conv)
  moreover have "filter (\<lambda>w. we_id w \<noteq> i) (shown (mark we_id h i M)) = filter (\<lambda>w. we_id w \<noteq> i) (shown M)" for h i and M :: "(bool \<times> 'a workspace_entry) list"
    by (induction M) (auto simp: mark_def)
  ultimately show "filter (\<lambda>w. we_id w \<noteq> we_id e) (shown (mark we_id False (we_id e) L)) = shown L" by simp
  have "(False, e) \<in> set (mark we_id False (we_id e) L)" using set_mark(2) [OF assms(2), of we_id "we_id e" False] by simp
  then show "e \<in> set (shown (mark we_id False (we_id e) L))" by (force simp: shown_def)
qed

text \<open>
  C17. A close that is refused leaves no trace in the order of the Workspaces. Whatever happened to other
  Workspaces while one was parked, restoring it brings it back and leaves the others as they were shown. While
  none was removed or discarded, it comes back to its slot in the order, parked Workspaces counted; a move
  reorders the others around that slot. When none was moved, the Workspaces shown at the end are those
  the same operations give when nothing was parked.
\<close>

theorem refused_close_leaves_no_trace:
  assumes "strip_ok c" "e \<in> set (wc_workspaces c)" "list_all (about_other (we_id e)) as"
  shows "let parked = fold run_strip as (run_strip (Park (we_id e)) c); back = run_strip (Restore (we_id e)) parked in
    e \<in> set (wc_workspaces back) \<and> filter (\<lambda>w. we_id w \<noteq> we_id e) (wc_workspaces back) = wc_workspaces parked \<and>
    (list_all keeps_slots as \<longrightarrow> position (\<lambda>x. snd x = e) (strip_order back) = position (\<lambda>x. snd x = e) (strip_order c)) \<and>
    (list_all (apart_from (we_id e)) as \<longrightarrow> wc_workspaces back = wc_workspaces (fold run_strip as c))"
proof -
  let ?i = "we_id e"
  let ?q = "run_strip (Park ?i) c"
  let ?d = "fold run_strip as ?q"
  let ?r = "run_strip (Restore ?i) ?d"
  have in_c: "(False, e) \<in> set (strip_order c)" using assms(2) strip_okD(1) [OF assms(1)] by (auto simp: shown_def)
  have q: "strip_ok ?q" "strip_order ?q = mark we_id True ?i (strip_order c)" using run_strip_refines [OF assms(1), of "Park ?i"] by simp_all
  have d: "strip_ok ?d" using fold_strip_ok [OF q(1)] .
  have r: "strip_ok ?r" "strip_order ?r = mark we_id False ?i (strip_order ?d)" using run_strip_refines [OF d, of "Restore ?i"] by simp_all
  have "(True, e) \<in> set (strip_order ?q)" using set_mark(2) [OF in_c, of we_id ?i True] q(2) by simp
  then have hid: "(True, e) \<in> set (strip_order ?d)" by (rule fold_hidden [OF q(1) assms(3)])
  have "e \<in> set (wc_workspaces ?r) \<and> filter (\<lambda>w. we_id w \<noteq> ?i) (wc_workspaces ?r) = wc_workspaces ?d"
    using shown_restored [OF strip_okD(3) [OF d] hid] unfolding strip_okD(1) [OF r(1)] strip_okD(1) [OF d] r(2) by blast
  moreover have "position (\<lambda>x. snd x = e) (strip_order ?r) = position (\<lambda>x. snd x = e) (strip_order c)" if "list_all keeps_slots as"
  proof -
    obtain p where p: "p < length (strip_order c)" "strip_order c ! p = (False, e)" using in_c by (metis in_set_conv_nth)
    have "p < length (strip_order ?q)" "strip_order ?q ! p = (True, e)" unfolding q(2) mark_def using p by simp_all
    then have "p < length (strip_order ?d)" "strip_order ?d ! p = (True, e)" using fold_slot [OF q(1) assms(3) that] by blast+
    then have "p < length (strip_order ?r)" "snd (strip_order ?r ! p) = e" unfolding r(2) mark_def by simp_all
    then show ?thesis using position_entry [OF strip_okD(3) [OF r(1)]] position_entry [OF strip_okD(3) [OF assms(1)] p(1)] p(2) by (metis snd_conv)
  qed
  moreover have "wc_workspaces ?r = wc_workspaces (fold run_strip as c)" if "list_all (apart_from ?i) as"
    using ws.refused_leaves_no_trace [OF assms(1) TrueI in_c that] strip_okD(1) [OF r(1)] strip_okD(1) [OF fold_strip_ok [OF assms(1)]] by metis
  ultimately show ?thesis unfolding Let_def by blast
qed

text \<open>The third Workspace is moved to the front while the second one is parked.\<close>

theorem refused_close_leaves_no_trace_witness:
  "map we_id (wc_workspaces (fold run_strip [Park 2, MoveTo 3 0, Restore 2] demo_strip)) = [3, 2, 1] \<and>
   map we_id (wc_workspaces (fold run_strip [Park 2, Park 1, Present (lit ''d'') (\<lambda>_. []), Restore 1, Restore 2] demo_strip)) = [1, 2, 3, 4]"
proof -
  let ?e = "\<lparr>we_id = 2, we_name = lit ''b'', we_payload = []\<rparr> :: rust_string workspace_entry"
  let ?as = "[Park 1, Present (lit ''d'') (\<lambda>_. []), Restore 1] :: rust_string strip_op list"
  have e: "?e \<in> set (wc_workspaces demo_strip)" by (simp add: demo_strip_run)
  have "wc_workspaces (run_strip (Restore 2) (fold run_strip ?as (run_strip (Park 2) demo_strip))) = wc_workspaces (fold run_strip ?as demo_strip)"
    using refused_close_leaves_no_trace [OF demo_strip_ok e, of ?as] by (simp add: about_other_def Let_def del: run_strip.simps)
  moreover have "map we_id (wc_workspaces (fold run_strip ?as demo_strip)) = [1, 2, 3, 4]"
    by (simp add: demo_strip_run park_workspace_def take_workspace_def present_workspace_def next_workspace_id_def checked_add_def u64_max_def
        restore_workspace_def position_with_parked_def remove_at_def insert_at_def)
  moreover have "map we_id (wc_workspaces (fold run_strip [Park 2, MoveTo 3 0, Restore 2] demo_strip)) = [3, 2, 1]"
    by (simp add: demo_strip_run park_workspace_def take_workspace_def move_workspace_def restore_workspace_def position_with_parked_def remove_at_def insert_at_def)
  ultimately show ?thesis by simp
qed

end
