(* ===== verification/Display_Order.thy ===== *)
theory Display_Order
  imports Window_Layout Workspace_Order Workspace_Strip
begin

text \<open>
  The Workspaces of a window follow the client's one order across servers
  (\<open>workspace_manager/display_order.rs\<close>): what the window presents of each server's binding, how a complete
  inventory prunes the order and arranges the Workspaces by it, and how an arrangement a person makes is
  recorded and handed to the worker that stores it (\<open>workspace_order_state.rs\<close>).
\<close>

section \<open>Bindings\<close>

text \<open>
  What a binding knows of its server's Workspaces: their local identities, the aliases of identities a client
  made before the server answered, the identities its unanswered edits create, and the last inventory read.
\<close>

record machine_binding =
  mb_key :: nat
  mb_owner :: "Id option"
  mb_facts :: "(u64, Id) omap"
  mb_aliases :: "(Id, Id) omap"
  mb_created :: "Id list"
  mb_latest :: "inventory option"

definition is_provisional :: "machine_binding \<Rightarrow> u64 \<Rightarrow> bool" where
  "is_provisional b workspace = (case map_of (mb_facts b) workspace of None \<Rightarrow> False | Some core \<Rightarrow> core \<in> set (mb_created b))"

definition workspace_reference_of :: "machine_binding \<Rightarrow> u64 \<Rightarrow> workspace_reference option" where
  "workspace_reference_of b workspace =
     Option.bind (mb_owner b) (\<lambda>owner.
     Option.bind (map_of (mb_facts b) workspace) (\<lambda>core.
     let i = canonical (mb_aliases b) core
     in Option.bind (mb_latest b) (\<lambda>latest.
          if list_ex (\<lambda>published. w_id published = i) (inv_workspaces latest)
          then Some \<lparr>wr_owner = owner, wr_workspace = i\<rparr> else None)))"

definition owning :: "machine_binding list \<Rightarrow> u64 \<Rightarrow> machine_binding option" where
  "owning bs workspace = List.find (\<lambda>b. map_of (mb_facts b) workspace \<noteq> None) bs"

section \<open>The window and its order\<close>

record retained_order =
  rt_loaded :: "(core_error + workspace_order) option"
  rt_pending :: "workspace_order option"
  rt_error :: "core_error option"
  rt_closed :: bool

record display_order =
  do_order :: workspace_order
  do_retained :: "retained_order option"
  do_ready :: bool
  do_reordered_while_reading :: bool
  do_pending_creations :: "u64 set"

record 'a window_manager =
  wm_workspaces :: "'a workspace_collection"
  wm_bindings :: "machine_binding list"
  wm_display :: display_order

definition presented_references :: "'a window_manager \<Rightarrow> (u64 \<times> workspace_reference) list" where
  "presented_references m =
     List.map_filter (\<lambda>w.
       Option.bind (owning (wm_bindings m) (we_id w)) (\<lambda>b.
       map_option (Pair (we_id w)) (workspace_reference_of b (we_id w)))) (wc_workspaces (wm_workspaces m))"

definition note_pending_creations :: "'a window_manager \<Rightarrow> 'a window_manager" where
  "note_pending_creations m =
     (let pending = filter (\<lambda>i. case owning (wm_bindings m) i of None \<Rightarrow> False | Some b \<Rightarrow> is_provisional b i)
                      (map we_id (wc_workspaces (wm_workspaces m)))
      in m\<lparr>wm_display := (wm_display m)\<lparr>do_pending_creations := set pending\<rparr>\<rparr>)"

definition retained_save :: "workspace_order \<Rightarrow> retained_order \<Rightarrow> retained_order" where
  "retained_save order r = (if rt_error r \<noteq> None then r else r\<lparr>rt_pending := Some order\<rparr>)"

definition save_display_order :: "workspace_order \<Rightarrow> 'a window_manager \<Rightarrow> 'a window_manager" where
  "save_display_order previous m =
     (let d = wm_display m
      in if do_order d \<noteq> previous then m\<lparr>wm_display := d\<lparr>do_retained := map_option (retained_save (do_order d)) (do_retained d)\<rparr>\<rparr>
         else m)"

definition record_presented :: "'a window_manager \<Rightarrow> 'a window_manager" where
  "record_presented m =
     m\<lparr>wm_display := (wm_display m)\<lparr>do_order := snd (record_order (map snd (presented_references m)) (do_order (wm_display m)))\<rparr>\<rparr>"

text \<open>The moves that bring the Workspaces into the target order, with the errors the window reports.\<close>

fun arrange_workspaces :: "nat \<Rightarrow> u64 list \<Rightarrow> 'a workspace_collection \<Rightarrow> workspace_error list \<times> 'a workspace_collection" where
  "arrange_workspaces at [] c = ([], c)"
| "arrange_workspaces at (workspace # target) c =
     (case move_workspace workspace at c of
        (Inl e, c) \<Rightarrow> let (es, c) = arrange_workspaces (at + 1) target c in (e # es, c)
      | (Inr _, c) \<Rightarrow> arrange_workspaces (at + 1) target c)"

definition restorable :: "'a window_manager \<Rightarrow> (u64 \<times> workspace_reference) list" where
  "restorable m = filter (\<lambda>(workspace, _). workspace \<notin> do_pending_creations (wm_display m)) (presented_references m)"

definition display_target :: "'a window_manager \<Rightarrow> u64 list" where
  "display_target m =
     (let restored = restore_order (do_order (wm_display m)) (map snd (restorable m));
          local = (\<lambda>reference. map_option fst (List.find (\<lambda>(_, candidate). candidate = reference) (restorable m)))
      in fst (refill_slots (\<lambda>workspace. list_ex (\<lambda>(w, _). w = workspace) (restorable m))
           (map we_id (wc_workspaces (wm_workspaces m))) (List.map_filter local restored)))"

definition restore_display_order :: "'a window_manager \<Rightarrow> workspace_error list \<times> 'a window_manager" where
  "restore_display_order m =
     (let (errors, c) = arrange_workspaces 0 (display_target m) (wm_workspaces m)
      in (errors, note_pending_creations (record_presented (m\<lparr>wm_workspaces := c\<rparr>))))"

definition prune_display_order :: "nat \<Rightarrow> 'a window_manager \<Rightarrow> 'a window_manager" where
  "prune_display_order key m =
     (case List.find (\<lambda>b. mb_key b = key) (wm_bindings m) of
        None \<Rightarrow> m
      | Some b \<Rightarrow>
          (case (mb_owner b, mb_latest b) of
             (Some owner, Some latest) \<Rightarrow>
               m\<lparr>wm_display := (wm_display m)\<lparr>do_order :=
                 reconcile_owner owner (map w_id (inv_workspaces latest)) (do_order (wm_display m))\<rparr>\<rparr>
           | _ \<Rightarrow> m))"

definition reconcile_display_order :: "nat \<Rightarrow> 'a window_manager \<Rightarrow> workspace_error list \<times> 'a window_manager" where
  "reconcile_display_order key m =
     (if \<not> do_ready (wm_display m) then ([], m)
      else let (errors, m') = restore_display_order (prune_display_order key m)
           in (errors, save_display_order (do_order (wm_display m)) m'))"

definition record_display_order :: "'a window_manager \<Rightarrow> 'a window_manager" where
  "record_display_order m =
     (let m = note_pending_creations m
      in if \<not> do_ready (wm_display m) then m\<lparr>wm_display := (wm_display m)\<lparr>do_reordered_while_reading := True\<rparr>\<rparr>
         else save_display_order (do_order (wm_display m)) (record_presented m))"

definition adopt_saved :: "workspace_order option \<Rightarrow> workspace_reference list \<Rightarrow> display_order \<Rightarrow> bool \<times> display_order" where
  "adopt_saved saved presented d =
     (let d = d\<lparr>do_order := (case saved of None \<Rightarrow> do_order d | Some order \<Rightarrow> order), do_ready := True\<rparr>
      in if do_reordered_while_reading d
         then (False, d\<lparr>do_reordered_while_reading := False, do_order := snd (record_order presented (do_order d))\<rparr>)
         else (True, d))"

definition display_order_read :: "workspace_order option \<Rightarrow> 'a window_manager \<Rightarrow> workspace_error list \<times> 'a window_manager" where
  "display_order_read saved m =
     (let previous = (case saved of None \<Rightarrow> do_order (wm_display m) | Some order \<Rightarrow> order);
          (restores, d) = adopt_saved saved (map snd (presented_references m)) (wm_display m);
          m = fold prune_display_order (map mb_key (wm_bindings m)) (m\<lparr>wm_display := d\<rparr>);
          (errors, m) = (if restores then restore_display_order m else ([], m))
      in (errors, save_display_order previous m))"

text \<open>One turn of the worker that owns the store, and whether it goes on.\<close>

definition worker_turn :: "(order_record \<Rightarrow> core_error + unit) \<Rightarrow> order_store \<Rightarrow> retained_order \<Rightarrow> bool \<times> order_store \<times> retained_order" where
  "worker_turn write s r =
     (case rt_pending r of
        None \<Rightarrow> (\<not> rt_closed r, s, r)
      | Some order \<Rightarrow>
          (case save_order write order s of
             (Inl e, s) \<Rightarrow> (False, s, r\<lparr>rt_pending := None, rt_error := Some e\<rparr>)
           | (Inr _, s) \<Rightarrow> (\<not> rt_closed r, s, r\<lparr>rt_pending := None\<rparr>)))"

section \<open>Arranging\<close>

lemma position_middle: "\<forall>x\<in>set xs. \<not> p x \<Longrightarrow> p x \<Longrightarrow> position p (xs @ x # ys) = Some (length xs)"
  by (induction xs) auto

lemma move_into_place:
  assumes "strip_ok c" "map we_id (wc_workspaces c) = pre @ ys @ i # zs"
  shows "\<exists>b c'. move_workspace i (length pre) c = (Inr b, c') \<and> strip_ok c' \<and> wc_parked c' = wc_parked c \<and>
    map we_id (wc_workspaces c') = pre @ i # ys @ zs \<and> mset (wc_workspaces c') = mset (wc_workspaces c)"
proof -
  obtain P Y e Z where ws: "wc_workspaces c = P @ Y @ e # Z" "map we_id P = pre" "map we_id Y = ys" "we_id e = i" "map we_id Z = zs"
    using assms(2) by (auto simp: map_eq_append_conv append_eq_map_conv Cons_eq_map_conv)
  have "distinct (map we_id (shown (strip_order c)))"
  proof -
    have "distinct (map (we_id \<circ> snd) (filter (\<lambda>x. \<not> fst x) (strip_order c)))" using strip_okD(3) [OF assms(1)] by (rule distinct_map_filter)
    then show ?thesis by (simp add: shown_def comp_def case_prod_beta)
  qed
  then have "distinct (pre @ ys @ i # zs)" using strip_okD(1) [OF assms(1)] assms(2) by simp
  then have "\<forall>w\<in>set (P @ Y). we_id w \<noteq> i" unfolding ws(2,3) [symmetric] by auto
  then have at: "position (\<lambda>w. we_id w = i) (wc_workspaces c) = Some (length (P @ Y))"
    using position_middle [of "P @ Y" "\<lambda>w. we_id w = i" e Z] ws(4) unfolding ws(1) append_assoc by blast
  have "strip_ok (snd (move_workspace i (length pre) c))" using run_strip_refines [OF assms(1), of "MoveTo i (length pre)"] by simp
  moreover have "length pre = length P" using ws(2) by auto
  ultimately show ?thesis using at ws
    by (cases "Y = []") (simp_all add: move_workspace_def remove_at_def insert_at_def, blast+)
qed

lemma arrange_workspaces_ok:
  assumes "strip_ok c" "map we_id (wc_workspaces c) = pre @ xs" "mset target = mset xs"
  shows "\<exists>c'. arrange_workspaces (length pre) target c = ([], c') \<and> strip_ok c' \<and> wc_parked c' = wc_parked c \<and>
    map we_id (wc_workspaces c') = pre @ target \<and> mset (wc_workspaces c') = mset (wc_workspaces c)"
  using assms
proof (induction target arbitrary: c pre xs)
  case (Cons i target)
  then have "i \<in> set xs" by (metis list.set_intros(1) mset_eq_setD)
  then obtain ys zs where xs: "xs = ys @ i # zs" by (meson split_list)
  then obtain b c1 where c1: "move_workspace i (length pre) c = (Inr b, c1)" "strip_ok c1" "wc_parked c1 = wc_parked c"
      "map we_id (wc_workspaces c1) = pre @ i # ys @ zs" "mset (wc_workspaces c1) = mset (wc_workspaces c)"
    using move_into_place [OF Cons.prems(1)] Cons.prems(2) by blast
  have "mset target = mset (ys @ zs)" using Cons.prems(3) xs by simp
  then obtain c' where "arrange_workspaces (length (pre @ [i])) target c1 = ([], c')" "strip_ok c'" "wc_parked c' = wc_parked c1"
      "map we_id (wc_workspaces c') = (pre @ [i]) @ target" "mset (wc_workspaces c') = mset (wc_workspaces c1)"
    using Cons.IH [OF c1(2), of "pre @ [i]" "ys @ zs"] c1(4) by auto
  then show ?case using c1 by simp
qed simp

text \<open>
  The references a window presents depend only on its bindings and on which Workspaces it shows.
\<close>

definition reference_in :: "machine_binding list \<Rightarrow> u64 \<Rightarrow> workspace_reference option" where
  "reference_in bs i = Option.bind (owning bs i) (\<lambda>b. workspace_reference_of b i)"

definition shown_ids :: "'a window_manager \<Rightarrow> u64 list" where
  "shown_ids m = map we_id (wc_workspaces (wm_workspaces m))"

lemma presented_references_eq:
  "presented_references m = map (\<lambda>i. (i, the (reference_in (wm_bindings m) i)))
     (filter (\<lambda>i. reference_in (wm_bindings m) i \<noteq> None) (shown_ids m))"
proof -
  have one: "Option.bind (owning bs i) (\<lambda>b. map_option (Pair i) (workspace_reference_of b i)) = map_option (Pair i) (reference_in bs i)" for bs i
    by (cases "owning bs i") (simp_all add: reference_in_def)
  have "List.map_filter (\<lambda>w. map_option (Pair (we_id w)) (f (we_id w))) ws =
      map (\<lambda>i. (i, the (f i))) (filter (\<lambda>i. f i \<noteq> None) (map we_id ws))" for f and ws :: "'a workspace_entry list"
    by (induction ws) (auto simp: List.map_filter_simps split: option.split)
  then show ?thesis by (simp add: presented_references_def one shown_ids_def)
qed

definition restorable_id :: "'a window_manager \<Rightarrow> u64 \<Rightarrow> bool" where
  "restorable_id m i \<longleftrightarrow> reference_in (wm_bindings m) i \<noteq> None \<and> i \<notin> do_pending_creations (wm_display m)"

lemma restorable_eq:
  "restorable m = map (\<lambda>i. (i, the (reference_in (wm_bindings m) i))) (filter (restorable_id m) (shown_ids m))"
proof -
  have "filter (\<lambda>(i, _). i \<notin> S) (map (\<lambda>i. (i, g i)) (filter p is)) = map (\<lambda>i. (i, g i)) (filter (\<lambda>i. p i \<and> i \<notin> S) is)" for S g p and "is" :: "u64 list"
    by (induction "is") auto
  then show ?thesis by (simp add: restorable_def presented_references_eq restorable_id_def [abs_def])
qed

lemma map_filter_inverse:
  assumes "inj_on g (set xs)" "set rs \<subseteq> g ` set xs"
  shows "map g (List.map_filter (\<lambda>r. map_option fst (List.find (\<lambda>(_, c). c = r) (map (\<lambda>i. (i, g i)) xs))) rs) = rs \<and>
    set (List.map_filter (\<lambda>r. map_option fst (List.find (\<lambda>(_, c). c = r) (map (\<lambda>i. (i, g i)) xs))) rs) \<subseteq> set xs"
  using assms(2)
proof (induction rs)
  case (Cons r rs)
  have "\<exists>i\<in>set ys. g i = r \<and> List.find (\<lambda>(_, c). c = r) (map (\<lambda>i. (i, g i)) ys) = Some (i, r)" if "r \<in> g ` set ys" for ys
    using that by (induction ys) auto
  then obtain i where "i \<in> set xs" "g i = r" "List.find (\<lambda>(_, c). c = r) (map (\<lambda>i. (i, g i)) xs) = Some (i, r)"
    using Cons.prems by auto
  with Cons show ?case by (simp add: List.map_filter_simps)
qed (simp add: List.map_filter_simps)

lemma shown_ids_distinct:
  assumes "strip_ok (wm_workspaces m)" shows "distinct (shown_ids m)"
proof -
  have "distinct (map (we_id \<circ> snd) (filter (\<lambda>x. \<not> fst x) (strip_order (wm_workspaces m))))"
    using strip_okD(3) [OF assms] by (rule distinct_map_filter)
  then show ?thesis using strip_okD(1) [OF assms] by (simp add: shown_ids_def shown_def comp_def case_prod_beta)
qed

lemma distinct_refs_mono: "distinct (map g (filter p xs)) \<Longrightarrow> (\<And>x. q x \<Longrightarrow> p x) \<Longrightarrow> distinct (map g (filter q xs))"
  by (induction xs) (auto split: if_splits)

lemma mset_by_image:
  assumes "distinct (map g xs)" "mset (map g ys) = mset (map g xs)" "set ys \<subseteq> set xs"
  shows "mset ys = mset xs"
proof -
  have "distinct (map g ys)" using mset_eq_imp_distinct_iff [OF assms(2)] assms(1) by simp
  then have d: "distinct ys" "distinct xs" using assms(1) by (simp_all add: distinct_map)
  have "length ys = length xs" using mset_eq_length [OF assms(2)] by simp
  then have "card (set ys) = card (set xs)" using d by (simp add: distinct_card)
  then have "set ys = set xs" using card_subset_eq [OF _ assms(3)] by simp
  then show ?thesis using set_eq_iff_mset_eq_distinct [OF d] by simp
qed

lemma refill_slots_cong: "(\<And>w. w \<in> set ws \<Longrightarrow> p w = q w) \<Longrightarrow> refill_slots p ws ns = refill_slots q ws ns"
  by (induction ws arbitrary: ns) (auto split: list.split)

definition arranged_ids :: "'a window_manager \<Rightarrow> u64 list" where
  "arranged_ids m = List.map_filter (\<lambda>reference. map_option fst (List.find (\<lambda>(_, candidate). candidate = reference) (restorable m)))
     (restore_order (do_order (wm_display m)) (map snd (restorable m)))"

lemma display_target_eq: "display_target m = fst (refill_slots (restorable_id m) (shown_ids m) (arranged_ids m))"
proof -
  have "list_ex (\<lambda>(w, _). w = i) (restorable m) \<longleftrightarrow> restorable_id m i" if "i \<in> set (shown_ids m)" for i
    using that by (auto simp: restorable_eq list_ex_iff)
  then have "refill_slots (\<lambda>i. list_ex (\<lambda>(w, _). w = i) (restorable m)) (shown_ids m) (arranged_ids m) =
      refill_slots (restorable_id m) (shown_ids m) (arranged_ids m)" by (rule refill_slots_cong)
  then show ?thesis by (simp only: display_target_def Let_def arranged_ids_def shown_ids_def)
qed

lemma arranged_ids_ok:
  assumes "order_validate (do_order (wm_display m)) = Inr ()" "order_validate (map snd (presented_references m)) = Inr ()"
  shows "mset (arranged_ids m) = mset (filter (restorable_id m) (shown_ids m))"
    "map (\<lambda>i. the (reference_in (wm_bindings m) i)) (arranged_ids m) = restore_order (do_order (wm_display m)) (map snd (restorable m))"
proof -
  let ?g = "\<lambda>i. the (reference_in (wm_bindings m) i)"
  let ?xs = "filter (restorable_id m) (shown_ids m)"
  let ?rs = "restore_order (do_order (wm_display m)) (map snd (restorable m))"
  have "distinct (map ?g (filter (\<lambda>i. reference_in (wm_bindings m) i \<noteq> None) (shown_ids m)))"
    using assms(2) by (simp add: presented_references_eq order_validate_iff comp_def)
  then have d: "distinct (map ?g ?xs)" by (rule distinct_refs_mono) (simp add: restorable_id_def)
  have refs: "map snd (restorable m) = map ?g ?xs" by (simp add: restorable_eq)
  have rs: "mset ?rs = mset (map ?g ?xs)"
    unfolding refs by (rule mset_restore_order) (use d assms(1) in \<open>simp_all add: order_validate_iff\<close>)
  have "set ?rs \<subseteq> ?g ` set ?xs" using mset_eq_setD [OF rs] by simp
  then have arr: "map ?g (arranged_ids m) = ?rs" "set (arranged_ids m) \<subseteq> set ?xs"
    using map_filter_inverse [of ?g ?xs ?rs] d unfolding arranged_ids_def restorable_eq [of m, symmetric] distinct_map by blast+
  show "map ?g (arranged_ids m) = ?rs" by (rule arr(1))
  show "mset (arranged_ids m) = mset ?xs" by (rule mset_by_image [OF d _ arr(2)]) (simp only: arr(1) rs)
qed

lemma display_target_ok:
  assumes "order_validate (do_order (wm_display m)) = Inr ()" "order_validate (map snd (presented_references m)) = Inr ()"
  shows "mset (display_target m) = mset (shown_ids m)"
    "filter (restorable_id m) (display_target m) = arranged_ids m"
    "\<forall>k<length (shown_ids m). \<not> restorable_id m (shown_ids m ! k) \<longrightarrow> display_target m ! k = shown_ids m ! k"
proof -
  let ?p = "restorable_id m"
  let ?xs = "filter ?p (shown_ids m)"
  note arr = arranged_ids_ok(1) [OF assms]
  have len: "length (arranged_ids m) = length ?xs" and "list_all ?p (arranged_ids m)"
    using mset_eq_length [OF arr] mset_eq_setD [OF arr] by (auto simp: list_all_iff)
  then obtain filled where f: "refill_slots ?p (shown_ids m) (arranged_ids m) = (filled, drop (length ?xs) (arranged_ids m))"
      "filter ?p filled = take (length ?xs) (arranged_ids m)" "filter (\<lambda>w. \<not> ?p w) filled = filter (\<lambda>w. \<not> ?p w) (shown_ids m)"
      "\<forall>k<length (shown_ids m). \<not> ?p (shown_ids m ! k) \<longrightarrow> filled ! k = shown_ids m ! k"
    using refill_slots_views [of ?p "shown_ids m" "arranged_ids m"] by auto
  have t: "display_target m = filled" by (simp add: display_target_eq f(1))
  show "\<forall>k<length (shown_ids m). \<not> ?p (shown_ids m ! k) \<longrightarrow> display_target m ! k = shown_ids m ! k" using f(4) t by simp
  show part: "filter ?p (display_target m) = arranged_ids m" using f(2) t len by simp
  have rest: "filter (\<lambda>w. \<not> ?p w) (display_target m) = filter (\<lambda>w. \<not> ?p w) (shown_ids m)" using f(3) t by simp
  show "mset (display_target m) = mset (shown_ids m)"
    by (simp only: filter_partition_mset [of "display_target m" ?p] filter_partition_mset [of "shown_ids m" ?p] part rest arr)
qed

lemma record_order_room:
  assumes "order_validate order = Inr ()" "order_validate presented = Inr ()" "length order + length presented \<le> MAX_ENTRIES"
  shows "\<exists>order'. record_order presented order = (Inr (), order')"
proof -
  have "card (set presented - set order) \<le> length presented"
    using card_mono [of "set presented" "set presented - set order"] card_length [of presented] by simp
  then have "\<not> MAX_ENTRIES < length order + card (set presented - set order)" using assms(3) by linarith
  with assms(1,2) show ?thesis by (simp add: record_order_def case_prod_beta)
qed

lemma mset_presented:
  assumes "mset (shown_ids m) = mset (shown_ids n)" "wm_bindings m = wm_bindings n"
  shows "mset (presented_references m) = mset (presented_references n)"
  by (simp add: presented_references_eq assms)

lemma presented_cong:
  "shown_ids m = shown_ids n \<Longrightarrow> wm_bindings m = wm_bindings n \<Longrightarrow> presented_references m = presented_references n"
  by (simp add: presented_references_eq)

lemma unchanged_by_recording [keep_simps]:
  "wm_workspaces (record_presented m) = wm_workspaces m" "wm_bindings (record_presented m) = wm_bindings m"
  "wm_workspaces (note_pending_creations m) = wm_workspaces m" "wm_bindings (note_pending_creations m) = wm_bindings m"
  "do_order (wm_display (note_pending_creations m)) = do_order (wm_display m)"
  "wm_workspaces (save_display_order previous m) = wm_workspaces m" "wm_bindings (save_display_order previous m) = wm_bindings m"
  "do_order (wm_display (save_display_order previous m)) = do_order (wm_display m)"
  by (simp_all add: record_presented_def note_pending_creations_def save_display_order_def Let_def)

text \<open>A window whose order and presented references are valid, with room for them.\<close>

definition arrangeable :: "'a window_manager \<Rightarrow> bool" where
  "arrangeable m \<longleftrightarrow> strip_ok (wm_workspaces m) \<and> order_validate (do_order (wm_display m)) = Inr () \<and>
     order_validate (map snd (presented_references m)) = Inr () \<and>
     length (do_order (wm_display m)) + length (presented_references m) \<le> MAX_ENTRIES"

text \<open>
  The Workspaces are arranged: nothing is lost or parked, those without a place in the order stay where they
  are, the others follow the order, and the order agrees with what is presented.
\<close>

definition arranged_by :: "'a window_manager \<Rightarrow> 'a window_manager \<Rightarrow> bool" where
  "arranged_by m m' \<longleftrightarrow> strip_ok (wm_workspaces m') \<and> wc_parked (wm_workspaces m') = wc_parked (wm_workspaces m) \<and>
     mset (wc_workspaces (wm_workspaces m')) = mset (wc_workspaces (wm_workspaces m)) \<and>
     (\<forall>k<length (shown_ids m). \<not> restorable_id m (shown_ids m ! k) \<longrightarrow> shown_ids m' ! k = shown_ids m ! k) \<and>
     map snd (filter (\<lambda>(i, _). i \<notin> do_pending_creations (wm_display m)) (presented_references m')) =
       restore_order (do_order (wm_display m)) (map snd (restorable m)) \<and>
     order_validate (do_order (wm_display m')) = Inr () \<and>
     restore_order (do_order (wm_display m')) (map snd (presented_references m')) = map snd (presented_references m')"

lemma restore_display_order_ok:
  assumes "arrangeable m"
  shows "\<exists>m'. restore_display_order m = ([], m') \<and> arranged_by m m'"
proof -
  note ok = assms [unfolded arrangeable_def]
  note target = display_target_ok [of m] arranged_ids_ok [of m]
  obtain c where c: "arrange_workspaces 0 (display_target m) (wm_workspaces m) = ([], c)" "strip_ok c"
      "wc_parked c = wc_parked (wm_workspaces m)" "map we_id (wc_workspaces c) = display_target m"
      "mset (wc_workspaces c) = mset (wc_workspaces (wm_workspaces m))"
    using arrange_workspaces_ok [of "wm_workspaces m" "[]" "shown_ids m" "display_target m"] target(1) ok by (auto simp: shown_ids_def)
  let ?n = "m\<lparr>wm_workspaces := c\<rparr>"
  let ?m' = "note_pending_creations (record_presented ?n)"
  have run: "restore_display_order m = ([], ?m')" by (simp add: restore_display_order_def c(1))
  have ids: "shown_ids ?n = display_target m" "shown_ids ?m' = display_target m" using c(4) by (simp_all add: shown_ids_def keep_simps)
  have refs: "presented_references ?m' = presented_references ?n" by (rule presented_cong) (simp_all add: ids keep_simps)
  have same: "restorable_id ?n = restorable_id m" by (simp add: restorable_id_def [abs_def])
  have "map snd (restorable ?n) = restore_order (do_order (wm_display m)) (map snd (restorable m))"
    unfolding restorable_eq [of ?n] ids(1) same using target(2,5) ok by (simp add: comp_def)
  then have follows: "map snd (filter (\<lambda>(i, _). i \<notin> do_pending_creations (wm_display m)) (presented_references ?m')) =
      restore_order (do_order (wm_display m)) (map snd (restorable m))"
    unfolding refs by (simp add: restorable_def)
  have m: "mset (presented_references ?n) = mset (presented_references m)" by (rule mset_presented) (use target(1) ok ids in simp_all)
  have "order_validate (map snd (presented_references ?n)) = Inr ()" "length (presented_references ?n) = length (presented_references m)"
    using order_validate_mset [of "map snd (presented_references ?n)" "map snd (presented_references m)"] m mset_eq_length [OF m] ok by simp_all
  then obtain order' where o': "record_order (map snd (presented_references ?n)) (do_order (wm_display m)) = (Inr (), order')"
    using record_order_room [of "do_order (wm_display m)" "map snd (presented_references ?n)"] ok by auto
  have "do_order (wm_display ?m') = order'" using o' by (simp add: keep_simps record_presented_def)
  then have "order_validate (do_order (wm_display ?m')) = Inr ()"
      "restore_order (do_order (wm_display ?m')) (map snd (presented_references ?m')) = map snd (presented_references ?m')"
    using record_order_ok(1) [OF o'] restore_recorded [OF o' refl] refs by simp_all
  then have "arranged_by m ?m'" unfolding arranged_by_def ids(2) using follows target(3) c ok by (simp add: keep_simps)
  with run show ?thesis by blast
qed

section \<open>The order stays valid and reaches the store\<close>

lemma record_order_keeps_valid: "order_validate order = Inr () \<Longrightarrow> order_validate (snd (record_order presented order)) = Inr ()"
  using record_order_ok(1) [of presented order "snd (record_order presented order)"] record_order_refused [of presented order]
  by (metis prod.collapse)

lemma display_orders_valid:
  assumes "order_validate (do_order (wm_display m)) = Inr ()" "\<And>order. saved = Some order \<Longrightarrow> order_validate order = Inr ()"
  shows "order_validate (do_order (wm_display (record_display_order m))) = Inr ()"
    "order_validate (do_order (wm_display (snd (reconcile_display_order key m)))) = Inr ()"
    "order_validate (do_order (wm_display (snd (display_order_read saved m)))) = Inr ()"
proof -
  let ?valid = "\<lambda>m. order_validate (do_order (wm_display m)) = Inr ()"
  have recorded: "?valid (record_presented n)" if "?valid n" for n :: "'a window_manager"
    using record_order_keeps_valid [OF that] by (simp add: record_presented_def)
  have restored: "?valid (snd (restore_display_order n))" if "?valid n" for n :: "'a window_manager"
    using recorded [of "n\<lparr>wm_workspaces := c\<rparr>" for c] that by (simp add: restore_display_order_def case_prod_beta keep_simps)
  have pruned: "?valid (prune_display_order k n)" if "?valid n" for k and n :: "'a window_manager"
    using that by (simp add: prune_display_order_def reconcile_owner_valid split: option.splits)
  have all: "?valid (fold prune_display_order ks n)" if "?valid n" for ks and n :: "'a window_manager"
    using that by (induction ks arbitrary: n) (simp_all add: pruned)
  show "?valid (record_display_order m)"
    using recorded [of "note_pending_creations m"] assms(1) by (simp add: record_display_order_def Let_def keep_simps)
  show "?valid (snd (reconcile_display_order key m))"
    using restored [OF pruned [OF assms(1)]] assms(1) by (simp add: reconcile_display_order_def case_prod_beta keep_simps)
  obtain restores d where d: "adopt_saved saved (map snd (presented_references m)) (wm_display m) = (restores, d)" by (rule prod.exhaust)
  then have "order_validate (do_order d) = Inr ()"
    using assms by (auto simp: adopt_saved_def Let_def record_order_keeps_valid split: if_splits option.splits)
  then show "?valid (snd (display_order_read saved m))"
    using all [of "m\<lparr>wm_display := d\<rparr>"] restored by (simp add: display_order_read_def d case_prod_beta Let_def keep_simps)
qed

lemma worker_turn_stores:
  assumes "order_validate order = Inr ()" "rt_pending r = Some order" "\<not> os_blocked s" "\<And>x. write x = Inr ()" "or_version (os_record s) = 1"
  shows "open_order_store (Inr ()) (Inr (Some (os_record (fst (snd (worker_turn write s r)))))) (or_client (os_record s)) =
    Inr \<lparr>os_record = (os_record s)\<lparr>or_order := order\<rparr>, os_blocked = False\<rparr>"
  using assms by (auto simp: worker_turn_def save_order_def open_order_store_def)

section \<open>Properties\<close>

text \<open>
  C39. When a server's complete inventory arrives, the window follows the client's order. Every move it makes is
  accepted, no Workspace is lost and none parked is touched. The Workspaces that have a place in the order
  take it, those the server has not confirmed yet stay where the person put them, and afterwards the order
  agrees with the arrangement: restoring it again would move nothing. An order that changed is queued for the
  store, unless the store already failed.
\<close>

theorem reconciled_window_follows_order:
  assumes "do_ready (wm_display m)" "arrangeable (prune_display_order key m)"
  shows "\<exists>m'. reconcile_display_order key m = ([], m') \<and> arranged_by (prune_display_order key m) m' \<and>
    (do_order (wm_display m') \<noteq> do_order (wm_display m) \<longrightarrow>
       (case do_retained (wm_display m') of None \<Rightarrow> True
        | Some r \<Rightarrow> rt_error r = None \<longrightarrow> rt_pending r = Some (do_order (wm_display m'))))"
proof -
  obtain n where n: "restore_display_order (prune_display_order key m) = ([], n)" "arranged_by (prune_display_order key m) n"
    using restore_display_order_ok [OF assms(2)] by blast
  let ?m' = "save_display_order (do_order (wm_display m)) n"
  have run: "reconcile_display_order key m = ([], ?m')" using assms(1) n(1) by (simp add: reconcile_display_order_def)
  have "shown_ids ?m' = shown_ids n" by (simp add: shown_ids_def keep_simps)
  moreover then have "presented_references ?m' = presented_references n" by (rule presented_cong) (simp add: keep_simps)
  ultimately have "arranged_by (prune_display_order key m) ?m'" using n(2) by (simp add: arranged_by_def keep_simps)
  moreover have "do_order (wm_display ?m') \<noteq> do_order (wm_display m) \<Longrightarrow>
      do_retained (wm_display ?m') = map_option (retained_save (do_order (wm_display ?m'))) (do_retained (wm_display n))"
    by (simp add: save_display_order_def Let_def split: if_splits)
  ultimately show ?thesis using run by (auto simp: retained_save_def split: option.split)
qed

text \<open>Two servers; the local one has deleted a Workspace the order still names.\<close>

definition published_workspace :: "Id \<Rightarrow> workspace" where
  "published_workspace i = \<lparr>w_id = i, w_name = [], w_name_version = 1, w_pin_version = 1, w_pinned_directory = None, w_root_tab = 1, w_tabs = []\<rparr>"

definition demo_binding_of :: "nat \<Rightarrow> Id \<Rightarrow> (u64, Id) omap \<Rightarrow> machine_binding" where
  "demo_binding_of key owner facts = \<lparr>mb_key = key, mb_owner = Some owner, mb_facts = facts, mb_aliases = [], mb_created = [],
     mb_latest = Some \<lparr>inv_repositories = None, inv_revision = 1, inv_workspaces = map (published_workspace \<circ> snd) facts, inv_close = None\<rparr>\<rparr>"

definition demo_manager :: "rust_string window_manager" where
  "demo_manager = \<lparr>wm_workspaces = demo_strip, wm_bindings = [demo_binding_of 0 1 [(1, 11), (3, 13)], demo_binding_of 1 2 [(2, 12)]],
     wm_display = \<lparr>do_order = [reference 2 12, reference 1 14, reference 1 13, reference 1 11], do_retained = None, do_ready = True,
       do_reordered_while_reading = False, do_pending_creations = {}\<rparr>\<rparr>"

lemma demo_pruned:
  "prune_display_order 0 demo_manager =
     demo_manager\<lparr>wm_display := (wm_display demo_manager)\<lparr>do_order := [reference 2 12, reference 1 13, reference 1 11]\<rparr>\<rparr>"
  by (simp add: prune_display_order_def demo_manager_def demo_binding_of_def reconcile_owner_def reference_def published_workspace_def)

lemma demo_presented:
  assumes "wm_bindings m = wm_bindings demo_manager" "map we_id (wc_workspaces (wm_workspaces m)) = [1, 2, 3]"
  shows "presented_references m = [(1, reference 1 11), (2, reference 2 12), (3, reference 1 13)]"
  using assms
  by (simp add: presented_references_eq shown_ids_def reference_in_def owning_def workspace_reference_of_def demo_manager_def
      demo_binding_of_def published_workspace_def reference_def canonical_unaliased)

lemma demo_manager_arrangeable: "arrangeable (prune_display_order 0 demo_manager)"
proof -
  have "strip_ok demo_strip" by (rule demo_strip_ok)
  moreover have "presented_references (prune_display_order 0 demo_manager) = [(1, reference 1 11), (2, reference 2 12), (3, reference 1 13)]"
    by (rule demo_presented) (simp_all add: demo_pruned, simp add: demo_manager_def demo_strip_run)
  ultimately show ?thesis
    by (simp add: arrangeable_def demo_pruned order_validate_iff MAX_ENTRIES_def) (simp add: demo_manager_def reference_def)
qed

theorem reconciled_window_follows_order_witness:
  "fst (reconcile_display_order 0 demo_manager) = [] \<and>
   map snd (presented_references (snd (reconcile_display_order 0 demo_manager))) = [reference 2 12, reference 1 13, reference 1 11]"
proof -
  have ready: "do_ready (wm_display demo_manager)" by (simp add: demo_manager_def)
  have refs: "presented_references (prune_display_order 0 demo_manager) = [(1, reference 1 11), (2, reference 2 12), (3, reference 1 13)]"
    by (rule demo_presented) (simp_all add: demo_pruned, simp add: demo_manager_def demo_strip_run)
  have pending: "do_pending_creations (wm_display (prune_display_order 0 demo_manager)) = {}"
    "do_order (wm_display (prune_display_order 0 demo_manager)) = [reference 2 12, reference 1 13, reference 1 11]"
    by (simp_all add: demo_pruned) (simp add: demo_manager_def)
  obtain m' where m': "reconcile_display_order 0 demo_manager = ([], m')" "arranged_by (prune_display_order 0 demo_manager) m'"
    using reconciled_window_follows_order [OF ready demo_manager_arrangeable] by blast
  from m'(2) have "map snd (presented_references m') =
      restore_order [reference 2 12, reference 1 13, reference 1 11] [reference 1 11, reference 2 12, reference 1 13]"
    unfolding arranged_by_def pending restorable_def refs by simp
  then show ?thesis by (simp add: m'(1) restore_order_def)
qed

end
