(* ===== verification/Versions.thy ===== *)
theory Versions
  imports Rust_Text "HOL-Library.Product_Lexorder"
begin

text \<open>
  The versions of SpaceTerm Core and which of them a Core installs (\<open>update/facts.rs\<close> and
  \<open>update/ordering.rs\<close>). A release is three numbers, compared as numbers; a development version is a commit
  and has no order. A release names a floor, the oldest version that may update to it directly. A panic of
  \<open>Floor::version\<close> is the value \<open>None\<close>.
\<close>

section \<open>Versions\<close>

type_synonym release = "u64 \<times> u64 \<times> u64"

datatype version = Version (as_str: rust_string)



text \<open>\<open>text.split('.')\<close>.\<close>

fun split_dot :: "rust_string \<Rightarrow> rust_string list" where
  "split_dot [] = [[]]"
| "split_dot (c # s) = (if c = 46 then [] # split_dot s else (c # hd (split_dot s)) # tl (split_dot s))"

text \<open>\<open>decimal\<close> of the source; the name is taken by its inverse, the digits \<open>format!\<close> writes.\<close>

definition parse_decimal :: "rust_string \<Rightarrow> u64 option" where
  "parse_decimal text =
     (if text \<noteq> [] \<and> list_all (\<lambda>c. 48 \<le> c \<and> c \<le> 57) text \<and> (text = [48] \<or> hd text \<noteq> 48)
      then if undecimal text \<le> u64_max then Some (undecimal text) else None
      else None)"

definition release_parts :: "rust_string \<Rightarrow> release option" where
  "release_parts text =
     (case split_dot text of
        [major, minor, patch] \<Rightarrow>
          Option.bind (parse_decimal major) (\<lambda>major.
          Option.bind (parse_decimal minor) (\<lambda>minor.
          Option.bind (parse_decimal patch) (\<lambda>patch. Some (major, minor, patch))))
      | _ \<Rightarrow> None)"



definition release_of :: "version \<Rightarrow> release option" where
  "release_of v = release_parts (as_str v)"

section \<open>Floors and candidates\<close>

datatype floor = Floor release



fun floor_text :: "floor \<Rightarrow> rust_string" where
  "floor_text (Floor (major, minor, patch)) = decimal major @ [46] @ decimal minor @ [46] @ decimal patch"






section \<open>Texts of releases\<close>

lemma undecimal_snoc: "undecimal (s @ [c]) = 10 * undecimal s + (c - 48)"
  by (simp add: undecimal_def)

lemma undecimal_pos: "s \<noteq> [] \<Longrightarrow> list_all (\<lambda>c. 48 \<le> c \<and> c \<le> 57) s \<Longrightarrow> hd s \<noteq> 48 \<Longrightarrow> 0 < undecimal s"
proof (induction s rule: rev_induct)
  case (snoc c s)
  then show ?case by (cases "s = []") (simp_all add: undecimal_snoc, simp add: undecimal_def)
qed simp

lemma decimal_undecimal:
  assumes "s \<noteq> []" "list_all (\<lambda>c. 48 \<le> c \<and> c \<le> 57) s" "s = [48] \<or> hd s \<noteq> 48"
  shows "decimal (undecimal s) = s"
  using assms
proof (induction s rule: rev_induct)
  case (snoc c s)
  have c: "48 \<le> c" "c \<le> 57" using snoc.prems(2) by auto
  show ?case
  proof (cases "s = []")
    case True
    then show ?thesis using c by (subst decimal.simps) (simp add: undecimal_def)
  next
    case False
    then have digits: "list_all (\<lambda>c. 48 \<le> c \<and> c \<le> 57) s" "hd s \<noteq> 48" using snoc.prems by auto
    obtain d where d: "c = 48 + d" "d < 10" using c le_Suc_ex [of 48 c] by auto
    have n: "undecimal (s @ [c]) = 10 * undecimal s + d" by (simp add: undecimal_snoc d)
    have "(10 * undecimal s + d) div 10 = undecimal s" "(10 * undecimal s + d) mod 10 = d" using d by simp_all
    moreover have "\<not> 10 * undecimal s + d < 10" using undecimal_pos [OF False digits] by simp
    ultimately show ?thesis using snoc.IH [OF False digits(1)] digits(2) d unfolding n by (subst decimal.simps) simp
  qed
qed simp



lemma parse_decimal_Some: "parse_decimal s = Some n \<Longrightarrow> s = decimal n \<and> n \<le> u64_max"
  by (auto simp: parse_decimal_def decimal_undecimal split: if_splits)




lemma split_dot_nonempty [simp]: "split_dot s \<noteq> []"
  by (cases s) auto

lemma split_dot_join: "split_dot s = a # b # c \<Longrightarrow> \<exists>t. s = a @ 46 # t \<and> split_dot t = b # c"
proof (induction s arbitrary: a)
  case (Cons x s)
  then show ?case
  proof (cases "x = 46")
    case False
    then have "split_dot s = tl a # b # c" "a = x # tl a" using Cons.prems by (cases "split_dot s"; auto)+
    then show ?thesis using Cons.IH [of "tl a"] by (metis append_Cons)
  qed auto
qed simp

lemma split_dot_last: "split_dot s = [a] \<Longrightarrow> s = a"
proof (induction s arbitrary: a)
  case (Cons x s)
  then have "x \<noteq> 46" by (cases s) (auto split: if_splits)
  with Cons.prems have "split_dot s = [tl a]" "a = x # tl a" using split_dot_nonempty [of s] by (cases "split_dot s"; auto)+
  with Cons.IH show ?case by metis
qed simp

fun release_bounded :: "release \<Rightarrow> bool" where
  "release_bounded (major, minor, patch) \<longleftrightarrow> major \<le> u64_max \<and> minor \<le> u64_max \<and> patch \<le> u64_max"

lemma dot_not_digit [simp]: "46 \<notin> set (decimal n)"
  using decimal_digits [of 46 n] by auto


lemma release_parts_Some: "release_parts s = Some r \<Longrightarrow> s = floor_text (Floor r) \<and> release_bounded r"
proof -
  assume r: "release_parts s = Some r"
  then obtain a b c where abc: "split_dot s = [a, b, c]" by (auto simp: release_parts_def split: list.splits)
  then obtain t where t: "s = a @ 46 # t" "split_dot t = [b, c]" using split_dot_join by blast
  then obtain u where u: "t = b @ 46 # u" "split_dot u = [c]" using split_dot_join by blast
  then have "s = a @ 46 # b @ 46 # c" using t split_dot_last by simp
  with r abc show ?thesis by (auto simp: release_parts_def bind_eq_Some_conv dest!: parse_decimal_Some)
qed



lemma release_of_inject: "release_of v = Some r \<Longrightarrow> release_of w = Some r \<Longrightarrow> v = w"
  by (cases v; cases w) (auto simp: release_of_def dest!: release_parts_Some)


section \<open>Properties\<close>




end
