(* ===== verification/Spec2Isabelle.thy ===== *)
theory Spec2Isabelle
  imports Server Tab_Runs Display_Order Versions
begin

text \<open>
  SpaceTerm is a terminal multiplexer. A resident server, the Core, owns the authoritative hierarchy of
  Workspaces, Tabs and Panes, and keeps it across restarts; windows on this and other computers are clients
  that present the hierarchy of several servers, edit it, and keep arrangements of their own. This
  development models the state of both sides and the operations that change it.

  \<^bold>\<open>The server.\<close> A client sends an edit with its device identity and a sequence number
  (\<open>crates/spaceterm-core/src/hierarchy.rs\<close>). The state applies it, retains the outcome until the device
  acknowledges it, and answers a repeated request from the record. Around the state, the core host
  (\<open>src/runtime/core_host/workspaces.rs\<close> and below) commits each change to a journal, runs Worktree writes as
  jobs that finish later, compares the hierarchy with the facts git reports, and publishes what observers see.

  \<^item> \<open>Prelude\<close>, \<open>Rust_Text\<close>, \<open>Ordered_Map\<close> and \<open>F32\<close> hold what the source uses of its language: bounded
    integers, vectors, strings, paths, \<open>BTreeMap\<close> and single-precision numbers with their rounding.
  \<^item> \<open>Pane_Metadata\<close>, \<open>Repository_Facts\<close> and \<open>Hierarchy\<close> hold the data: the snapshot of a Pane and its
    sanitising (\<open>pane/metadata.rs\<close>, \<open>pane/control.rs\<close>), repository facts, Worktree operations
    (\<open>repository.rs\<close>, \<open>worktree.rs\<close>), and the records of \<open>hierarchy.rs\<close>.
  \<^item> \<open>Membership\<close> holds how Panes and Tabs move within a Workspace; the locale \<open>workspace_edit\<close> is the contract
    its three edits share. \<open>Naming\<close> holds the automatic names of Workspaces. \<open>Edits\<close> is \<open>State::edit\<close>, one
    definition per arm. \<open>Validation\<close> is \<open>State::validate\<close>, and \<open>Preservation\<close> shows that every edit keeps it.
  \<^item> \<open>Outcomes\<close> is \<open>State::apply\<close> and what it retains; \<open>Outcome_Laws\<close> and \<open>Upkeep\<close> hold its laws and the
    operations that maintain directories, presentations and boots.
  \<^item> \<open>Reconcile\<close> compares the hierarchy with git facts (\<open>core_host/repositories.rs\<close>), \<open>Live\<close> computes what is
    published, \<open>Removal\<close> is the review and the plan of a Worktree removal (\<open>worktrees/preparing.rs\<close>), \<open>Host\<close>
    holds commits, Worktree jobs and recovery, and \<open>Server\<close> puts them together as a step relation.

  \<^bold>\<open>The window.\<close> A window presents Workspaces, their Tabs and the Panes of each Tab, parks what waits for a
  server's answer to a close, and restores it when the close is refused.

  \<^item> \<open>Parked_Order\<close> is the contract of an order in which some elements are hidden, as the locales
    \<open>parked_order\<close> and \<open>parked_steps\<close>; \<open>Workspace_Strip\<close> (\<open>domain/workspace_collection.rs\<close>) and \<open>Tab_Runs\<close>
    interpret them. \<open>Closing\<close> is \<open>close_confirmation.rs\<close>, with its confirmation as a state machine.
  \<^item> \<open>Tab_Strip\<close> is \<open>domain/tab_collection.rs\<close>; \<open>Tab_Laws\<close> and \<open>Tab_Ops\<close> show what each operation keeps, and
    \<open>Tab_Runs\<close> what holds of every history.
  \<^item> \<open>Pane_Layout\<close> is \<open>domain/tab.rs\<close>: the tree of Splits, focus, zoom, moves, parking and sizes. \<open>Pane_Laws\<close>,
    \<open>Pane_Ops\<close>, \<open>Pane_Runs\<close> and \<open>Pane_Views\<close> hold its invariant, histories and views.
  \<^item> \<open>Client_View\<close> is \<open>client_view.rs\<close>: stored arrangements and the retained copy of an inventory. \<open>Layout_Laws\<close>,
    \<open>Layout_Views\<close> and \<open>Arrangements\<close> show what its check means and what reconciling keeps. \<open>Window_Layout\<close>
    joins them to the Panes of a Tab as \<open>ui/tab_view.rs\<close> does.
  \<^item> \<open>Workspace_Order\<close> is \<open>workspace_order.rs\<close>, the order of Workspaces across servers; \<open>Display_Order\<close> is
    \<open>ui/workspace_manager/display_order.rs\<close>, which keeps a window in that order.
  \<^item> \<open>Versions\<close> holds versions and the admission of updates (\<open>update/facts.rs\<close>, \<open>update/ordering.rs\<close>).

  \<^bold>\<open>What is shown.\<close> An edit takes effect once: repeated requests are answered from the record (C1), no edit
  ends another device's outcome (C2), acknowledging and finishing end exactly what they name (C4 to C6), and a
  refused edit changes nothing (C7). A close removes the Panes that were confirmed (C3), and a Worktree removal
  the Tabs that were reviewed (C12). Automatic names are unique, stable and acceptable (C8 to C10). Every state
  a server reaches, and every record of its journal, passes the check that reads it back (C11). Comparing with
  git facts advances the revision when it changes something and is stable where the facts agree on main roots
  (C13), and exactly the Root Tab of an unpinned Workspace follows its directory (C14).

  The collections of a window keep their invariants over every history and never panic (C16, C19, C23, with the
  one exception C29 names); a refused close leaves no trace in the order of Workspaces, Tabs or Panes (C15, C17,
  C20, C24). Workspaces that are moved meanwhile are reordered around the slot of the parked one (C17), and
  of two Tabs parked as Root Tab one after the other, the one refused last is the Root Tab (C31). An approval answers the question that was asked (C18). Next and
  Previous reach everything (C21, C27), a close falls back as described (C22, C30), a drop does what it shows
  (C25), ratios are fitted into their range (C26), and a resize writes the nearest ratio in range (C28).

  Stored layouts are read without running forever (C32), written and read back unchanged (C33), reconciled
  without losing an arrangement (C34, C35), restored into a Tab (C37), and the retained copy presents the same
  structure (C36). The order of Workspaces comes back as it was recorded, whichever server connects first
  (C38), and the window follows it (C39). A Core below a release's floor is told a version
  that leads to it, by the pending version or by the release of the floor (C40).

  \<^bold>\<open>Conventions.\<close> An identity of 32 bytes is a 256-bit word. A \<open>u64\<close> or \<open>usize\<close> is a natural number, and each
  operation that may leave the range is written out: checked, saturating or wrapping as in the source. A
  \<open>Result\<close> is a sum with the error on the left. A panic or a traversal that does not return is \<open>None\<close>. A method
  with \<open>&mut self\<close> returns the state on every path. What the operating system, git and random numbers answer
  are arguments of the operations that ask.

  \<^bold>\<open>Bounds and fuel.\<close> The only fuel is the source's own: an alias is followed at most \<open>CAPACITY * 3\<close> times
  (\<open>follow_alias\<close>), the bound in \<open>PendingEdits::canonical\<close>. The traversals of stored layouts, \<open>tree_at\<close> and
  \<open>convert_layout\<close>, are partial functions, because stored indexes may form a cycle; C32 and C37 show that they
  return where the code calls them. All other recursions are structural or have a termination proof. The limits
  of the source (\<open>MAX_WORKSPACES\<close>, \<open>MAX_PANES\<close>, \<open>MAX_ENTRIES\<close> and the others) are constants with its values.

  \<^bold>\<open>Not modelled.\<close> Terminal emulation, sessions and screens move bytes between a pseudo-terminal, a foreign
  emulator and the display. The views and the widget library call a window toolkit that is not part of the
  sources; only the state they keep of the hierarchy is modelled. Connections, pairing, protocol frames and
  storage are sockets, cryptography, serialisation and files of libraries; their effect on the state is the
  sequence of steps the theorems range over. Installing the service, permissions, platform services, running
  git and ssh, the command line tool, settings, appearance and key bindings do not change the hierarchy.
  The plans of \<open>organize.rs\<close> lead to edits that the state checks again. The thread of the Worktree writer, the
  watches of repositories and the optimistic edits of \<open>ui/workspaces.rs\<close> are represented only by the steps
  and bindings that the modelled operations see.
\<close>

end
